(* ===== verification/Rx_Prelude.thy ===== *)
theory Rx_Prelude
  imports Main "HOL-Library.Word" "HOL-Library.Monad_Syntax"
begin

text \<open>
  What every component shares: the fixed-width integers of the C code, the big-endian
  reads and writes of its wire formats, byte copies into a list (the effect of
  \<open>memcpy\<close> and \<open>memset\<close> on one block), checked reads of a byte list, and the
  collections of rewrite rules the component proofs use. A checked read returns
  \<open>None\<close> where the C code would have undefined behaviour (an access out of
  bounds), so that memory safety is a theorem about the models and not an assumption.
\<close>

unbundle bit_operations_syntax

named_theorems mem_simps \<open>reads, writes and sizes of memory blocks\<close>
named_theorems wire_simps \<open>big-endian words and wire headers\<close>

section \<open>Machine integers\<close>

type_synonym byte = "8 word"
type_synonym u16 = "16 word"
type_synonym u32 = "32 word"
type_synonym u64 = "64 word"

text \<open>A product of two 32-bit values always fits in the 64-bit \<open>size_t\<close>.\<close>

lemma unat_u32_less: "unat (x :: u32) < 4294967296"
  using unsigned_less [of x] by simp

lemma unat_u16_less: "unat (x :: u16) < 65536"
  using unsigned_less [of x] by simp

lemma unat_byte_less: "unat (x :: byte) < 256"
  using unsigned_less [of x] by simp

lemma size_t_product: "unat (x :: u32) * unat (y :: u32) < 2 ^ 64"
proof -
  have "unat x * unat y \<le> 4294967295 * 4294967295"
    using unat_u32_less [of x] unat_u32_less [of y] by (intro mult_le_mono) auto
  then show ?thesis by simp
qed

section \<open>Big-endian words\<close>

text \<open>\<open>(uint16_t)((b0 << 8) | b1)\<close> and its 32-bit counterpart.\<close>

definition be16 :: "byte \<Rightarrow> byte \<Rightarrow> u16" where
  "be16 b0 b1 = push_bit 8 (ucast b0) OR ucast b1"

definition be32 :: "byte \<Rightarrow> byte \<Rightarrow> byte \<Rightarrow> byte \<Rightarrow> u32" where
  "be32 b0 b1 b2 b3 =
     ((push_bit 24 (ucast b0) OR push_bit 16 (ucast b1)) OR push_bit 8 (ucast b2)) OR ucast b3"

text \<open>\<open>(uint8_t)(x >> 8)\<close> and \<open>(uint8_t)(x & 0xFF)\<close>, for 16 and 32 bits.\<close>

definition put16 :: "u16 \<Rightarrow> byte list" where
  "put16 x = [ucast (drop_bit 8 x), ucast (x AND 0xFF)]"

definition put32 :: "u32 \<Rightarrow> byte list" where
  "put32 x = [ucast (drop_bit 24 x), ucast (drop_bit 16 x AND 0xFF),
              ucast (drop_bit 8 x AND 0xFF), ucast (x AND 0xFF)]"

lemma length_put16 [simp]: "length (put16 x) = 2"
  by (simp add: put16_def)

lemma length_put32 [simp]: "length (put32 x) = 4"
  by (simp add: put32_def)

lemma low_byte_mask: "(0xFF :: 'a::len word) = mask 8"
  by (simp add: mask_eq_exp_minus_1)

lemma be16_put16 [wire_simps]: "be16 (ucast (drop_bit 8 x)) (ucast (x AND 0xFF)) = x"
  unfolding be16_def
  by (rule bit_word_eqI) (auto simp: bit_simps low_byte_mask)

lemma be32_put32 [wire_simps]:
  "be32 (ucast (drop_bit 24 x)) (ucast (drop_bit 16 x AND 0xFF))
        (ucast (drop_bit 8 x AND 0xFF)) (ucast (x AND 0xFF)) = x"
proof (rule bit_word_eqI)
  fix n assume "n < LENGTH(32)"
  then consider "n < 8" | "8 \<le> n" "n < 16" | "16 \<le> n" "n < 24" | "24 \<le> n" "n < 32"
    by fastforce
  then show "bit (be32 (ucast (drop_bit 24 x)) (ucast (drop_bit 16 x AND 0xFF))
        (ucast (drop_bit 8 x AND 0xFF)) (ucast (x AND 0xFF))) n = bit x n"
    by cases (auto simp: be32_def bit_simps low_byte_mask)
qed

lemma unat_be16 [wire_simps]: "unat (be16 a b) = unat a * 256 + unat b"
proof -
  have "be16 a b = push_bit 8 (ucast a) + ucast b"
    unfolding be16_def by (rule disjunctive_add [symmetric]) (auto simp: bit_simps dest: bit_imp_le_length)
  moreover have "unat (push_bit 8 (ucast a) :: u16) = unat a * 256"
    using unat_byte_less [of a]
    by (simp add: push_bit_eq_mult unat_word_ariths unsigned_ucast_eq take_bit_eq_mod)
  ultimately show ?thesis
    using unat_byte_less [of a] unat_byte_less [of b]
    by (simp add: unat_word_ariths unsigned_ucast_eq take_bit_eq_mod)
qed

section \<open>Checked reads and copies\<close>

text \<open>A read of one byte, and of \<open>n\<close> bytes at offset \<open>i\<close>.\<close>

definition rd :: "'a list \<Rightarrow> nat \<Rightarrow> 'a option" where
  "rd xs i = (if i < length xs then Some (xs ! i) else None)"

definition rd_range :: "'a list \<Rightarrow> nat \<Rightarrow> nat \<Rightarrow> 'a list option" where
  "rd_range xs i n = (if i + n \<le> length xs then Some (take n (drop i xs)) else None)"

text \<open>The contents of a block after \<open>memcpy(block + i, ys, length ys)\<close>.\<close>

definition blit :: "'a list \<Rightarrow> nat \<Rightarrow> 'a list \<Rightarrow> 'a list" where
  "blit xs i ys = take i xs @ ys @ drop (i + length ys) xs"

lemma rd_Some [mem_simps]: "i < length xs \<Longrightarrow> rd xs i = Some (xs ! i)"
  by (simp add: rd_def)

lemma rd_range_Some [mem_simps]: "i + n \<le> length xs \<Longrightarrow> rd_range xs i n = Some (take n (drop i xs))"
  by (simp add: rd_range_def)

lemma length_rd_range: "rd_range xs i n = Some ys \<Longrightarrow> length ys = n"
  by (auto simp: rd_range_def split: if_splits)

lemma length_blit [mem_simps]: "i + length ys \<le> length xs \<Longrightarrow> length (blit xs i ys) = length xs"
  by (simp add: blit_def)

lemma blit_Nil [simp]: "blit xs i [] = xs"
  by (simp add: blit_def)

lemma nth_blit:
  assumes "i + length ys \<le> length xs" and "k < length xs"
  shows "blit xs i ys ! k = (if i \<le> k \<and> k < i + length ys then ys ! (k - i) else xs ! k)"
  using assms by (auto simp: blit_def nth_append min_def)

lemma take_drop_blit_same [mem_simps]:
  "i + length ys \<le> length xs \<Longrightarrow> take (length ys) (drop i (blit xs i ys)) = ys"
  by (simp add: blit_def)

lemma blit_blit_append:
  "i + length ys + length zs \<le> length xs \<Longrightarrow>
     blit (blit xs i ys) (i + length ys) zs = blit xs i (ys @ zs)"
  by (simp add: blit_def ac_simps)

lemma blit_all [mem_simps]: "length ys = length xs \<Longrightarrow> blit xs 0 ys = ys"
  by (simp add: blit_def)

section \<open>Reading wire values back\<close>

definition rd16 :: "byte list \<Rightarrow> nat \<Rightarrow> u16 option" where
  "rd16 bs i = do { b0 \<leftarrow> rd bs i; b1 \<leftarrow> rd bs (i + 1); Some (be16 b0 b1) }"

definition rd32 :: "byte list \<Rightarrow> nat \<Rightarrow> u32 option" where
  "rd32 bs i =
     do { b0 \<leftarrow> rd bs i; b1 \<leftarrow> rd bs (i + 1); b2 \<leftarrow> rd bs (i + 2); b3 \<leftarrow> rd bs (i + 3);
          Some (be32 b0 b1 b2 b3) }"

lemma rd16_Some [mem_simps]: "i + 1 < length bs \<Longrightarrow> rd16 bs i = Some (be16 (bs ! i) (bs ! (i + 1)))"
  by (simp add: rd16_def rd_def)

lemma rd32_Some [mem_simps]:
  "i + 3 < length bs \<Longrightarrow>
     rd32 bs i = Some (be32 (bs ! i) (bs ! (i + 1)) (bs ! (i + 2)) (bs ! (i + 3)))"
  by (simp add: rd32_def rd_def)

text \<open>
  A wire format of a fixed width: what is written at an offset is read back there,
  whatever is before and after it.
\<close>

locale wire_codec =
  fixes put :: "'a \<Rightarrow> byte list" and get :: "byte list \<Rightarrow> nat \<Rightarrow> 'a option" and width :: nat
  assumes length_put: "length (put x) = width"
    and get_put: "get (xs @ put x @ ys) (length xs) = Some x"
begin

lemma get_at: "i = length xs \<Longrightarrow> get (xs @ put x @ ys) i = Some x"
  by (simp add: get_put)

lemma length_concat_put: "length (concat (map put vs)) = width * length vs"
  by (induction vs) (simp_all add: length_put)

text \<open>The \<open>k\<close>-th of a run of values.\<close>

lemma get_nth:
  assumes "k < length vs"
  shows "get (xs @ concat (map put vs) @ ys) (length xs + width * k) = Some (vs ! k)"
proof -
  have "concat (map put vs) = concat (map put (take k vs)) @ put (vs ! k) @ concat (map put (drop (Suc k) vs))"
    using assms by (subst id_take_nth_drop [OF assms]) simp
  then show ?thesis
    using assms get_at [of _ "xs @ concat (map put (take k vs))" "vs ! k" "concat (map put (drop (Suc k) vs)) @ ys"]
    by (simp add: length_concat_put)
qed

end

interpretation w16: wire_codec put16 rd16 2
  by unfold_locales (simp_all add: put16_def rd16_def rd_def nth_append be16_put16)

interpretation w32: wire_codec put32 rd32 4
  by unfold_locales (simp_all add: put32_def rd32_def rd_def nth_append be32_put32)

end
