(* ===== verification/Rx_Memory.thy ===== *)
theory Rx_Memory
  imports Rx_Prelude
begin

text \<open>
  The C heap the library uses: blocks of bytes named by addresses, \<open>malloc\<close>,
  \<open>calloc\<close>, \<open>free\<close>, and stores into a block. A pointer is an address or
  \<open>NULL\<close> (\<open>None\<close>). Which allocation requests the system refuses (\<open>oom\<close>) and
  what fresh \<open>malloc\<close> memory holds (\<open>junk\<close>) are fields of the heap that no operation
  changes, so every theorem holds for all of them. An access outside a live block and a
  \<open>free\<close> of a block that is not live give \<open>None\<close>: undefined behaviour.
\<close>

type_synonym ptr = "nat option"

record heap =
  blocks :: "nat \<Rightarrow> byte list option"
  next_blk :: nat
  oom :: "nat \<Rightarrow> bool"
  junk :: "nat \<Rightarrow> nat \<Rightarrow> byte"

definition contents :: "'z heap_scheme \<Rightarrow> ptr \<Rightarrow> byte list option" where
  "contents h p = (case p of None \<Rightarrow> None | Some a \<Rightarrow> blocks h a)"

definition alloc :: "byte list \<Rightarrow> 'z heap_scheme \<Rightarrow> ptr \<times> 'z heap_scheme" where
  "alloc bs h =
     (let a = next_blk h; h1 = h\<lparr>next_blk := Suc a\<rparr>
      in if oom h a then (None, h1)
         else (Some a, h1\<lparr>blocks := (blocks h)(a \<mapsto> bs)\<rparr>))"

definition malloc :: "nat \<Rightarrow> 'z heap_scheme \<Rightarrow> ptr \<times> 'z heap_scheme" where
  "malloc n h = alloc (map (junk h (next_blk h)) [0..<n]) h"

definition calloc :: "nat \<Rightarrow> 'z heap_scheme \<Rightarrow> ptr \<times> 'z heap_scheme" where
  "calloc n h = alloc (replicate n 0) h"

definition free_blk :: "ptr \<Rightarrow> 'z heap_scheme \<Rightarrow> 'z heap_scheme option" where
  "free_blk p h =
     (case p of
        None \<Rightarrow> Some h
      | Some a \<Rightarrow> if blocks h a = None then None
                  else Some (h\<lparr>blocks := (blocks h)(a := None)\<rparr>))"

definition store :: "'z heap_scheme \<Rightarrow> ptr \<Rightarrow> nat \<Rightarrow> byte list \<Rightarrow> 'z heap_scheme option" where
  "store h p i ys =
     (case p of
        None \<Rightarrow> None
      | Some a \<Rightarrow>
          (case blocks h a of
             None \<Rightarrow> None
           | Some bs \<Rightarrow> if i + length ys \<le> length bs
                        then Some (h\<lparr>blocks := (blocks h)(a \<mapsto> blit bs i ys)\<rparr>)
                        else None))"

definition load :: "'z heap_scheme \<Rightarrow> ptr \<Rightarrow> nat \<Rightarrow> byte option" where
  "load h p i = (case contents h p of None \<Rightarrow> None | Some bs \<Rightarrow> rd bs i)"

definition memset :: "'z heap_scheme \<Rightarrow> ptr \<Rightarrow> byte \<Rightarrow> nat \<Rightarrow> 'z heap_scheme option" where
  "memset h p v n = store h p 0 (replicate n v)"

lemma load_Some [mem_simps]:
  "contents h p = Some bs \<Longrightarrow> i < length bs \<Longrightarrow> load h p i = Some (bs ! i)"
  by (simp add: load_def mem_simps)

text \<open>Addresses are handed out once: every live block is below the next address.\<close>

definition heap_wf :: "'z heap_scheme \<Rightarrow> bool" where
  "heap_wf h \<longleftrightarrow> (\<forall>a. blocks h a \<noteq> None \<longrightarrow> a < next_blk h)"

lemma fresh_blocks: "heap_wf h \<Longrightarrow> next_blk h \<le> a \<Longrightarrow> blocks h a = None"
  by (auto simp: heap_wf_def dest: leD)

text \<open>The two outcomes of an allocation, as rewrite rules.\<close>

lemma alloc_outcomes:
  "oom h (next_blk h) \<Longrightarrow> calloc n h = (None, h\<lparr>next_blk := Suc (next_blk h)\<rparr>)"
  "oom h (next_blk h) \<Longrightarrow> malloc n h = (None, h\<lparr>next_blk := Suc (next_blk h)\<rparr>)"
  "\<not> oom h (next_blk h) \<Longrightarrow> calloc n h = (Some (next_blk h),
     h\<lparr>next_blk := Suc (next_blk h), blocks := (blocks h)(next_blk h \<mapsto> replicate n 0)\<rparr>)"
  "\<not> oom h (next_blk h) \<Longrightarrow> malloc n h = (Some (next_blk h),
     h\<lparr>next_blk := Suc (next_blk h), blocks := (blocks h)(next_blk h \<mapsto> map (junk h (next_blk h)) [0..<n])\<rparr>)"
  by (simp_all add: calloc_def malloc_def alloc_def Let_def)

lemma free_blk_live: "blocks h a \<noteq> None \<Longrightarrow> free_blk (Some a) h = Some (h\<lparr>blocks := (blocks h)(a := None)\<rparr>)"
  by (simp add: free_blk_def)

text \<open>The blocks live in \<open>h\<close>, as a set of addresses.\<close>

definition live :: "'z heap_scheme \<Rightarrow> nat set" where
  "live h = dom (blocks h)"

section \<open>The interface a component uses\<close>

text \<open>
  What the frame assembler and the converter rely on: a store that stays inside a live
  block is defined, changes that block as \<open>memcpy\<close> does, and no other block.
\<close>

locale byte_memory =
  fixes peek :: "'h \<Rightarrow> 'p \<Rightarrow> byte list option"
    and poke :: "'h \<Rightarrow> 'p \<Rightarrow> nat \<Rightarrow> byte list \<Rightarrow> 'h option"
  assumes poke_defined:
      "peek h p = Some bs \<Longrightarrow> i + length ys \<le> length bs \<Longrightarrow> poke h p i ys \<noteq> None"
    and poke_same:
      "poke h p i ys = Some h' \<Longrightarrow>
         \<exists>bs. peek h p = Some bs \<and> i + length ys \<le> length bs \<and> peek h' p = Some (blit bs i ys)"
    and poke_other: "poke h p i ys = Some h' \<Longrightarrow> q \<noteq> p \<Longrightarrow> peek h' q = peek h q"
begin

lemma poke_obtain:
  assumes "peek h p = Some bs" and "i + length ys \<le> length bs"
  obtains h' where "poke h p i ys = Some h'" and "peek h' p = Some (blit bs i ys)"
    and "\<And>q. q \<noteq> p \<Longrightarrow> peek h' q = peek h q"
proof -
  from poke_defined [OF assms] obtain h' where h': "poke h p i ys = Some h'" by auto
  with poke_same [OF h'] assms(1) have "peek h' p = Some (blit bs i ys)" by auto
  then show ?thesis using h' poke_other [OF h'] that [of h'] by simp
qed

text \<open>Every block keeps its size.\<close>

lemma poke_length:
  "poke h p i ys = Some h' \<Longrightarrow> map_option length (peek h' q) = map_option length (peek h q)"
  by (cases "q = p") (auto dest: poke_same poke_other simp: length_blit)

text \<open>Two consecutive copies are one copy of both.\<close>

lemma poke_poke:
  assumes "peek h p = Some bs" and "i + length ys + length zs \<le> length bs"
    and "poke h p i ys = Some h1" and "poke h1 p (i + length ys) zs = Some h2"
  shows "peek h2 p = Some (blit bs i (ys @ zs))"
  using poke_same [OF assms(3)] poke_same [OF assms(4)] assms(1,2)
  by (auto simp: blit_blit_append)

text \<open>Overwriting a whole block leaves nothing of its old contents.\<close>

lemma poke_whole:
  "poke h p 0 ys = Some h' \<Longrightarrow> peek h p = Some bs \<Longrightarrow> length ys = length bs \<Longrightarrow> peek h' p = Some ys"
  by (auto dest!: poke_same simp: blit_all)

end

interpretation heap_mem: byte_memory contents store
  by unfold_locales
     (auto simp: contents_def store_def split: option.splits if_splits)

lemma memset_obtain:
  assumes "contents h p = Some bs" and "n = length bs"
  obtains h' where "memset h p v n = Some h'" and "contents h' p = Some (replicate n v)"
    and "\<And>q. q \<noteq> p \<Longrightarrow> contents h' q = contents h q"
proof -
  from assms obtain h' where h': "store h p 0 (replicate n v) = Some h'"
      "contents h' p = Some (blit bs 0 (replicate n v))" "\<And>q. q \<noteq> p \<Longrightarrow> contents h' q = contents h q"
    using heap_mem.poke_obtain [of h p bs 0 "replicate n v"] by auto
  then show ?thesis
    using assms(2) that [of h'] by (simp add: memset_def blit_all)
qed

end
