(* ===== verification/Rx_Types.thy ===== *)
theory Rx_Types
  imports Rx_Memory
begin

text \<open>
  The public data of \<open>libst2110rx/include/st2110rx.h\<close>: pixel formats, frames, log
  levels, the configuration, the statistics and the error codes.
\<close>

text \<open>
  The C enum is an integer, and a caller may cast any integer to it (the plugin does);
  the last constructor is a value with no enumerator.
\<close>

datatype st2110rx_pixfmt_t =
    ST2110RX_FMT_YCBCR422_10BIT
  | ST2110RX_FMT_UYVY
  | ST2110RX_FMT_P010
  | ST2110RX_FMT_V210
  | FMT_UNNAMED u32

definition pixfmt_of_u32 :: "u32 \<Rightarrow> st2110rx_pixfmt_t" where
  "pixfmt_of_u32 n =
     (if n = 0 then ST2110RX_FMT_YCBCR422_10BIT
      else if n = 1 then ST2110RX_FMT_UYVY
      else if n = 2 then ST2110RX_FMT_P010
      else if n = 3 then ST2110RX_FMT_V210
      else FMT_UNNAMED n)"

fun u32_of_pixfmt :: "st2110rx_pixfmt_t \<Rightarrow> u32" where
  "u32_of_pixfmt ST2110RX_FMT_YCBCR422_10BIT = 0"
| "u32_of_pixfmt ST2110RX_FMT_UYVY = 1"
| "u32_of_pixfmt ST2110RX_FMT_P010 = 2"
| "u32_of_pixfmt ST2110RX_FMT_V210 = 3"
| "u32_of_pixfmt (FMT_UNNAMED n) = n"

record st2110rx_frame_t =
  f_data :: "ptr list"        \<comment> \<open>\<open>data[4]\<close>\<close>
  f_linesize :: "u32 list"    \<comment> \<open>\<open>linesize[4]\<close>\<close>
  f_width :: u32
  f_height :: u32
  f_format :: st2110rx_pixfmt_t
  f_timestamp_ns :: u64
  f_frame_number :: u32
  f_incomplete :: bool

text \<open>\<open>memset(&frame, 0, sizeof(frame))\<close>\<close>

definition zero_frame :: st2110rx_frame_t where
  "zero_frame = \<lparr>f_data = [None, None, None, None], f_linesize = [0, 0, 0, 0],
     f_width = 0, f_height = 0, f_format = ST2110RX_FMT_YCBCR422_10BIT,
     f_timestamp_ns = 0, f_frame_number = 0, f_incomplete = False\<rparr>"

datatype st2110rx_log_level_t =
  ST2110RX_LOG_ERROR | ST2110RX_LOG_WARN | ST2110RX_LOG_INFO | ST2110RX_LOG_DEBUG

fun int_of_level :: "st2110rx_log_level_t \<Rightarrow> nat" where
  "int_of_level ST2110RX_LOG_ERROR = 0"
| "int_of_level ST2110RX_LOG_WARN = 1"
| "int_of_level ST2110RX_LOG_INFO = 2"
| "int_of_level ST2110RX_LOG_DEBUG = 3"

lemma int_of_level_inj [simp]: "int_of_level l = int_of_level m \<longleftrightarrow> l = m"
  by (cases l; cases m) simp_all

text \<open>Log levels are ordered as their enumerators are: an error is the least level.\<close>

instantiation st2110rx_log_level_t :: linorder
begin

definition less_eq_st2110rx_log_level_t :: "st2110rx_log_level_t \<Rightarrow> st2110rx_log_level_t \<Rightarrow> bool" where
  "less_eq_st2110rx_log_level_t l m \<longleftrightarrow> int_of_level l \<le> int_of_level m"

definition less_st2110rx_log_level_t :: "st2110rx_log_level_t \<Rightarrow> st2110rx_log_level_t \<Rightarrow> bool" where
  "less_st2110rx_log_level_t l m \<longleftrightarrow> int_of_level l < int_of_level m"

instance
  by standard (auto simp: less_eq_st2110rx_log_level_t_def less_st2110rx_log_level_t_def)

end

text \<open>
  The configuration. The two callbacks and their user data are parameters of the models
  that call them; \<open>c_has_frame_cb\<close> and \<open>c_has_log_cb\<close> say whether the pointers are set.
\<close>

record st2110rx_config_t =
  c_multicast_addr :: "string option"
  c_port :: u16
  c_interface_addr :: "string option"
  c_width :: u32
  c_height :: u32
  c_input_fmt :: st2110rx_pixfmt_t
  c_output_fmt :: st2110rx_pixfmt_t
  c_socket_buffer_size :: u32
  c_enable_jumbo :: bool
  c_has_frame_cb :: bool
  c_has_log_cb :: bool

definition ST2110RX_OK :: int where "ST2110RX_OK = 0"
definition ST2110RX_ERR_SOCKET :: int where "ST2110RX_ERR_SOCKET = -1"
definition ST2110RX_ERR_BIND :: int where "ST2110RX_ERR_BIND = -2"
definition ST2110RX_ERR_IGMP :: int where "ST2110RX_ERR_IGMP = -3"
definition ST2110RX_ERR_THREAD :: int where "ST2110RX_ERR_THREAD = -4"
definition ST2110RX_ERR_INVALID :: int where "ST2110RX_ERR_INVALID = -5"
definition ST2110RX_ERR_ALLOC :: int where "ST2110RX_ERR_ALLOC = -6"

lemmas error_codes =
  ST2110RX_OK_def ST2110RX_ERR_SOCKET_def ST2110RX_ERR_BIND_def ST2110RX_ERR_IGMP_def
  ST2110RX_ERR_THREAD_def ST2110RX_ERR_INVALID_def ST2110RX_ERR_ALLOC_def

definition ST2110RX_DEFAULT_SOCKET_BUF :: int where
  "ST2110RX_DEFAULT_SOCKET_BUF = 128 * 1024 * 1024"

definition ST2110RX_DEFAULT_PORT :: u16 where
  "ST2110RX_DEFAULT_PORT = 20000"

lemma pixfmt_of_u32_of_pixfmt:
  "pixfmt_of_u32 (u32_of_pixfmt f) = f \<longleftrightarrow> (\<forall>n. f = FMT_UNNAMED n \<longrightarrow> n \<notin> {0, 1, 2, 3})"
  by (cases f) (auto simp: pixfmt_of_u32_def)

end
