(* ===== verification/Rx_Rtp.thy ===== *)
theory Rx_Rtp
  imports Rx_Types
begin

text \<open>
  The wire side of \<open>rx_rfc4175.c\<close>: \<open>parse_rtp_header\<close> and the loop that reads the
  RFC 4175 line headers of a packet. A packet is the list of the bytes received; its end
  is the end of the list, and every read is checked against it. The encoders at the end
  are a specification of the wire format (RFC 3550 and RFC 4175), not code of the
  repository: the parsers are proved to invert them.
\<close>

section \<open>The code\<close>

definition RTP_MARKER_MASK :: u16 where "RTP_MARKER_MASK = 0x0080"
definition RTP_X_MASK :: u16 where "RTP_X_MASK = 0x1000"

text \<open>
  \<open>None\<close> is a read out of bounds, \<open>Some None\<close> the \<open>NULL\<close> result; otherwise the offset
  of the payload, the sequence number, the timestamp and the marker.
\<close>

definition parse_rtp_header :: "byte list \<Rightarrow> (nat \<times> u16 \<times> u32 \<times> bool) option option" where
  "parse_rtp_header pkt =
     (if length pkt < 12 then Some None
      else do {
        flags \<leftarrow> rd16 pkt 0;
        let marker = (flags AND RTP_MARKER_MASK \<noteq> 0);
        seq \<leftarrow> rd16 pkt 2;
        timestamp \<leftarrow> rd32 pkt 4;
        b0 \<leftarrow> rd pkt 0;
        let cc = b0 AND 0x0F;
        let hdr_len = 12 + unat cc * 4;
        if flags AND RTP_X_MASK \<noteq> 0 then
          if length pkt < hdr_len + 4 then Some None
          else do {
            ext_len_words \<leftarrow> rd16 pkt (hdr_len + 2);
            let hdr_len = hdr_len + (4 + unat ext_len_words * 4);
            if length pkt < hdr_len then Some None
            else Some (Some (hdr_len, seq, timestamp, marker)) }
        else if length pkt < hdr_len then Some None
        else Some (Some (hdr_len, seq, timestamp, marker)) })"

text \<open>\<open>rx_extract_rtp_timestamp\<close> of \<open>rx_core.c\<close>\<close>

definition rx_extract_rtp_timestamp :: "byte list \<Rightarrow> u32 option" where
  "rx_extract_rtp_timestamp pkt = (if length pkt < 8 then Some 0 else rd32 pkt 4)"

record segment =
  line_no :: u16
  pixel_offset :: u16
  seg_length :: u16

definition MAX_SEGMENTS :: nat where "MAX_SEGMENTS = 8"

text \<open>One six-byte line header, with its continuation bit.\<close>

definition rd_line_header :: "byte list \<Rightarrow> nat \<Rightarrow> (segment \<times> bool) option" where
  "rd_line_header pkt p =
     do { seg_len \<leftarrow> rd16 pkt p;
          line_field \<leftarrow> rd16 pkt (p + 2);
          offset_cont \<leftarrow> rd16 pkt (p + 4);
          let continuation = (offset_cont AND 0x8000 \<noteq> 0);
          Some (\<lparr>line_no = line_field AND 0x7FFF, pixel_offset = offset_cont AND 0x7FFF,
                 seg_length = seg_len\<rparr>, continuation) }"

text \<open>
  The \<open>for (;;)\<close> loop over the line headers: \<open>p\<close> is the read position, \<open>pend\<close> the end of
  the payload, \<open>segs\<close> the array filled so far. A header that does not fit, or a ninth
  header, empties the array and stops.
\<close>

function parse_line_headers ::
    "byte list \<Rightarrow> nat \<Rightarrow> nat \<Rightarrow> segment list \<Rightarrow> (segment list \<times> nat) option" where
  "parse_line_headers pkt p pend segs =
     (if p + 6 > pend \<or> length segs \<ge> MAX_SEGMENTS then Some ([], p)
      else do {
        (seg, continuation) \<leftarrow> rd_line_header pkt p;
        if \<not> continuation then Some (segs @ [seg], p + 6)
        else parse_line_headers pkt (p + 6) pend (segs @ [seg]) })"
  by pat_completeness auto
termination
  by (relation "measure (\<lambda>(pkt, p, pend, segs). MAX_SEGMENTS - length segs)") auto

declare parse_line_headers.simps [simp del]

section \<open>Safety and bounds\<close>

lemma cc_bound: "unat (b AND 0x0F :: byte) \<le> 15"
  using word_and_le1 [of b 15] by (simp add: word_le_nat_alt)

lemma parse_rtp_header_total: "\<exists>r. parse_rtp_header pkt = Some r"
  using cc_bound [of "pkt ! 0"]
  by (auto simp: parse_rtp_header_def mem_simps Let_def rd_def)

lemma parse_rtp_header_offset:
  assumes "parse_rtp_header pkt = Some (Some (off, seq, ts, m))"
  shows "12 \<le> off \<and> off \<le> length pkt"
  using assms
  by (auto simp: parse_rtp_header_def Let_def split: if_splits bind_splits)

lemma parse_line_headers_stop:
  "p + 6 > pend \<or> length segs \<ge> MAX_SEGMENTS \<Longrightarrow> parse_line_headers pkt p pend segs = Some ([], p)"
  by (subst parse_line_headers.simps) (rule if_P)

lemma parse_line_headers_step:
  assumes "p + 6 \<le> pend" and "length segs < MAX_SEGMENTS"
  shows "parse_line_headers pkt p pend segs =
     do { (seg, continuation) \<leftarrow> rd_line_header pkt p;
          if \<not> continuation then Some (segs @ [seg], p + 6)
          else parse_line_headers pkt (p + 6) pend (segs @ [seg]) }"
  using assms by (subst parse_line_headers.simps) (rule if_not_P, simp)

lemma rd_line_header_Some: "p + 6 \<le> length pkt \<Longrightarrow> \<exists>r. rd_line_header pkt p = Some r"
  by (simp add: rd_line_header_def rd16_Some Let_def)

lemma parse_line_headers_total:
  "pend \<le> length pkt \<Longrightarrow> \<exists>r. parse_line_headers pkt p pend segs = Some r"
proof (induction "MAX_SEGMENTS - length segs" arbitrary: p segs rule: less_induct)
  case less
  show ?case
  proof (cases "p + 6 > pend \<or> length segs \<ge> MAX_SEGMENTS")
    case True
    then show ?thesis by (simp add: parse_line_headers_stop)
  next
    case False
    with less.prems obtain seg c where rd: "rd_line_header pkt p = Some (seg, c)"
      using rd_line_header_Some [of p pkt] by auto
    have "\<exists>r. parse_line_headers pkt (p + 6) pend (segs @ [seg]) = Some r"
      using False less.prems by (intro less.hyps) auto
    then show ?thesis
      using False rd by (simp add: parse_line_headers_step)
  qed
qed

text \<open>Induction along the loop, for a result it returned.\<close>

lemma parse_line_headers_induct [consumes 1, case_names stop last more]:
  assumes "parse_line_headers pkt p pend segs = Some r"
    and "\<And>p segs. p + 6 > pend \<or> length segs \<ge> MAX_SEGMENTS \<Longrightarrow> P p segs ([], p)"
    and "\<And>p segs s. p + 6 \<le> pend \<Longrightarrow> length segs < MAX_SEGMENTS \<Longrightarrow>
           rd_line_header pkt p = Some (s, False) \<Longrightarrow> P p segs (segs @ [s], p + 6)"
    and "\<And>p segs s r. p + 6 \<le> pend \<Longrightarrow> length segs < MAX_SEGMENTS \<Longrightarrow>
           rd_line_header pkt p = Some (s, True) \<Longrightarrow> P (p + 6) (segs @ [s]) r \<Longrightarrow> P p segs r"
  shows "P p segs r"
  using assms(1)
proof (induction "MAX_SEGMENTS - length segs" arbitrary: p segs rule: less_induct)
  case less
  show ?case
  proof (cases "p + 6 > pend \<or> length segs \<ge> MAX_SEGMENTS")
    case True
    then have "r = ([], p)" using less.prems by (simp add: parse_line_headers_stop)
    with True show ?thesis by (simp add: assms(2))
  next
    case False
    with less.prems obtain s c where rd: "rd_line_header pkt p = Some (s, c)"
      and rest: "(if \<not> c then Some (segs @ [s], p + 6)
                  else parse_line_headers pkt (p + 6) pend (segs @ [s])) = Some r"
      by (auto simp: parse_line_headers_step split: bind_splits)
    show ?thesis
    proof (cases c)
      case True
      with False rest have "P (p + 6) (segs @ [s]) r" by (intro less.hyps) auto
      with True False rd show ?thesis using assms(4) [of p segs s r] by simp
    next
      case no: False
      with False rd rest show ?thesis using assms(3) [of p segs s] by auto
    qed
  qed
qed

lemma parse_line_headers_bounds:
  assumes "parse_line_headers pkt p pend segs = Some (segs', p')"
    and "length segs \<le> MAX_SEGMENTS"
  shows "length segs' \<le> MAX_SEGMENTS \<and> p \<le> p' \<and> (segs' \<noteq> [] \<longrightarrow> p' \<le> pend)"
proof -
  have "length segs \<le> MAX_SEGMENTS \<longrightarrow> length (fst (segs', p')) \<le> MAX_SEGMENTS
          \<and> p \<le> snd (segs', p') \<and> (fst (segs', p') \<noteq> [] \<longrightarrow> snd (segs', p') \<le> pend)"
    using assms(1) by (induction rule: parse_line_headers_induct) auto
  with assms(2) show ?thesis by simp
qed

section \<open>The wire format, and the parsers as its inverse\<close>

text \<open>A line header as a sender writes it: the top bit of the offset is the continuation bit.\<close>

definition put_line_header :: "segment \<times> bool \<Rightarrow> byte list" where
  "put_line_header sc =
     (let (s, c) = sc in
      put16 (seg_length s) @ put16 (line_no s) @ put16 (if c then pixel_offset s OR 0x8000 else pixel_offset s))"

definition wf_segment :: "segment \<Rightarrow> bool" where
  "wf_segment s \<longleftrightarrow> line_no s AND 0x7FFF = line_no s \<and> pixel_offset s AND 0x7FFF = pixel_offset s"

fun put_line_headers :: "segment list \<Rightarrow> byte list" where
  "put_line_headers [] = []"
| "put_line_headers [s] = put_line_header (s, False)"
| "put_line_headers (s # ss) = put_line_header (s, True) @ put_line_headers ss"

lemma length_put_line_header [simp]: "length (put_line_header sc) = 6"
  by (simp add: put_line_header_def split: prod.splits)

lemma length_put_line_headers [simp]: "length (put_line_headers ss) = 6 * length ss"
  by (induction ss rule: put_line_headers.induct) simp_all

lemma continuation_bit:
  fixes x :: u16
  assumes "x AND 0x7FFF = x"
  shows "x AND 0x8000 = 0" "(x OR 0x8000) AND 0x8000 \<noteq> 0" "(x OR 0x8000) AND 0x7FFF = x"
proof -
  have "x AND 0x8000 = x AND (0x7FFF AND 0x8000)"
    using assms by (metis and.assoc)
  then show 1: "x AND 0x8000 = 0" by simp
  show "(x OR 0x8000) AND 0x8000 \<noteq> 0" by (simp add: bit.conj_disj_distrib2)
  show "(x OR 0x8000) AND 0x7FFF = x" using assms by (simp add: bit.conj_disj_distrib2)
qed

lemma rd_put_line_header:
  assumes "wf_segment s" and "p = length xs"
  shows "rd_line_header (xs @ put_line_header (s, c) @ ys) p = Some (s, c)"
proof -
  let ?off = "if c then pixel_offset s OR 0x8000 else pixel_offset s"
  let ?pkt = "xs @ put16 (seg_length s) @ put16 (line_no s) @ put16 ?off @ ys"
  have "rd16 ?pkt p = Some (seg_length s)" using assms(2) by (intro w16.get_at)
  moreover have "rd16 ?pkt (p + 2) = Some (line_no s)"
    using assms(2) w16.get_at [of "p + 2" "xs @ put16 (seg_length s)"] by simp
  moreover have "rd16 ?pkt (p + 4) = Some ?off"
    using assms(2) w16.get_at [of "p + 4" "xs @ put16 (seg_length s) @ put16 (line_no s)"] by simp
  ultimately show ?thesis
    using assms(1) continuation_bit [of "pixel_offset s"]
    by (simp add: rd_line_header_def put_line_header_def wf_segment_def Let_def)
qed

lemma parse_put_line_headers:
  assumes "ss \<noteq> []" and "length segs + length ss \<le> MAX_SEGMENTS" and "list_all wf_segment ss"
    and "p = length xs" and "p + 6 * length ss \<le> pend"
  shows "parse_line_headers (xs @ put_line_headers ss @ ys) p pend segs = Some (segs @ ss, p + 6 * length ss)"
  using assms
proof (induction ss arbitrary: xs p segs rule: put_line_headers.induct)
  case 1
  then show ?case by simp
next
  case (2 s)
  then show ?case
    using rd_put_line_header [of s p xs False ys]
    by (simp add: parse_line_headers_step)
next
  case (3 s s' ss)
  let ?pkt = "xs @ put_line_headers (s # s' # ss) @ ys"
  have "rd_line_header ?pkt p = Some (s, True)"
    using 3 rd_put_line_header [of s p xs True "put_line_headers (s' # ss) @ ys"] by simp
  moreover have "parse_line_headers ?pkt (p + 6) pend (segs @ [s])
      = Some (segs @ s # s' # ss, p + 6 * length (s # s' # ss))"
    using "3.IH" [of "segs @ [s]" "p + 6" "xs @ put_line_header (s, True)"] "3.prems" by simp
  ultimately show ?case
    using "3.prems" by (simp add: parse_line_headers_step del: put_line_headers.simps)
qed

text \<open>
  An RTP header with its contributing sources and its extension (profile word and data
  words), laid out as RFC 3550 does.
\<close>

record rtp_wire =
  w_marker :: bool
  w_ptype :: byte
  w_seq :: u16
  w_ts :: u32
  w_ssrc :: u32
  w_csrcs :: "u32 list"
  w_ext :: "(u16 \<times> u32 list) option"

definition put_rtp_ext :: "(u16 \<times> u32 list) option \<Rightarrow> byte list" where
  "put_rtp_ext e =
     (case e of None \<Rightarrow> []
      | Some (profile, ws) \<Rightarrow> put16 profile @ put16 (of_nat (length ws)) @ concat (map put32 ws))"

definition rtp_byte0 :: "rtp_wire \<Rightarrow> byte" where
  "rtp_byte0 w = (if w_ext w = None then 0x80 else 0x90) OR of_nat (length (w_csrcs w))"

definition rtp_byte1 :: "rtp_wire \<Rightarrow> byte" where
  "rtp_byte1 w = (if w_marker w then w_ptype w OR 0x80 else w_ptype w)"

definition put_rtp_header :: "rtp_wire \<Rightarrow> byte list" where
  "put_rtp_header w =
     [rtp_byte0 w, rtp_byte1 w] @ put16 (w_seq w) @ put32 (w_ts w) @ put32 (w_ssrc w)
       @ concat (map put32 (w_csrcs w)) @ put_rtp_ext (w_ext w)"

definition wf_rtp :: "rtp_wire \<Rightarrow> bool" where
  "wf_rtp w \<longleftrightarrow> length (w_csrcs w) \<le> 15 \<and> w_ptype w AND 0x7F = w_ptype w
     \<and> (case w_ext w of None \<Rightarrow> True | Some (_, ws) \<Rightarrow> length ws < 65536)"

lemma bit_be16: "bit (be16 a b) n \<longleftrightarrow> (if n < 8 then bit b n else n < 16 \<and> bit a (n - 8))"
  by (auto simp: be16_def bit_simps dest: bit_imp_le_length)

lemma marker_flag: "be16 a b AND RTP_MARKER_MASK \<noteq> 0 \<longleftrightarrow> bit b 7"
  using and_exp_eq_0_iff_not_bit [of "be16 a b" 7] by (simp add: RTP_MARKER_MASK_def bit_be16)

lemma extension_flag: "be16 a b AND RTP_X_MASK \<noteq> 0 \<longleftrightarrow> bit a 4"
  using and_exp_eq_0_iff_not_bit [of "be16 a b" 12] by (simp add: RTP_X_MASK_def bit_be16)

lemma rtp_byte1_marker:
  assumes "wf_rtp w"
  shows "bit (rtp_byte1 w) 7 = w_marker w"
proof -
  have "\<not> bit (w_ptype w AND 0x7F) 7" by (simp add: bit_simps)
  then have "\<not> bit (w_ptype w) 7" using assms by (simp add: wf_rtp_def)
  then show ?thesis by (auto simp: rtp_byte1_def bit_simps)
qed

lemma small_nat_cases: "n \<le> 15 \<Longrightarrow> n \<in> {0,1,2,3,4,5,6,7,8,9,10,11,12,13,14,15::nat}"
  by (simp add: numeral_eq_Suc le_Suc_eq)

lemma rtp_byte0_fields:
  assumes "wf_rtp w"
  shows "unat (rtp_byte0 w AND 0x0F) = length (w_csrcs w)" "bit (rtp_byte0 w) 4 \<longleftrightarrow> w_ext w \<noteq> None"
  using assms small_nat_cases [of "length (w_csrcs w)"]
  by (auto simp: wf_rtp_def rtp_byte0_def)

lemma length_put_rtp_header:
  "length (put_rtp_header w) = 12 + 4 * length (w_csrcs w) +
     (case w_ext w of None \<Rightarrow> 0 | Some (_, ws) \<Rightarrow> 4 + 4 * length ws)"
  by (simp add: put_rtp_header_def put_rtp_ext_def w32.length_concat_put split: option.splits)

lemma parse_put_rtp_header:
  assumes "wf_rtp w"
  shows "parse_rtp_header (put_rtp_header w @ payload)
    = Some (Some (length (put_rtp_header w), w_seq w, w_ts w, w_marker w))"
proof -
  let ?pkt = "put_rtp_header w @ payload"
  have b: "rd ?pkt 0 = Some (rtp_byte0 w)" "rd16 ?pkt 0 = Some (be16 (rtp_byte0 w) (rtp_byte1 w))"
    by (simp_all add: put_rtp_header_def rd16_def rd_def)
  have seq: "rd16 ?pkt 2 = Some (w_seq w)"
    using w16.get_at [of 2 "[rtp_byte0 w, rtp_byte1 w]"] by (simp add: put_rtp_header_def)
  have ts: "rd32 ?pkt 4 = Some (w_ts w)"
    using w32.get_at [of 4 "[rtp_byte0 w, rtp_byte1 w] @ put16 (w_seq w)"] by (simp add: put_rtp_header_def)
  have ext: "rd16 ?pkt (12 + length (w_csrcs w) * 4 + 2) = Some (of_nat (length ws))"
    if "w_ext w = Some (profile, ws)" for profile ws
    using that w16.get_at [of "12 + length (w_csrcs w) * 4 + 2"
        "[rtp_byte0 w, rtp_byte1 w] @ put16 (w_seq w) @ put32 (w_ts w) @ put32 (w_ssrc w)
           @ concat (map put32 (w_csrcs w)) @ put16 profile"]
    by (simp add: put_rtp_header_def put_rtp_ext_def w32.length_concat_put)
  note facts = b seq ts marker_flag extension_flag rtp_byte0_fields [OF assms]
    rtp_byte1_marker [OF assms] length_put_rtp_header parse_rtp_header_def Let_def
  show ?thesis
  proof (cases "w_ext w")
    case None
    then show ?thesis by (simp add: facts)
  next
    case (Some e)
    obtain profile ws where e: "w_ext w = Some (profile, ws)" using Some by (cases e) auto
    have "unat (of_nat (length ws) :: u16) = length ws"
      using assms e by (simp add: wf_rtp_def unsigned_of_nat take_bit_eq_mod)
    with ext [OF e] show ?thesis by (simp add: facts e)
  qed
qed

end
