(* ===== verification/Rx_Assembler.thy ===== *)
theory Rx_Assembler
  imports Rx_Rtp
begin

text \<open>
  The frame assembler of \<open>rx_rfc4175.c\<close>: two buffers on the heap, one being filled from
  packets and one holding the last frame delivered, swapped at each delivery. The frame
  callback is a parameter, a function on the heap (and whatever extends it); what the
  assembler needs of it is the locale \<open>frame_sink\<close>.
\<close>

section \<open>The code\<close>

record rx_frame_assembler_t =
  fill_buf :: ptr
  deliver_buf :: ptr
  fill_stride :: u32
  a_width :: u32
  a_height :: u32
  pgroup_size :: u32
  pixels_per_group :: u32
  last_seq :: u16
  last_ts :: u32
  has_prev_packet :: bool
  frame_incomplete :: bool
  frame_delivered :: bool
  frame_number :: u32
  delivered_incomplete :: u32
  delivered_timestamp :: u32

definition PGROUP_422_10BIT :: u32 where "PGROUP_422_10BIT = 5"
definition PGROUP_422_8BIT :: u32 where "PGROUP_422_8BIT = 4"
definition PIXELS_PER_GROUP :: u32 where "PIXELS_PER_GROUP = 2"

lemmas pgroup_defs = PGROUP_422_10BIT_def PGROUP_422_8BIT_def PIXELS_PER_GROUP_def

text \<open>\<open>memset(a, 0, sizeof( *a))\<close>\<close>

definition zero_assembler :: rx_frame_assembler_t where
  "zero_assembler = \<lparr>fill_buf = None, deliver_buf = None, fill_stride = 0, a_width = 0, a_height = 0,
     pgroup_size = 0, pixels_per_group = 0, last_seq = 0, last_ts = 0, has_prev_packet = False,
     frame_incomplete = False, frame_delivered = False, frame_number = 0, delivered_incomplete = 0,
     delivered_timestamp = 0\<rparr>"

text \<open>\<open>(size_t)a->fill_stride * a->height\<close>; it fits, by \<open>size_t_product\<close>.\<close>

definition buf_size :: "rx_frame_assembler_t \<Rightarrow> nat" where
  "buf_size a = unat (fill_stride a) * unat (a_height a)"

definition pgroup_of_fmt :: "st2110rx_pixfmt_t \<Rightarrow> u32 option" where
  "pgroup_of_fmt fmt =
     (case fmt of ST2110RX_FMT_YCBCR422_10BIT \<Rightarrow> Some PGROUP_422_10BIT
      | ST2110RX_FMT_UYVY \<Rightarrow> Some PGROUP_422_8BIT
      | _ \<Rightarrow> None)"

definition rx_assembler_init ::
    "rx_frame_assembler_t \<Rightarrow> u32 \<Rightarrow> u32 \<Rightarrow> st2110rx_pixfmt_t \<Rightarrow> 'z heap_scheme
       \<Rightarrow> (int \<times> rx_frame_assembler_t \<times> 'z heap_scheme) option" where
  "rx_assembler_init a width height input_fmt h =
     (if width = 0 \<or> height = 0 \<or> width mod 2 \<noteq> 0 then Some (-1, a, h)
      else if width > 8192 \<or> height > 4320 then Some (-1, a, h)
      else case pgroup_of_fmt input_fmt of
        None \<Rightarrow> Some (-1, a, h)
      | Some pgroup \<Rightarrow>
         (let a = zero_assembler\<lparr>a_width := width, a_height := height, pgroup_size := pgroup,
                    pixels_per_group := PIXELS_PER_GROUP,
                    fill_stride := (width div PIXELS_PER_GROUP) * pgroup\<rparr>;
              (p, h) = calloc (buf_size a) h;
              (q, h) = calloc (buf_size a) h
          in if p = None \<or> q = None then
               do { h \<leftarrow> free_blk p h; h \<leftarrow> free_blk q h;
                    Some (-1, a\<lparr>fill_buf := None, deliver_buf := None\<rparr>, h) }
             else Some (0, a\<lparr>fill_buf := p, deliver_buf := q\<rparr>, h)))"

definition rx_assembler_free ::
    "rx_frame_assembler_t \<Rightarrow> 'z heap_scheme \<Rightarrow> (rx_frame_assembler_t \<times> 'z heap_scheme) option" where
  "rx_assembler_free a h =
     do { h \<leftarrow> free_blk (fill_buf a) h;
          h \<leftarrow> free_blk (deliver_buf a) h;
          Some (a\<lparr>fill_buf := None, deliver_buf := None\<rparr>, h) }"

text \<open>\<open>((uint64_t)timestamp * 1000000000ULL) / 90000ULL\<close>\<close>

definition timestamp_to_ns :: "u32 \<Rightarrow> u64" where
  "timestamp_to_ns ts = (ucast ts * 1000000000) div 90000"

type_synonym 'z frame_cb = "st2110rx_frame_t \<Rightarrow> 'z heap_scheme \<Rightarrow> 'z heap_scheme option"

definition frame_of :: "rx_frame_assembler_t \<Rightarrow> st2110rx_pixfmt_t \<Rightarrow> u32 \<Rightarrow> st2110rx_frame_t" where
  "frame_of a output_fmt timestamp =
     zero_frame\<lparr>f_data := (f_data zero_frame)[0 := deliver_buf a],
       f_linesize := (f_linesize zero_frame)[0 := fill_stride a],
       f_width := a_width a, f_height := a_height a, f_format := output_fmt,
       f_frame_number := frame_number a, f_incomplete := frame_incomplete a,
       f_timestamp_ns := timestamp_to_ns timestamp\<rparr>"

definition deliver_frame ::
    "'z frame_cb \<Rightarrow> st2110rx_pixfmt_t \<Rightarrow> u32 \<Rightarrow> rx_frame_assembler_t \<Rightarrow> 'z heap_scheme
       \<Rightarrow> (rx_frame_assembler_t \<times> 'z heap_scheme) option" where
  "deliver_frame frame_cb output_fmt timestamp a h =
     do { let a = a\<lparr>fill_buf := deliver_buf a, deliver_buf := fill_buf a\<rparr>;
          let frame = frame_of a output_fmt timestamp;
          let a = a\<lparr>frame_number := frame_number a + 1\<rparr>;
          h \<leftarrow> frame_cb frame h;
          let a = a\<lparr>delivered_incomplete := (if frame_incomplete a then 1 else 0),
                    delivered_timestamp := timestamp\<rparr>;
          h \<leftarrow> memset h (fill_buf a) 0 (buf_size a);
          Some (a\<lparr>frame_incomplete := False\<rparr>, h) }"

text \<open>
  The second loop: the payloads follow the headers from position \<open>p\<close>. A segment of a line
  past the picture or past the end of the buffer is skipped; a payload that runs past the
  end of the packet stops the loop.
\<close>

fun store_segments ::
    "rx_frame_assembler_t \<Rightarrow> byte list \<Rightarrow> nat \<Rightarrow> segment list \<Rightarrow> nat \<Rightarrow> 'z heap_scheme
       \<Rightarrow> 'z heap_scheme option" where
  "store_segments a pkt pend [] p h = Some h"
| "store_segments a pkt pend (s # ss) p h =
     (let len = unat (seg_length s) in
      if unat (line_no s) \<ge> unat (a_height a) then store_segments a pkt pend ss (p + len) h
      else if p + len > pend then Some h
      else if pixels_per_group a = 0 then None
      else
        let byte_offset = (unat (pixel_offset s) div unat (pixels_per_group a)) * unat (pgroup_size a);
            dst_offset = unat (line_no s) * unat (fill_stride a) + byte_offset
        in if dst_offset + len > buf_size a then store_segments a pkt pend ss (p + len) h
           else do { src \<leftarrow> rd_range pkt p len;
                     h \<leftarrow> store h (fill_buf a) dst_offset src;
                     store_segments a pkt pend ss (p + len) h })"

text \<open>
  Loss accounting on a parsed packet: a sequence number other than the expected one marks
  the frame incomplete and adds the 16-bit gap to \<open>*packets_lost\<close> (if given).
\<close>

definition account_gap ::
    "rx_frame_assembler_t \<Rightarrow> u16 \<Rightarrow> u64 option \<Rightarrow> rx_frame_assembler_t \<times> u64 option" where
  "account_gap a seq packets_lost =
     (if has_prev_packet a then
        let expected = last_seq a + 1 in
        if seq \<noteq> expected then
          let gap = seq - expected in
          (a\<lparr>frame_incomplete := True\<rparr>, map_option (\<lambda>l. l + ucast gap) packets_lost)
        else (a, packets_lost)
      else (a, packets_lost))"

text \<open>A change of timestamp ends a frame that was not delivered by its marker.\<close>

definition end_unmarked_frame ::
    "'z frame_cb \<Rightarrow> st2110rx_pixfmt_t \<Rightarrow> u32 \<Rightarrow> bool \<Rightarrow> rx_frame_assembler_t \<Rightarrow> 'z heap_scheme
       \<Rightarrow> (nat \<times> rx_frame_assembler_t \<times> 'z heap_scheme) option" where
  "end_unmarked_frame frame_cb output_fmt timestamp marker a h =
     (if has_prev_packet a \<and> timestamp \<noteq> last_ts a then
        do { (n, a, h) \<leftarrow>
               (if \<not> frame_delivered a \<and> \<not> marker then
                  do { (a, h) \<leftarrow> deliver_frame frame_cb output_fmt (last_ts a) (a\<lparr>frame_incomplete := True\<rparr>) h;
                       Some (1, a, h) }
                else Some (0, a, h));
             Some (n, a\<lparr>frame_delivered := False\<rparr>, h) }
      else Some (0, a, h))"

text \<open>
  \<open>rx_assembler_process_packet\<close>: the result is the number of frames completed, the
  assembler, the heap and the loss counter. The early returns leave all of them alone. The
  one call passes none of \<open>a\<close>, \<open>pkt\<close> and \<open>frame_cb\<close> as \<open>NULL\<close>, so that test is left out.
\<close>

definition rx_assembler_process_packet ::
    "'z frame_cb \<Rightarrow> st2110rx_pixfmt_t \<Rightarrow> byte list \<Rightarrow> rx_frame_assembler_t \<Rightarrow> 'z heap_scheme \<Rightarrow> u64 option
       \<Rightarrow> (nat \<times> rx_frame_assembler_t \<times> 'z heap_scheme \<times> u64 option) option" where
  "rx_assembler_process_packet frame_cb output_fmt pkt a h packets_lost =
     do { hdr \<leftarrow> parse_rtp_header pkt;
          case hdr of
            None \<Rightarrow> Some (0, a, h, packets_lost)
          | Some (payload, seq, timestamp, marker) \<Rightarrow>
              (let payload_len = length pkt - payload in
               if payload_len < 2 then Some (0, a, h, packets_lost)
               else do {
                 let payload = payload + 2;
                 let payload_len = payload_len - 2;
                 let (a, packets_lost) = account_gap a seq packets_lost;
                 (n, a, h) \<leftarrow> end_unmarked_frame frame_cb output_fmt timestamp marker a h;
                 let a = a\<lparr>last_seq := seq, last_ts := timestamp, has_prev_packet := True\<rparr>;
                 (segs, p) \<leftarrow> parse_line_headers pkt payload (payload + payload_len) [];
                 h \<leftarrow> store_segments a pkt (payload + payload_len) segs p h;
                 if marker then
                   do { (a, h) \<leftarrow> deliver_frame frame_cb output_fmt timestamp a h;
                        Some (n + 1, a\<lparr>frame_delivered := True\<rparr>, h, packets_lost) }
                 else Some (n, a, h, packets_lost) }) }"

end
