(* ===== verification/Rx_Assembler_Safety.thy ===== *)
theory Rx_Assembler_Safety
  imports Rx_Assembler
begin

text \<open>
  The assembler's invariant, the contract of a frame callback (\<open>frame_sink\<close>), and what
  each step of the assembler does to the two buffers. In particular no packet whatsoever
  makes the assembler read or write out of bounds.
\<close>

section \<open>The invariant\<close>

definition asm_geometry :: "rx_frame_assembler_t \<Rightarrow> bool" where
  "asm_geometry a \<longleftrightarrow> a_width a \<noteq> 0 \<and> a_width a mod 2 = 0 \<and> a_width a \<le> 8192
     \<and> a_height a \<noteq> 0 \<and> a_height a \<le> 4320
     \<and> pixels_per_group a = PIXELS_PER_GROUP
     \<and> pgroup_size a \<in> {PGROUP_422_10BIT, PGROUP_422_8BIT}
     \<and> fill_stride a = (a_width a div PIXELS_PER_GROUP) * pgroup_size a"

definition asm_buffers :: "rx_frame_assembler_t \<Rightarrow> 'z heap_scheme \<Rightarrow> bool" where
  "asm_buffers a h \<longleftrightarrow> fill_buf a \<noteq> deliver_buf a
     \<and> map_option length (contents h (fill_buf a)) = Some (buf_size a)
     \<and> map_option length (contents h (deliver_buf a)) = Some (buf_size a)"

definition asm_inv :: "rx_frame_assembler_t \<Rightarrow> 'z heap_scheme \<Rightarrow> bool" where
  "asm_inv a h \<longleftrightarrow> asm_geometry a \<and> asm_buffers a h"

text \<open>The fields that describe the picture never change after \<open>rx_assembler_init\<close>.\<close>

record layout =
  l_stride :: u32
  l_width :: u32
  l_height :: u32
  l_pgroup :: u32
  l_ppg :: u32

definition layout_of :: "rx_frame_assembler_t \<Rightarrow> layout" where
  "layout_of a = \<lparr>l_stride = fill_stride a, l_width = a_width a, l_height = a_height a,
     l_pgroup = pgroup_size a, l_ppg = pixels_per_group a\<rparr>"

definition layout_size :: "layout \<Rightarrow> nat" where
  "layout_size l = unat (l_stride l) * unat (l_height l)"

lemma layout_of_simps [simp]:
  "l_stride (layout_of a) = fill_stride a" "l_width (layout_of a) = a_width a"
  "l_height (layout_of a) = a_height a" "l_pgroup (layout_of a) = pgroup_size a"
  "l_ppg (layout_of a) = pixels_per_group a" "layout_size (layout_of a) = buf_size a"
  by (simp_all add: layout_of_def layout_size_def buf_size_def)

lemma layout_of_eqD:
  "layout_of a = layout_of b \<Longrightarrow> fill_stride a = fill_stride b \<and> a_width a = a_width b
     \<and> a_height a = a_height b \<and> pgroup_size a = pgroup_size b
     \<and> pixels_per_group a = pixels_per_group b \<and> buf_size a = buf_size b"
  by (simp add: layout_of_def buf_size_def)

lemma asm_geometry_cong: "layout_of a = layout_of b \<Longrightarrow> asm_geometry a = asm_geometry b"
  by (drule layout_of_eqD) (simp add: asm_geometry_def)

section \<open>The segments of a packet as a list of writes\<close>

fun segment_writes ::
    "layout \<Rightarrow> byte list \<Rightarrow> segment list \<Rightarrow> nat \<Rightarrow> (nat \<times> byte list) list" where
  "segment_writes l pkt [] p = []"
| "segment_writes l pkt (s # ss) p =
     (let len = unat (seg_length s);
          dst = unat (line_no s) * unat (l_stride l)
                  + (unat (pixel_offset s) div unat (l_ppg l)) * unat (l_pgroup l)
      in if unat (line_no s) \<ge> unat (l_height l) then segment_writes l pkt ss (p + len)
         else if p + len > length pkt then []
         else if dst + len > layout_size l then segment_writes l pkt ss (p + len)
         else (dst, take len (drop p pkt)) # segment_writes l pkt ss (p + len))"

definition apply_writes :: "(nat \<times> byte list) list \<Rightarrow> byte list \<Rightarrow> byte list" where
  "apply_writes ws bs = fold (\<lambda>(i, ys) bs. blit bs i ys) ws bs"

lemma apply_writes_Nil [simp]: "apply_writes [] bs = bs"
  by (simp add: apply_writes_def)

lemma apply_writes_Cons [simp]: "apply_writes ((i, ys) # ws) bs = apply_writes ws (blit bs i ys)"
  by (simp add: apply_writes_def)

lemma apply_writes_append: "apply_writes (ws @ vs) bs = apply_writes vs (apply_writes ws bs)"
  by (simp add: apply_writes_def)

definition writes_within :: "nat \<Rightarrow> (nat \<times> byte list) list \<Rightarrow> bool" where
  "writes_within n ws \<longleftrightarrow> (\<forall>(i, ys) \<in> set ws. i + length ys \<le> n)"

lemma writes_within_simps [simp]:
  "writes_within n []"
  "writes_within n ((i, ys) # ws) \<longleftrightarrow> i + length ys \<le> n \<and> writes_within n ws"
  by (auto simp: writes_within_def)

lemma length_apply_writes:
  "writes_within (length bs) ws \<Longrightarrow> length (apply_writes ws bs) = length bs"
  by (induction ws arbitrary: bs) (auto simp: length_blit)

lemma segment_writes_within: "writes_within (layout_size l) (segment_writes l pkt ss p)"
  by (induction l pkt ss p rule: segment_writes.induct) (auto simp: Let_def)

lemma store_segments_obtain:
  assumes "pixels_per_group a \<noteq> 0"
    and "contents h (fill_buf a) = Some bs" and "length bs = buf_size a"
  obtains h' where "store_segments a pkt (length pkt) ss p h = Some h'"
    and "contents h' (fill_buf a) = Some (apply_writes (segment_writes (layout_of a) pkt ss p) bs)"
    and "\<And>q. q \<noteq> fill_buf a \<Longrightarrow> contents h' q = contents h q"
proof -
  have "\<exists>h'. store_segments a pkt (length pkt) ss p h = Some h'
      \<and> contents h' (fill_buf a) = Some (apply_writes (segment_writes (layout_of a) pkt ss p) bs)
      \<and> (\<forall>q. q \<noteq> fill_buf a \<longrightarrow> contents h' q = contents h q)"
    using assms
  proof (induction ss arbitrary: p h bs)
    case Nil
    then show ?case by simp
  next
    case (Cons s ss)
    let ?len = "unat (seg_length s)"
    let ?dst = "unat (line_no s) * unat (fill_stride a)
      + (unat (pixel_offset s) div unat (pixels_per_group a)) * unat (pgroup_size a)"
    show ?case
    proof (cases "unat (line_no s) < unat (a_height a) \<and> p + ?len \<le> length pkt \<and> ?dst + ?len \<le> buf_size a")
      case True
      let ?src = "take ?len (drop p pkt)"
      have rd: "rd_range pkt p ?len = Some ?src" and len: "length ?src = ?len"
        using True by (auto simp: mem_simps)
      obtain h1 where h1: "store h (fill_buf a) ?dst ?src = Some h1"
          "contents h1 (fill_buf a) = Some (blit bs ?dst ?src)"
          "\<And>q. q \<noteq> fill_buf a \<Longrightarrow> contents h1 q = contents h q"
        using heap_mem.poke_obtain [of h "fill_buf a" bs ?dst ?src] Cons.prems(2,3) True len by auto
      have "length (blit bs ?dst ?src) = buf_size a"
        using True len Cons.prems(3) by (simp add: length_blit)
      from Cons.IH [OF Cons.prems(1) h1(2) this, of "p + ?len"] True rd h1 Cons.prems(1)
      show ?thesis by (auto simp: Let_def)
    next
      case False
      with Cons.IH [OF Cons.prems, of "p + ?len"] Cons.prems(1,2) show ?thesis
        by (auto simp: Let_def)
    qed
  qed
  then show ?thesis using that by blast
qed

section \<open>What a frame callback must promise\<close>

definition frame_data_ok :: "st2110rx_frame_t \<Rightarrow> 'z heap_scheme \<Rightarrow> bool" where
  "frame_data_ok f h \<longleftrightarrow>
     map_option length (contents h (f_data f ! 0)) = Some (unat (f_linesize f ! 0) * unat (f_height f))"

text \<open>
  \<open>ok\<close> is the callback's own invariant, \<open>own\<close> the blocks it may write, \<open>accepts\<close> the
  frames it is prepared for. It must return on every such frame, and leave every block it
  does not own as it was: the assembler reads and clears its buffers right after the call.
\<close>

locale frame_sink =
  fixes cb :: "'z frame_cb" and ok :: "'z heap_scheme \<Rightarrow> bool"
    and own :: "ptr set" and accepts :: "st2110rx_frame_t \<Rightarrow> bool"
  assumes sink_total:
      "ok h \<Longrightarrow> accepts f \<Longrightarrow> frame_data_ok f h \<Longrightarrow> f_data f ! 0 \<notin> own \<Longrightarrow> cb f h \<noteq> None"
    and sink_ok: "ok h \<Longrightarrow> accepts f \<Longrightarrow> cb f h = Some h' \<Longrightarrow> ok h'"
    and sink_frame: "ok h \<Longrightarrow> accepts f \<Longrightarrow> cb f h = Some h' \<Longrightarrow> p \<notin> own \<Longrightarrow> contents h' p = contents h p"
    and sink_store: "ok h \<Longrightarrow> p \<notin> own \<Longrightarrow> store h p i ys = Some h' \<Longrightarrow> ok h'"

text \<open>The invariant of the assembler together with its callback.\<close>

definition sink_inv ::
    "('z heap_scheme \<Rightarrow> bool) \<Rightarrow> ptr set \<Rightarrow> (st2110rx_frame_t \<Rightarrow> bool) \<Rightarrow> st2110rx_pixfmt_t
       \<Rightarrow> rx_frame_assembler_t \<Rightarrow> 'z heap_scheme \<Rightarrow> bool" where
  "sink_inv ok own accepts fmt a h \<longleftrightarrow> asm_inv a h \<and> ok h
     \<and> fill_buf a \<notin> own \<and> deliver_buf a \<notin> own
     \<and> (\<forall>b ts. layout_of b = layout_of a \<longrightarrow> accepts (frame_of b fmt ts))"

text \<open>The flags and the packet memory are no part of it.\<close>

lemma sink_inv_cong:
  "sink_inv ok own accepts fmt (a\<lparr>frame_incomplete := b\<rparr>) h = sink_inv ok own accepts fmt a h"
  "sink_inv ok own accepts fmt (a\<lparr>frame_delivered := b\<rparr>) h = sink_inv ok own accepts fmt a h"
  "sink_inv ok own accepts fmt (a\<lparr>last_seq := q, last_ts := t, has_prev_packet := b\<rparr>) h
     = sink_inv ok own accepts fmt a h"
  "sink_inv ok own accepts fmt (if c then a\<lparr>frame_delivered := b\<rparr> else a) h
     = sink_inv ok own accepts fmt a h"
  by (simp_all add: sink_inv_def asm_inv_def asm_geometry_def asm_buffers_def buf_size_def layout_of_def)

text \<open>The assembler after a delivery, as a value.\<close>

definition after_delivery :: "u32 \<Rightarrow> rx_frame_assembler_t \<Rightarrow> rx_frame_assembler_t" where
  "after_delivery ts a = a\<lparr>fill_buf := deliver_buf a, deliver_buf := fill_buf a,
     frame_number := frame_number a + 1,
     delivered_incomplete := (if frame_incomplete a then 1 else 0),
     delivered_timestamp := ts, frame_incomplete := False\<rparr>"

lemma after_delivery_geometry [simp]:
  "layout_of (after_delivery ts a) = layout_of a"
  "fill_buf (after_delivery ts a) = deliver_buf a"
  "deliver_buf (after_delivery ts a) = fill_buf a"
  "buf_size (after_delivery ts a) = buf_size a"
  "last_seq (after_delivery ts a) = last_seq a"
  "last_ts (after_delivery ts a) = last_ts a"
  "has_prev_packet (after_delivery ts a) = has_prev_packet a"
  "frame_incomplete (after_delivery ts a) = False"
  "frame_delivered (after_delivery ts a) = frame_delivered a"
  "frame_number (after_delivery ts a) = frame_number a + 1"
  by (simp_all add: after_delivery_def layout_of_def buf_size_def)

lemma frame_of_simps [simp]:
  "f_data (frame_of a fmt ts) ! 0 = deliver_buf a"
  "f_linesize (frame_of a fmt ts) ! 0 = fill_stride a"
  "f_width (frame_of a fmt ts) = a_width a"
  "f_height (frame_of a fmt ts) = a_height a"
  "f_format (frame_of a fmt ts) = fmt"
  "f_frame_number (frame_of a fmt ts) = frame_number a"
  "f_incomplete (frame_of a fmt ts) = frame_incomplete a"
  "f_timestamp_ns (frame_of a fmt ts) = timestamp_to_ns ts"
  by (simp_all add: frame_of_def zero_frame_def)

definition swap_buffers :: "rx_frame_assembler_t \<Rightarrow> rx_frame_assembler_t" where
  "swap_buffers a = a\<lparr>fill_buf := deliver_buf a, deliver_buf := fill_buf a\<rparr>"

context frame_sink
begin

lemma deliver_frame_obtain:
  assumes inv: "sink_inv ok own accepts fmt a h"
  obtains h1 h' where "deliver_frame cb fmt ts a h = Some (after_delivery ts a, h')"
    and "cb (frame_of (swap_buffers a) fmt ts) h = Some h1"
    and "contents h' (deliver_buf a) = Some (replicate (buf_size a) 0)"
    and "\<And>q. q \<noteq> deliver_buf a \<Longrightarrow> contents h' q = contents h1 q"
    and "\<And>q. q \<notin> own \<Longrightarrow> contents h1 q = contents h q"
    and "sink_inv ok own accepts fmt (after_delivery ts a) h'"
proof -
  let ?fr = "frame_of (swap_buffers a) fmt ts"
  have acc: "accepts ?fr" using inv by (simp add: sink_inv_def swap_buffers_def layout_of_def)
  have dat: "frame_data_ok ?fr h"
    using inv by (simp add: sink_inv_def frame_data_ok_def swap_buffers_def asm_inv_def asm_buffers_def buf_size_def)
  have "cb ?fr h \<noteq> None"
    using inv acc dat by (intro sink_total) (auto simp: sink_inv_def swap_buffers_def)
  then obtain h1 where h1: "cb ?fr h = Some h1" by auto
  have kept: "contents h1 q = contents h q" if "q \<notin> own" for q
    using inv acc h1 that by (intro sink_frame) (auto simp: sink_inv_def)
  have ok1: "ok h1" using inv acc h1 by (auto simp: sink_inv_def intro: sink_ok)
  obtain bs where bs: "contents h1 (deliver_buf a) = Some bs" "length bs = buf_size a"
    using inv kept [of "deliver_buf a"] by (auto simp: sink_inv_def asm_inv_def asm_buffers_def)
  then obtain h' where h': "memset h1 (deliver_buf a) 0 (buf_size a) = Some h'"
      "contents h' (deliver_buf a) = Some (replicate (buf_size a) 0)"
      "\<And>q. q \<noteq> deliver_buf a \<Longrightarrow> contents h' q = contents h1 q"
    using memset_obtain [OF bs(1), of "buf_size a" 0] by metis
  have ok': "ok h'"
    using h'(1) ok1 inv by (auto simp: memset_def sink_inv_def intro: sink_store)
  have "deliver_frame cb fmt ts a h = Some (after_delivery ts a, h')"
    using h1 h'(1) by (simp add: deliver_frame_def Let_def after_delivery_def swap_buffers_def buf_size_def)
  moreover have "sink_inv ok own accepts fmt (after_delivery ts a) h'"
    using inv ok' h' kept [of "fill_buf a"] asm_geometry_cong [of "after_delivery ts a" a]
    by (auto simp: sink_inv_def asm_inv_def asm_buffers_def)
  ultimately show ?thesis using that h1 h' kept by blast
qed

end

end
