(* ===== verification/Rx_Assembler_Spec.thy ===== *)
theory Rx_Assembler_Spec
  imports Rx_Assembler_Safety
begin

text \<open>
  What the assembler promises, without buffers and pointers: a picture under
  construction, the picture last shown, the sequence number and timestamp of the packet
  before, and the flags. The code is proved to refine it for every callback that meets
  the contract \<open>frame_log\<close>.
\<close>

section \<open>The specification\<close>

text \<open>A frame as its consumer sees it: everything but the pointer, and the bytes behind it.\<close>

record seen_frame =
  s_bytes :: "byte list"
  s_linesize :: u32
  s_width :: u32
  s_height :: u32
  s_format :: st2110rx_pixfmt_t
  s_timestamp_ns :: u64
  s_number :: u32
  s_incomplete :: bool

definition view_frame :: "st2110rx_frame_t \<Rightarrow> byte list \<Rightarrow> seen_frame" where
  "view_frame f bs = \<lparr>s_bytes = bs, s_linesize = f_linesize f ! 0, s_width = f_width f,
     s_height = f_height f, s_format = f_format f, s_timestamp_ns = f_timestamp_ns f,
     s_number = f_frame_number f, s_incomplete = f_incomplete f\<rparr>"

record rtp_packet =
  p_seq :: u16
  p_ts :: u32
  p_marker :: bool
  p_writes :: "(nat \<times> byte list) list"

text \<open>A packet the assembler accepts, with its segments as writes into the picture.\<close>

definition decode_packet :: "layout \<Rightarrow> byte list \<Rightarrow> rtp_packet option" where
  "decode_packet l pkt =
     (case parse_rtp_header pkt of
        Some (Some (off, seq, ts, m)) \<Rightarrow>
          if length pkt - off < 2 then None
          else (case parse_line_headers pkt (off + 2) (length pkt) [] of
                  None \<Rightarrow> None
                | Some (segs, p) \<Rightarrow>
                    Some \<lparr>p_seq = seq, p_ts = ts, p_marker = m, p_writes = segment_writes l pkt segs p\<rparr>)
      | _ \<Rightarrow> None)"

record spec_state =
  picture :: "byte list"
  held :: "byte list"
  prev :: "(u16 \<times> u32) option"
  damaged :: bool
  shown :: bool
  next_number :: u32
  last_bad :: bool          \<comment> \<open>the picture last shown was flagged incomplete\<close>

definition spec_frame :: "layout \<Rightarrow> st2110rx_pixfmt_t \<Rightarrow> u32 \<Rightarrow> bool \<Rightarrow> spec_state \<Rightarrow> seen_frame" where
  "spec_frame l fmt ts bad s = \<lparr>s_bytes = picture s, s_linesize = l_stride l, s_width = l_width l,
     s_height = l_height l, s_format = fmt, s_timestamp_ns = timestamp_to_ns ts,
     s_number = next_number s, s_incomplete = bad\<rparr>"

text \<open>Show the picture and start a black one (all bytes 0).\<close>

definition show_picture :: "layout \<Rightarrow> spec_state \<Rightarrow> spec_state" where
  "show_picture l s = s\<lparr>picture := replicate (layout_size l) 0, held := picture s,
     damaged := False, next_number := next_number s + 1, last_bad := damaged s\<rparr>"

definition seq_gap :: "spec_state \<Rightarrow> u16 \<Rightarrow> u16" where
  "seq_gap s seq = (case prev s of None \<Rightarrow> 0 | Some (q, _) \<Rightarrow> seq - (q + 1))"

definition new_timestamp :: "spec_state \<Rightarrow> u32 \<Rightarrow> bool" where
  "new_timestamp s ts = (case prev s of None \<Rightarrow> False | Some (_, t) \<Rightarrow> ts \<noteq> t)"

definition prev_ts :: "spec_state \<Rightarrow> u32" where
  "prev_ts s = (case prev s of None \<Rightarrow> 0 | Some (_, t) \<Rightarrow> t)"

text \<open>
  One accepted packet: flush the unshown picture of an older timestamp (unless this packet
  carries the marker), write the segments, and show the picture on a marker.
\<close>

definition spec_flush ::
    "layout \<Rightarrow> st2110rx_pixfmt_t \<Rightarrow> rtp_packet \<Rightarrow> spec_state \<Rightarrow> seen_frame list \<times> spec_state" where
  "spec_flush l fmt d s =
     (let fresh = new_timestamp s (p_ts d);
          flush = (fresh \<and> \<not> shown s \<and> \<not> p_marker d);
          out = (if flush then [spec_frame l fmt (prev_ts s) True s] else []);
          s' = (if flush then show_picture l (s\<lparr>damaged := True\<rparr>) else s)
      in (out, if fresh then s'\<lparr>shown := False\<rparr> else s'))"

definition spec_step ::
    "layout \<Rightarrow> st2110rx_pixfmt_t \<Rightarrow> rtp_packet \<Rightarrow> spec_state \<Rightarrow> seen_frame list \<times> spec_state" where
  "spec_step l fmt d s =
     (let s0 = s\<lparr>damaged := damaged s \<or> seq_gap s (p_seq d) \<noteq> 0\<rparr>;
          (out, s1) = spec_flush l fmt d s0;
          s2 = s1\<lparr>prev := Some (p_seq d, p_ts d), picture := apply_writes (p_writes d) (picture s1)\<rparr>
      in if p_marker d
         then (out @ [spec_frame l fmt (p_ts d) (damaged s2) s2], (show_picture l s2)\<lparr>shown := True\<rparr>)
         else (out, s2))"

fun spec_run ::
    "layout \<Rightarrow> st2110rx_pixfmt_t \<Rightarrow> rtp_packet list \<Rightarrow> spec_state \<Rightarrow> seen_frame list \<times> spec_state" where
  "spec_run l fmt [] s = ([], s)"
| "spec_run l fmt (d # ds) s =
     (let (out, s) = spec_step l fmt d s; (outs, s) = spec_run l fmt ds s in (out @ outs, s))"

text \<open>Any packet at all: a rejected one changes nothing.\<close>

definition spec_packet ::
    "layout \<Rightarrow> st2110rx_pixfmt_t \<Rightarrow> byte list \<Rightarrow> spec_state \<Rightarrow> seen_frame list \<times> spec_state" where
  "spec_packet l fmt pkt s =
     (case decode_packet l pkt of None \<Rightarrow> ([], s) | Some d \<Rightarrow> spec_step l fmt d s)"

definition packet_gap :: "layout \<Rightarrow> byte list \<Rightarrow> spec_state \<Rightarrow> u16" where
  "packet_gap l pkt s = (case decode_packet l pkt of None \<Rightarrow> 0 | Some d \<Rightarrow> seq_gap s (p_seq d))"

lemma length_spec_flush: "length (fst (spec_flush l fmt d s)) \<le> (if p_marker d then 0 else 1)"
  by (simp add: spec_flush_def Let_def)

text \<open>A packet completes at most one frame.\<close>

lemma length_spec_step: "length (fst (spec_step l fmt d s)) \<le> 1"
  using length_spec_flush [of l fmt d "s\<lparr>damaged := damaged s \<or> seq_gap s (p_seq d) \<noteq> 0\<rparr>"]
  by (auto simp: spec_step_def Let_def split: prod.splits)

text \<open>The flag of the frame last shown is kept.\<close>

lemma last_bad_spec_step:
  "fst (spec_step l fmt d s) \<noteq> [] \<Longrightarrow>
     last_bad (snd (spec_step l fmt d s)) = s_incomplete (last (fst (spec_step l fmt d s)))"
  by (auto simp: spec_step_def spec_flush_def spec_frame_def show_picture_def Let_def split: if_splits)

section \<open>The abstraction of the code's state\<close>

definition asm_abs :: "rx_frame_assembler_t \<Rightarrow> 'z heap_scheme \<Rightarrow> spec_state" where
  "asm_abs a h = \<lparr>picture = the (contents h (fill_buf a)), held = the (contents h (deliver_buf a)),
     prev = (if has_prev_packet a then Some (last_seq a, last_ts a) else None),
     damaged = frame_incomplete a, shown = frame_delivered a, next_number = frame_number a,
     last_bad = (delivered_incomplete a \<noteq> 0)\<rparr>"

lemma asm_abs_damaged [simp]: "damaged (asm_abs a h) = frame_incomplete a"
  by (simp add: asm_abs_def)

lemma decode_packet_total:
  obtains (reject) "decode_packet l pkt = None"
      and "\<And>cb fmt a h lost. rx_assembler_process_packet cb fmt pkt a h lost = Some (0, a, h, lost)"
  | (accept) off seq ts m segs p where "parse_rtp_header pkt = Some (Some (off, seq, ts, m))"
      and "off + 2 \<le> length pkt"
      and "parse_line_headers pkt (off + 2) (length pkt) [] = Some (segs, p)"
      and "decode_packet l pkt =
             Some \<lparr>p_seq = seq, p_ts = ts, p_marker = m, p_writes = segment_writes l pkt segs p\<rparr>"
proof -
  obtain r where r: "parse_rtp_header pkt = Some r" using parse_rtp_header_total by blast
  show ?thesis
  proof (cases r)
    case None
    with r show ?thesis by (intro reject) (simp_all add: decode_packet_def rx_assembler_process_packet_def)
  next
    case (Some x)
    obtain off seq ts m where x: "x = (off, seq, ts, m)" by (cases x)
    show ?thesis
    proof (cases "length pkt - off < 2")
      case True
      with r Some x show ?thesis
        by (intro reject) (simp_all add: decode_packet_def rx_assembler_process_packet_def)
    next
      case False
      obtain segs p where sp: "parse_line_headers pkt (off + 2) (length pkt) [] = Some (segs, p)"
        using parse_line_headers_total [of "length pkt" pkt "off + 2" "[]"] by auto
      show ?thesis using False r Some x sp
        by (intro accept) (auto simp: decode_packet_def)
    qed
  qed
qed

section \<open>A callback that keeps a log\<close>

text \<open>
  The contract of \<open>frame_sink\<close> with a log of what the consumer has been given: each call
  appends entries that depend only on the frame and the bytes it points to.
\<close>

locale frame_log = frame_sink +
  fixes log :: "'a heap_scheme \<Rightarrow> 'o list" and observe :: "seen_frame \<Rightarrow> 'o list"
  assumes log_cb: "ok h \<Longrightarrow> accepts f \<Longrightarrow> contents h (f_data f ! 0) = Some bs \<Longrightarrow>
                     f_data f ! 0 \<notin> own \<Longrightarrow> frame_data_ok f h \<Longrightarrow>
                     cb f h = Some h' \<Longrightarrow> log h' = log h @ observe (view_frame f bs)"
    and log_store: "p \<notin> own \<Longrightarrow> store h p i ys = Some h' \<Longrightarrow> log h' = log h"
begin

lemma deliver_frame_spec:
  assumes inv: "sink_inv ok own accepts fmt a h"
  obtains h' where "deliver_frame cb fmt ts a h = Some (after_delivery ts a, h')"
    and "sink_inv ok own accepts fmt (after_delivery ts a) h'"
    and "asm_abs (after_delivery ts a) h' = show_picture (layout_of a) (asm_abs a h)"
    and "log h' = log h @ observe (spec_frame (layout_of a) fmt ts (frame_incomplete a) (asm_abs a h))"
proof (rule deliver_frame_obtain [OF inv, of ts])
  fix h1 h'
  let ?fr = "frame_of (swap_buffers a) fmt ts"
  assume d: "deliver_frame cb fmt ts a h = Some (after_delivery ts a, h')"
    and c: "cb ?fr h = Some h1"
    and zero: "contents h' (deliver_buf a) = Some (replicate (buf_size a) 0)"
    and rest: "\<And>q. q \<noteq> deliver_buf a \<Longrightarrow> contents h' q = contents h1 q"
    and kept: "\<And>q. q \<notin> own \<Longrightarrow> contents h1 q = contents h q"
    and inv': "sink_inv ok own accepts fmt (after_delivery ts a) h'"
  obtain bs where bs: "contents h (fill_buf a) = Some bs" "length bs = buf_size a"
    using inv by (auto simp: sink_inv_def asm_inv_def asm_buffers_def)
  have neq: "fill_buf a \<noteq> deliver_buf a" "fill_buf a \<notin> own" "deliver_buf a \<notin> own"
    using inv by (auto simp: sink_inv_def asm_inv_def asm_buffers_def)
  have "log h1 = log h @ observe (view_frame ?fr bs)"
    using inv c bs by (intro log_cb)
      (auto simp: sink_inv_def swap_buffers_def layout_of_def frame_data_ok_def buf_size_def)
  moreover have "log h' = log h1"
    using d c neq(3) by (auto simp: deliver_frame_def Let_def memset_def swap_buffers_def
        split: bind_splits intro: log_store)
  moreover have "view_frame ?fr bs = spec_frame (layout_of a) fmt ts (frame_incomplete a) (asm_abs a h)"
    using bs by (simp add: view_frame_def spec_frame_def swap_buffers_def asm_abs_def)
  moreover have "asm_abs (after_delivery ts a) h' = show_picture (layout_of a) (asm_abs a h)"
    using zero rest [of "fill_buf a"] kept [of "fill_buf a"] neq
    by (simp add: asm_abs_def show_picture_def after_delivery_def)
  ultimately show ?thesis using that d inv' by simp
qed

lemma end_unmarked_frame_spec:
  assumes inv: "sink_inv ok own accepts fmt a h"
  obtains n a' h' where "end_unmarked_frame cb fmt (p_ts d) (p_marker d) a h = Some (n, a', h')"
    and "sink_inv ok own accepts fmt a' h'" and "layout_of a' = layout_of a"
    and "asm_abs a' h' = snd (spec_flush (layout_of a) fmt d (asm_abs a h))"
    and "n = length (fst (spec_flush (layout_of a) fmt d (asm_abs a h)))"
    and "log h' = log h @ concat (map observe (fst (spec_flush (layout_of a) fmt d (asm_abs a h))))"
proof (cases "has_prev_packet a \<and> p_ts d \<noteq> last_ts a \<and> \<not> frame_delivered a \<and> \<not> p_marker d")
  case True
  let ?a = "a\<lparr>frame_incomplete := True\<rparr>"
  have inv': "sink_inv ok own accepts fmt ?a h"
    using inv by (simp add: sink_inv_cong)
  have lay: "layout_of ?a = layout_of a" by (simp add: layout_of_def)
  show ?thesis
  proof (rule deliver_frame_spec [OF inv', of "last_ts a"], unfold lay)
    fix h'
    let ?a' = "(after_delivery (last_ts a) ?a)\<lparr>frame_delivered := False\<rparr>"
    assume d: "deliver_frame cb fmt (last_ts a) ?a h = Some (after_delivery (last_ts a) ?a, h')"
      and i: "sink_inv ok own accepts fmt (after_delivery (last_ts a) ?a) h'"
      and ab: "asm_abs (after_delivery (last_ts a) ?a) h' = show_picture (layout_of a) (asm_abs ?a h)"
      and lg: "log h' = log h @ observe (spec_frame (layout_of a) fmt (last_ts a) (frame_incomplete ?a) (asm_abs ?a h))"
    have "end_unmarked_frame cb fmt (p_ts d) (p_marker d) a h = Some (1, ?a', h')"
      using True d by (simp add: end_unmarked_frame_def)
    moreover have "sink_inv ok own accepts fmt ?a' h'" using i by (simp add: sink_inv_cong)
    moreover have "layout_of ?a' = layout_of a" by (simp add: layout_of_def after_delivery_def)
    moreover have "asm_abs ?a' h' = snd (spec_flush (layout_of a) fmt d (asm_abs a h))"
      using True ab by (simp add: asm_abs_def spec_flush_def new_timestamp_def show_picture_def Let_def)
    moreover have "fst (spec_flush (layout_of a) fmt d (asm_abs a h))
        = [spec_frame (layout_of a) fmt (last_ts a) (frame_incomplete ?a) (asm_abs ?a h)]"
      using True by (simp add: spec_flush_def new_timestamp_def prev_ts_def asm_abs_def spec_frame_def Let_def)
    ultimately show ?thesis using that lg by simp
  qed
next
  case False
  let ?a = "if has_prev_packet a \<and> p_ts d \<noteq> last_ts a then a\<lparr>frame_delivered := False\<rparr> else a"
  have "end_unmarked_frame cb fmt (p_ts d) (p_marker d) a h = Some (0, ?a, h)"
    using False by (auto simp: end_unmarked_frame_def)
  moreover have "sink_inv ok own accepts fmt ?a h" using inv by (simp add: sink_inv_cong)
  moreover have "layout_of ?a = layout_of a" by (simp add: layout_of_def)
  moreover have "spec_flush (layout_of a) fmt d (asm_abs a h) = ([], asm_abs ?a h)"
    using False by (auto simp: asm_abs_def spec_flush_def new_timestamp_def Let_def)
  ultimately show ?thesis using that by simp
qed

lemma store_segments_keeps:
  "store_segments a pkt pend ss p h = Some h' \<Longrightarrow> fill_buf a \<notin> own \<Longrightarrow> ok h \<Longrightarrow>
     ok h' \<and> log h' = log h"
proof (induction a pkt pend ss p h arbitrary: h' rule: store_segments.induct)
  case (2 a pkt pend s ss p h)
  then show ?case
    by (fastforce simp: Let_def split: if_splits bind_splits dest: sink_store log_store)
qed simp

lemma store_segments_spec:
  assumes inv: "sink_inv ok own accepts fmt a h"
  obtains h' where "store_segments a pkt (length pkt) ss p h = Some h'"
    and "sink_inv ok own accepts fmt a h'" and "log h' = log h"
    and "asm_abs a h' = (asm_abs a h)\<lparr>picture := apply_writes (segment_writes (layout_of a) pkt ss p)
           (picture (asm_abs a h))\<rparr>"
proof -
  obtain bs where bs: "contents h (fill_buf a) = Some bs" "length bs = buf_size a"
    using inv by (auto simp: sink_inv_def asm_inv_def asm_buffers_def)
  have ppg: "pixels_per_group a \<noteq> 0"
    using inv by (simp add: sink_inv_def asm_inv_def asm_geometry_def pgroup_defs)
  obtain h' where h': "store_segments a pkt (length pkt) ss p h = Some h'"
      "contents h' (fill_buf a) = Some (apply_writes (segment_writes (layout_of a) pkt ss p) bs)"
      "\<And>q. q \<noteq> fill_buf a \<Longrightarrow> contents h' q = contents h q"
    using store_segments_obtain [OF ppg bs, of pkt ss p] by blast
  have len: "length (apply_writes (segment_writes (layout_of a) pkt ss p) bs) = buf_size a"
    using segment_writes_within [of "layout_of a"] bs(2) by (simp add: length_apply_writes)
  have k: "ok h' \<and> log h' = log h"
    using inv by (intro store_segments_keeps [OF h'(1)]) (auto simp: sink_inv_def)
  have "sink_inv ok own accepts fmt a h'"
    using inv k h' len by (auto simp: sink_inv_def asm_inv_def asm_buffers_def)
  moreover have "deliver_buf a \<noteq> fill_buf a"
    using inv by (auto simp: sink_inv_def asm_inv_def asm_buffers_def)
  ultimately show ?thesis using that [OF h'(1)] k h' bs by (simp add: asm_abs_def)
qed

lemma account_gap_spec:
  assumes inv: "sink_inv ok own accepts fmt a h"
  obtains a' where "account_gap a seq lost =
        (a', map_option (\<lambda>n. n + ucast (seq_gap (asm_abs a h) seq)) lost)"
    and "sink_inv ok own accepts fmt a' h" and "layout_of a' = layout_of a"
    and "asm_abs a' h = (asm_abs a h)\<lparr>damaged := frame_incomplete a \<or> seq_gap (asm_abs a h) seq \<noteq> 0\<rparr>"
proof (cases "has_prev_packet a \<and> seq \<noteq> last_seq a + 1")
  case True
  then show ?thesis
    using that [of "a\<lparr>frame_incomplete := True\<rparr>"] inv
    by (simp add: sink_inv_cong account_gap_def seq_gap_def asm_abs_def layout_of_def)
next
  case False
  then show ?thesis
    using that [of a] inv
    by (auto simp: account_gap_def seq_gap_def asm_abs_def option.map_ident)
qed

text \<open>An accepted packet up to the marker: the gap, the flush and the segments.\<close>

lemma packet_body_spec:
  assumes inv: "sink_inv ok own accepts fmt a h"
    and hdr: "parse_rtp_header pkt = Some (Some (off, seq, ts, m))" and len: "off + 2 \<le> length pkt"
    and ln: "parse_line_headers pkt (off + 2) (length pkt) [] = Some (segs, p)"
  defines "d \<equiv> \<lparr>p_seq = seq, p_ts = ts, p_marker = m, p_writes = segment_writes (layout_of a) pkt segs p\<rparr>"
  obtains a3 h3 out s2 where
      "rx_assembler_process_packet cb fmt pkt a h lost =
         (let lost = map_option (\<lambda>n. n + ucast (seq_gap (asm_abs a h) seq)) lost
          in if m then do { (a, h) \<leftarrow> deliver_frame cb fmt ts a3 h3;
                            Some (length out + 1, a\<lparr>frame_delivered := True\<rparr>, h, lost) }
             else Some (length out, a3, h3, lost))"
    and "spec_step (layout_of a) fmt d (asm_abs a h) =
         (if m then (out @ [spec_frame (layout_of a) fmt ts (damaged s2) s2], (show_picture (layout_of a) s2)\<lparr>shown := True\<rparr>)
          else (out, s2))"
    and "sink_inv ok own accepts fmt a3 h3" and "layout_of a3 = layout_of a" and "asm_abs a3 h3 = s2"
    and "log h3 = log h @ concat (map observe out)"
proof -
  let ?l = "layout_of a" and ?gap = "map_option (\<lambda>n. n + ucast (seq_gap (asm_abs a h) seq)) lost"
  obtain a1 where a1: "account_gap a seq lost = (a1, ?gap)"
      "sink_inv ok own accepts fmt a1 h" "layout_of a1 = ?l"
      "asm_abs a1 h = (asm_abs a h)\<lparr>damaged := frame_incomplete a \<or> seq_gap (asm_abs a h) seq \<noteq> 0\<rparr>"
    by (rule account_gap_spec [OF inv])
  obtain out s1 where fl: "spec_flush ?l fmt d (asm_abs a1 h) = (out, s1)" by fastforce
  obtain a2 h2 where a2: "end_unmarked_frame cb fmt ts m a1 h = Some (length out, a2, h2)"
      "sink_inv ok own accepts fmt a2 h2" "layout_of a2 = ?l" "asm_abs a2 h2 = s1"
      "log h2 = log h @ concat (map observe out)"
    using end_unmarked_frame_spec [OF a1(2), of d, unfolded a1(3) fl] unfolding d_def by simp blast
  let ?a3 = "a2\<lparr>last_seq := seq, last_ts := ts, has_prev_packet := True\<rparr>"
  have a3: "sink_inv ok own accepts fmt ?a3 h2" "layout_of ?a3 = ?l"
    "asm_abs ?a3 h2 = s1\<lparr>prev := Some (seq, ts)\<rparr>"
    using a2(2-4) by (auto simp: sink_inv_cong layout_of_def asm_abs_def)
  let ?s2 = "s1\<lparr>prev := Some (seq, ts), picture := apply_writes (p_writes d) (picture s1)\<rparr>"
  obtain h3 where h3: "store_segments ?a3 pkt (length pkt) segs p h2 = Some h3"
      "sink_inv ok own accepts fmt ?a3 h3" "log h3 = log h2" "asm_abs ?a3 h3 = ?s2"
    using store_segments_spec [OF a3(1), of pkt segs p] a3(2,3) by (auto simp: d_def)
  have "spec_step ?l fmt d (asm_abs a h) =
      (if m then (out @ [spec_frame ?l fmt ts (damaged ?s2) ?s2], (show_picture ?l ?s2)\<lparr>shown := True\<rparr>) else (out, ?s2))"
    using fl unfolding d_def by (simp add: spec_step_def Let_def a1(4) [symmetric])
  moreover have "\<not> length pkt - off < 2" using len by simp
  then have "rx_assembler_process_packet cb fmt pkt a h lost =
      (let lost = ?gap in if m then do { (a, h) \<leftarrow> deliver_frame cb fmt ts ?a3 h3;
                      Some (length out + 1, a\<lparr>frame_delivered := True\<rparr>, h, lost) }
       else Some (length out, ?a3, h3, lost))"
    using hdr len ln a1(1) a2(1) h3(1)
    by (cases m) (simp_all add: rx_assembler_process_packet_def Let_def)
  ultimately show ?thesis
    using a3(2) h3(2-4) a2(5) by (intro that [of ?a3 h3 out ?s2]) simp_all
qed

lemma process_packet_spec:
  assumes inv: "sink_inv ok own accepts fmt a h"
  obtains a' h' where
      "rx_assembler_process_packet cb fmt pkt a h lost =
         Some (length (fst (spec_packet (layout_of a) fmt pkt (asm_abs a h))), a', h',
               map_option (\<lambda>n. n + ucast (packet_gap (layout_of a) pkt (asm_abs a h))) lost)"
    and "sink_inv ok own accepts fmt a' h'" and "layout_of a' = layout_of a"
    and "asm_abs a' h' = snd (spec_packet (layout_of a) fmt pkt (asm_abs a h))"
    and "log h' = log h @ concat (map observe (fst (spec_packet (layout_of a) fmt pkt (asm_abs a h))))"
proof (rule decode_packet_total [of "layout_of a" pkt])
  assume d: "decode_packet (layout_of a) pkt = None"
    and r: "\<And>(cb :: 'a frame_cb) fmt a h lost. rx_assembler_process_packet cb fmt pkt a h lost = Some (0, a, h, lost)"
  show ?thesis
    by (rule that [of a h]) (simp_all add: inv d r spec_packet_def packet_gap_def option.map_ident)
next
  fix off seq ts m segs p
  assume acc: "parse_rtp_header pkt = Some (Some (off, seq, ts, m))" "off + 2 \<le> length pkt"
      "parse_line_headers pkt (off + 2) (length pkt) [] = Some (segs, p)"
    and dec: "decode_packet (layout_of a) pkt =
        Some \<lparr>p_seq = seq, p_ts = ts, p_marker = m, p_writes = segment_writes (layout_of a) pkt segs p\<rparr>"
      (is "_ = Some ?d")
  let ?l = "layout_of a"
  have res: "spec_packet ?l fmt pkt (asm_abs a h) = spec_step ?l fmt ?d (asm_abs a h)"
    "packet_gap ?l pkt (asm_abs a h) = seq_gap (asm_abs a h) seq"
    using dec by (simp_all add: spec_packet_def packet_gap_def)
  show ?thesis
  proof (rule packet_body_spec [OF inv acc])
    fix a3 h3 out s2
    assume run: "rx_assembler_process_packet cb fmt pkt a h lost =
         (let lost = map_option (\<lambda>n. n + ucast (seq_gap (asm_abs a h) seq)) lost
          in if m then do { (a, h) \<leftarrow> deliver_frame cb fmt ts a3 h3;
                            Some (length out + 1, a\<lparr>frame_delivered := True\<rparr>, h, lost) }
             else Some (length out, a3, h3, lost))"
      and step: "spec_step ?l fmt ?d (asm_abs a h) =
         (if m then (out @ [spec_frame ?l fmt ts (damaged s2) s2], (show_picture ?l s2)\<lparr>shown := True\<rparr>) else (out, s2))"
      and h3: "sink_inv ok own accepts fmt a3 h3" "layout_of a3 = ?l" "asm_abs a3 h3 = s2"
        "log h3 = log h @ concat (map observe out)"
    show ?thesis
    proof (cases m)
      case False
      then show ?thesis by (intro that [of a3 h3], unfold res) (use run step h3 in simp_all)
    next
      case True
      obtain h4 where h4: "deliver_frame cb fmt ts a3 h3 = Some (after_delivery ts a3, h4)"
          "sink_inv ok own accepts fmt (after_delivery ts a3) h4"
          "asm_abs (after_delivery ts a3) h4 = show_picture (layout_of a3) (asm_abs a3 h3)"
          "log h4 = log h3 @ observe (spec_frame (layout_of a3) fmt ts (frame_incomplete a3) (asm_abs a3 h3))"
        by (rule deliver_frame_spec [OF h3(1)])
      let ?a4 = "(after_delivery ts a3)\<lparr>frame_delivered := True\<rparr>"
      have "asm_abs ?a4 h4 = (asm_abs (after_delivery ts a3) h4)\<lparr>shown := True\<rparr>"
        "layout_of ?a4 = ?l" "frame_incomplete a3 = damaged s2"
        using h3(2,3) by (auto simp: asm_abs_def layout_of_def after_delivery_def)
      then show ?thesis
        by (intro that [of ?a4 h4], unfold res) (use True run step h3 h4 in \<open>simp_all add: sink_inv_cong\<close>)
    qed
  qed
qed

end

end
