(* ===== verification/Rx_Assembler_Run.thy ===== *)
theory Rx_Assembler_Run
  imports Rx_Assembler_Spec
begin

text \<open>
  Sequences of packets: the assembler over a whole stream, a callback that records what it
  is given, the wire form of a packet and its decoding, and what a complete frame on the
  wire becomes.
\<close>

section \<open>A stream of packets\<close>

fun process_packets ::
    "'z frame_cb \<Rightarrow> st2110rx_pixfmt_t \<Rightarrow> byte list list \<Rightarrow> rx_frame_assembler_t \<Rightarrow> 'z heap_scheme
       \<Rightarrow> u64 option \<Rightarrow> (nat \<times> rx_frame_assembler_t \<times> 'z heap_scheme \<times> u64 option) option" where
  "process_packets cb fmt [] a h lost = Some (0, a, h, lost)"
| "process_packets cb fmt (pkt # pkts) a h lost =
     do { (n, a, h, lost) \<leftarrow> rx_assembler_process_packet cb fmt pkt a h lost;
          (m, a, h, lost) \<leftarrow> process_packets cb fmt pkts a h lost;
          Some (n + m, a, h, lost) }"

text \<open>The packets of a stream that the assembler accepts, decoded.\<close>

definition decode_all :: "layout \<Rightarrow> byte list list \<Rightarrow> rtp_packet list" where
  "decode_all l pkts = List.map_filter (decode_packet l) pkts"

lemma decode_all_simps [simp]:
  "decode_all l [] = []"
  "decode_all l (pkt # pkts) =
     (case decode_packet l pkt of None \<Rightarrow> decode_all l pkts | Some d \<Rightarrow> d # decode_all l pkts)"
  by (simp_all add: decode_all_def List.map_filter_def split: option.splits)

fun gap_total :: "spec_state \<Rightarrow> rtp_packet list \<Rightarrow> u64" where
  "gap_total s [] = 0"
| "gap_total s (d # ds) = ucast (seq_gap s (p_seq d)) + gap_total (s\<lparr>prev := Some (p_seq d, p_ts d)\<rparr>) ds"

lemma gap_total_cong: "prev s = prev t \<Longrightarrow> gap_total s ds = gap_total t ds"
  by (induction ds arbitrary: s t) (auto simp: seq_gap_def)

lemma prev_spec_flush [simp]: "prev (snd (spec_flush l fmt d s)) = prev s"
  by (simp add: spec_flush_def show_picture_def Let_def)

lemma prev_spec_step [simp]: "prev (snd (spec_step l fmt d s)) = Some (p_seq d, p_ts d)"
  by (simp add: spec_step_def show_picture_def Let_def split: prod.splits)

lemma gap_total_step:
  "gap_total s (d # ds) = ucast (seq_gap s (p_seq d)) + gap_total (snd (spec_step l fmt d s)) ds"
  using gap_total_cong [of "s\<lparr>prev := Some (p_seq d, p_ts d)\<rparr>" "snd (spec_step l fmt d s)" ds]
  by simp

context frame_log
begin

lemma process_packets_spec:
  assumes "sink_inv ok own accepts fmt a h"
  shows "\<exists>a' h'. process_packets cb fmt pkts a h lost =
        Some (length (fst (spec_run (layout_of a) fmt (decode_all (layout_of a) pkts) (asm_abs a h))), a', h',
              map_option (\<lambda>n. n + gap_total (asm_abs a h) (decode_all (layout_of a) pkts)) lost)
    \<and> sink_inv ok own accepts fmt a' h' \<and> layout_of a' = layout_of a
    \<and> asm_abs a' h' = snd (spec_run (layout_of a) fmt (decode_all (layout_of a) pkts) (asm_abs a h))
    \<and> log h' = log h @ concat (map observe
        (fst (spec_run (layout_of a) fmt (decode_all (layout_of a) pkts) (asm_abs a h))))"
  using assms
proof (induction pkts arbitrary: a h lost)
  case Nil
  then show ?case by (simp add: option.map_ident)
next
  case (Cons pkt pkts)
  let ?l = "layout_of a" and ?s = "asm_abs a h"
  obtain a1 h1 where 1: "rx_assembler_process_packet cb fmt pkt a h lost =
        Some (length (fst (spec_packet ?l fmt pkt ?s)), a1, h1,
              map_option (\<lambda>n. n + ucast (packet_gap ?l pkt ?s)) lost)"
      "sink_inv ok own accepts fmt a1 h1" "layout_of a1 = ?l"
      "asm_abs a1 h1 = snd (spec_packet ?l fmt pkt ?s)"
      "log h1 = log h @ concat (map observe (fst (spec_packet ?l fmt pkt ?s)))"
    by (rule process_packet_spec [OF Cons.prems])
  let ?lost1 = "map_option (\<lambda>n. n + ucast (packet_gap ?l pkt ?s)) lost"
  from Cons.IH [OF 1(2), of ?lost1] 1
  show ?case
    by (cases "decode_packet ?l pkt")
       (auto simp: spec_packet_def packet_gap_def option.map_comp comp_def gap_total_step [of _ _ _ ?l fmt]
          add.assoc simp del: gap_total.simps(2) split: prod.splits)
qed

end

section \<open>A recording callback\<close>

text \<open>
  The heap extended with a recording; the callback copies out the
  \<open>linesize[0] * height\<close> bytes behind \<open>data[0]\<close>.
\<close>

record recorder = heap +
  seen :: "seen_frame list"

definition record_cb :: "'z recorder_ext frame_cb" where
  "record_cb f h =
     do { bs \<leftarrow> contents h (f_data f ! 0);
          out \<leftarrow> rd_range bs 0 (unat (f_linesize f ! 0) * unat (f_height f));
          Some (h\<lparr>seen := seen h @ [view_frame f out]\<rparr>) }"

lemma contents_seen [simp]: "contents (h\<lparr>seen := x\<rparr>) p = contents h p"
  by (simp add: contents_def split: option.splits)

lemma seen_store: "store h p i ys = Some h' \<Longrightarrow> seen h' = seen h"
  by (auto simp: store_def split: option.splits if_splits)

interpretation rec: frame_log record_cb "\<lambda>_. True" "{}" "\<lambda>_. True" seen "\<lambda>f. [f]"
  by unfold_locales
     (auto simp: record_cb_def frame_data_ok_def rd_range_def split: bind_splits if_splits dest: seen_store)

end
