(* ===== verification/Rx_Assembler_Frames.thy ===== *)
theory Rx_Assembler_Frames
  imports Rx_Assembler_Run
begin

text \<open>
  The wire form of a packet and its decoding by the assembler, and what a whole frame on
  the wire becomes: its picture, in whatever order its packets arrive, as long as the
  marker packet comes last. The sender's side here is a specification (RFC 4175).
\<close>

section \<open>Packets on the wire\<close>

record wire_packet =
  wp_rtp :: rtp_wire
  wp_ext_seq :: u16
  wp_segs :: "(segment \<times> byte list) list"

definition put_packet :: "wire_packet \<Rightarrow> byte list" where
  "put_packet w = put_rtp_header (wp_rtp w) @ put16 (wp_ext_seq w)
     @ put_line_headers (map fst (wp_segs w)) @ concat (map snd (wp_segs w))"

definition seg_dst :: "layout \<Rightarrow> segment \<Rightarrow> nat" where
  "seg_dst l s = unat (line_no s) * unat (l_stride l)
     + (unat (pixel_offset s) div unat (l_ppg l)) * unat (l_pgroup l)"

definition wf_payload :: "layout \<Rightarrow> segment \<times> byte list \<Rightarrow> bool" where
  "wf_payload l sd \<longleftrightarrow> (let (s, d) = sd in wf_segment s \<and> length d = unat (seg_length s)
     \<and> unat (line_no s) < unat (l_height l) \<and> seg_dst l s + length d \<le> layout_size l)"

definition wf_packet :: "layout \<Rightarrow> wire_packet \<Rightarrow> bool" where
  "wf_packet l w \<longleftrightarrow> wf_rtp (wp_rtp w) \<and> wp_segs w \<noteq> [] \<and> length (wp_segs w) \<le> MAX_SEGMENTS
     \<and> list_all (wf_payload l) (wp_segs w)"

definition packet_writes :: "layout \<Rightarrow> wire_packet \<Rightarrow> (nat \<times> byte list) list" where
  "packet_writes l w = map (\<lambda>(s, d). (seg_dst l s, d)) (wp_segs w)"

text \<open>The payloads are found where the headers say, whatever precedes them.\<close>

lemma segment_writes_payloads:
  assumes "list_all (wf_payload l) sds" and "p = length xs"
  shows "segment_writes l (xs @ concat (map snd sds)) (map fst sds) p
    = map (\<lambda>(s, d). (seg_dst l s, d)) sds"
  using assms
proof (induction sds arbitrary: xs p)
  case Nil
  then show ?case by simp
next
  case (Cons sd sds)
  obtain s d where sd: "sd = (s, d)" by (cases sd)
  have "segment_writes l ((xs @ d) @ concat (map snd sds)) (map fst sds) (p + length d)
      = map (\<lambda>(s, d). (seg_dst l s, d)) sds"
    using Cons by (intro Cons.IH) auto
  then show ?case
    using Cons.prems sd by (simp add: wf_payload_def seg_dst_def Let_def)
qed

lemma decode_put_packet:
  assumes "wf_packet l w"
  shows "decode_packet l (put_packet w) =
    Some \<lparr>p_seq = w_seq (wp_rtp w), p_ts = w_ts (wp_rtp w), p_marker = w_marker (wp_rtp w),
          p_writes = packet_writes l w\<rparr>"
proof -
  let ?hdr = "put_rtp_header (wp_rtp w)" and ?segs = "map fst (wp_segs w)"
  let ?off = "length ?hdr"
  have hdr: "parse_rtp_header (put_packet w)
      = Some (Some (?off, w_seq (wp_rtp w), w_ts (wp_rtp w), w_marker (wp_rtp w)))"
    using assms parse_put_rtp_header [of "wp_rtp w"] by (simp add: put_packet_def wf_packet_def)
  have wf: "?segs \<noteq> []" "length ?segs \<le> MAX_SEGMENTS" "list_all wf_segment ?segs"
    using assms by (auto simp: wf_packet_def list_all_iff wf_payload_def)
  have "parse_line_headers ((?hdr @ put16 (wp_ext_seq w)) @ put_line_headers ?segs @ concat (map snd (wp_segs w)))
        (?off + 2) (length (put_packet w)) [] = Some ([] @ ?segs, ?off + 2 + 6 * length ?segs)"
    using wf by (intro parse_put_line_headers) (simp_all add: put_packet_def)
  then have ln: "parse_line_headers (put_packet w) (?off + 2) (length (put_packet w)) []
      = Some (?segs, ?off + 2 + 6 * length ?segs)"
    by (simp add: put_packet_def)
  have "segment_writes l ((?hdr @ put16 (wp_ext_seq w) @ put_line_headers ?segs) @ concat (map snd (wp_segs w)))
      ?segs (?off + 2 + 6 * length ?segs) = packet_writes l w"
    using assms unfolding packet_writes_def
    by (intro segment_writes_payloads) (simp_all add: wf_packet_def)
  then have "segment_writes l (put_packet w) ?segs (?off + 2 + 6 * length ?segs) = packet_writes l w"
    by (simp add: put_packet_def)
  then show ?thesis
    using hdr ln by (simp add: decode_packet_def put_packet_def)
qed

text \<open>A packet as the assembler understands it.\<close>

definition wire_decoded :: "layout \<Rightarrow> wire_packet \<Rightarrow> rtp_packet" where
  "wire_decoded l w = \<lparr>p_seq = w_seq (wp_rtp w), p_ts = w_ts (wp_rtp w), p_marker = w_marker (wp_rtp w),
     p_writes = packet_writes l w\<rparr>"

lemma wire_decoded_simps [simp]:
  "p_seq (wire_decoded l w) = w_seq (wp_rtp w)" "p_ts (wire_decoded l w) = w_ts (wp_rtp w)"
  "p_marker (wire_decoded l w) = w_marker (wp_rtp w)" "p_writes (wire_decoded l w) = packet_writes l w"
  by (simp_all add: wire_decoded_def)

lemma decode_all_put_packets:
  "list_all (wf_packet l) ws \<Longrightarrow> decode_all l (map put_packet ws) = map (wire_decoded l) ws"
  by (induction ws) (simp_all add: decode_put_packet wire_decoded_def)

section \<open>Writes that agree with a picture\<close>

text \<open>Writes copied from a picture \<open>P\<close>, and the positions they cover.\<close>

definition writes_from :: "byte list \<Rightarrow> (nat \<times> byte list) list \<Rightarrow> bool" where
  "writes_from P ws \<longleftrightarrow> (\<forall>(i, ys) \<in> set ws. i + length ys \<le> length P \<and> ys = take (length ys) (drop i P))"

definition covered :: "(nat \<times> byte list) list \<Rightarrow> nat \<Rightarrow> bool" where
  "covered ws k \<longleftrightarrow> (\<exists>(i, ys) \<in> set ws. i \<le> k \<and> k < i + length ys)"

lemma apply_writes_from_nth:
  assumes "writes_from P ws" and "length bs = length P" and "k < length P"
  shows "apply_writes ws bs ! k = (if covered ws k then P ! k else bs ! k)"
  using assms
proof (induction ws arbitrary: bs)
  case Nil
  then show ?case by (simp add: covered_def)
next
  case (Cons w ws)
  obtain i ys where w: "w = (i, ys)" by (cases w)
  from Cons.prems w have ys: "i + length ys \<le> length P" "ys = take (length ys) (drop i P)"
    and rest: "writes_from P ws" by (auto simp: writes_from_def)
  have "ys ! (k - i) = P ! k" if "i \<le> k" "k < i + length ys"
  proof -
    have "ys ! (k - i) = take (length ys) (drop i P) ! (k - i)" using ys(2) by simp
    then show ?thesis using that ys(1) by simp
  qed
  moreover have "apply_writes ws (blit bs i ys) ! k = (if covered ws k then P ! k else blit bs i ys ! k)"
    using Cons.prems(2,3) rest ys(1) by (intro Cons.IH) (simp_all add: length_blit)
  ultimately show ?case
    using w ys(1) Cons.prems(2,3) by (auto simp: nth_blit covered_def)
qed

lemma writes_from_within: "writes_from P ws \<Longrightarrow> writes_within (length P) ws"
  by (auto simp: writes_from_def writes_within_def)

lemma apply_writes_whole:
  assumes "writes_from P ws" and "length bs = length P" and "\<And>k. k < length P \<Longrightarrow> covered ws k"
  shows "apply_writes ws bs = P"
proof (rule nth_equalityI)
  show "length (apply_writes ws bs) = length P"
    using writes_from_within [OF assms(1)] assms(2) by (simp add: length_apply_writes)
  then show "apply_writes ws bs ! k = P ! k" if "k < length (apply_writes ws bs)" for k
    using that assms apply_writes_from_nth [OF assms(1,2)] by simp
qed

section \<open>The packets of one frame\<close>

text \<open>Nothing is pending: no packet yet, or the last picture was shown by its marker.\<close>

definition settled :: "spec_state \<Rightarrow> bool" where
  "settled s \<longleftrightarrow> prev s = None \<or> shown s"

text \<open>Each packet follows the one before it.\<close>

fun in_sequence :: "(u16 \<times> u32) option \<Rightarrow> rtp_packet list \<Rightarrow> bool" where
  "in_sequence p [] = True"
| "in_sequence None (d # ds) = in_sequence (Some (p_seq d, p_ts d)) ds"
| "in_sequence (Some (q, t)) (d # ds) = (p_seq d = q + 1 \<and> in_sequence (Some (p_seq d, p_ts d)) ds)"

lemma in_sequence_Cons:
  "in_sequence (prev s) (d # ds) \<longleftrightarrow> seq_gap s (p_seq d) = 0 \<and> in_sequence (Some (p_seq d, p_ts d)) ds"
  by (cases "prev s") (auto simp: seq_gap_def)

text \<open>Packets of the current timestamp with no marker only add to the picture.\<close>

lemma spec_step_body:
  assumes "\<not> p_marker d" and "\<not> new_timestamp s (p_ts d) \<or> shown s"
  shows "\<exists>b. spec_step l fmt d s = ([], s\<lparr>damaged := damaged s \<or> seq_gap s (p_seq d) \<noteq> 0,
     shown := b, prev := Some (p_seq d, p_ts d), picture := apply_writes (p_writes d) (picture s)\<rparr>)"
  using assms by (auto simp: spec_step_def spec_flush_def new_timestamp_def Let_def intro: exI [of _ "shown s"])

lemma spec_run_body:
  assumes "list_all (\<lambda>d. \<not> p_marker d \<and> p_ts d = t) ds" and "settled s \<or> prev_ts s = t"
  shows "\<exists>s'. spec_run l fmt ds s = ([], s') \<and> picture s' = apply_writes (concat (map p_writes ds)) (picture s)
    \<and> (damaged s' \<longleftrightarrow> damaged s \<or> \<not> in_sequence (prev s) ds)
    \<and> next_number s' = next_number s \<and> held s' = held s
    \<and> prev s' = (if ds = [] then prev s else Some (p_seq (last ds), t)) \<and> (settled s' \<or> prev_ts s' = t)"
  using assms
proof (induction ds arbitrary: s)
  case Nil
  then show ?case by simp
next
  case (Cons d ds)
  have "\<not> new_timestamp s (p_ts d) \<or> shown s"
    using Cons.prems by (auto simp: new_timestamp_def settled_def prev_ts_def split: option.splits)
  then obtain b where st: "spec_step l fmt d s = ([], s\<lparr>damaged := damaged s \<or> seq_gap s (p_seq d) \<noteq> 0,
     shown := b, prev := Some (p_seq d, p_ts d), picture := apply_writes (p_writes d) (picture s)\<rparr>)"
    using Cons.prems(1) spec_step_body [of d s l fmt] by auto
  let ?s = "s\<lparr>damaged := damaged s \<or> seq_gap s (p_seq d) \<noteq> 0,
     shown := b, prev := Some (p_seq d, p_ts d), picture := apply_writes (p_writes d) (picture s)\<rparr>"
  have "prev_ts ?s = t" using Cons.prems(1) by (simp add: prev_ts_def)
  with Cons.IH [of ?s] Cons.prems(1) obtain s' where s': "spec_run l fmt ds ?s = ([], s')"
      "picture s' = apply_writes (concat (map p_writes ds)) (picture ?s)"
      "damaged s' \<longleftrightarrow> damaged ?s \<or> \<not> in_sequence (prev ?s) ds"
      "next_number s' = next_number s" "held s' = held s"
      "prev s' = (if ds = [] then prev ?s else Some (p_seq (last ds), t))" "settled s' \<or> prev_ts s' = t"
    by auto
  show ?case
    using s' st Cons.prems(1) in_sequence_Cons [of s d ds]
    by (auto simp: apply_writes_append)
qed

lemma spec_run_append:
  "spec_run l fmt (ds @ es) s =
     (let (out, s1) = spec_run l fmt ds s; (out', s2) = spec_run l fmt es s1 in (out @ out', s2))"
  by (induction ds arbitrary: s) (auto simp: Let_def split: prod.splits)

lemma in_sequence_append:
  "in_sequence p (ds @ es) \<longleftrightarrow> in_sequence p ds
     \<and> in_sequence (if ds = [] then p else Some (p_seq (last ds), p_ts (last ds))) es"
proof (induction ds arbitrary: p)
  case Nil
  then show ?case by simp
next
  case (Cons d ds)
  then show ?case by (cases p) auto
qed

text \<open>The marker packet shows the picture, whatever was pending.\<close>

lemma spec_step_marker:
  assumes "p_marker m"
  shows "\<exists>s'. spec_step l fmt m s =
      ([\<lparr>s_bytes = apply_writes (p_writes m) (picture s), s_linesize = l_stride l,
         s_width = l_width l, s_height = l_height l, s_format = fmt,
         s_timestamp_ns = timestamp_to_ns (p_ts m), s_number = next_number s,
         s_incomplete = (damaged s \<or> seq_gap s (p_seq m) \<noteq> 0)\<rparr>], s')
    \<and> shown s' \<and> \<not> damaged s' \<and> picture s' = replicate (layout_size l) 0
    \<and> held s' = apply_writes (p_writes m) (picture s)
    \<and> prev s' = Some (p_seq m, p_ts m) \<and> next_number s' = next_number s + 1"
  using assms by (auto simp: spec_step_def spec_flush_def spec_frame_def show_picture_def Let_def)

text \<open>A marker closes the frame: one frame, with everything written, flagged on any gap.\<close>

lemma spec_run_frame:
  assumes "list_all (\<lambda>d. \<not> p_marker d \<and> p_ts d = t) ds" and "p_marker m" and "p_ts m = t" and "settled s"
  shows "\<exists>s'. spec_run l fmt (ds @ [m]) s =
      ([\<lparr>s_bytes = apply_writes (concat (map p_writes (ds @ [m]))) (picture s), s_linesize = l_stride l,
         s_width = l_width l, s_height = l_height l, s_format = fmt, s_timestamp_ns = timestamp_to_ns t,
         s_number = next_number s, s_incomplete = (damaged s \<or> \<not> in_sequence (prev s) (ds @ [m]))\<rparr>], s')
    \<and> settled s' \<and> \<not> damaged s' \<and> picture s' = replicate (layout_size l) 0
    \<and> held s' = apply_writes (concat (map p_writes (ds @ [m]))) (picture s)
    \<and> prev s' = Some (p_seq m, t) \<and> next_number s' = next_number s + 1"
proof -
  obtain s1 where s1: "spec_run l fmt ds s = ([], s1)"
      "picture s1 = apply_writes (concat (map p_writes ds)) (picture s)"
      "damaged s1 \<longleftrightarrow> damaged s \<or> \<not> in_sequence (prev s) ds"
      "next_number s1 = next_number s" 
      "prev s1 = (if ds = [] then prev s else Some (p_seq (last ds), t))"
    using spec_run_body [OF assms(1), of s l fmt] assms(4) by blast
  have "prev s1 = (if ds = [] then prev s else Some (p_seq (last ds), p_ts (last ds)))"
    using s1(5) assms(1) by (auto simp: list_all_iff)
  then have seq: "in_sequence (prev s) (ds @ [m]) \<longleftrightarrow> in_sequence (prev s) ds \<and> seq_gap s1 (p_seq m) = 0"
    using in_sequence_Cons [of s1 m "[]"] by (simp add: in_sequence_append)
  from spec_step_marker [OF assms(2), of l fmt s1] s1 seq assms(3)
  show ?thesis
    by (auto simp: spec_run_append settled_def apply_writes_append)
qed

end
