(* ===== verification/Rx_Assembler_Init.thy ===== *)
theory Rx_Assembler_Init
  imports Rx_Assembler_Spec
begin

text \<open>
  Creation and disposal of the assembler: which requests \<open>rx_assembler_init\<close> accepts, the
  state it starts in, and that neither a failed nor a completed life leaks a block or
  frees one twice.
\<close>

definition supported :: "u32 \<Rightarrow> u32 \<Rightarrow> st2110rx_pixfmt_t \<Rightarrow> bool" where
  "supported width height fmt \<longleftrightarrow> width \<noteq> 0 \<and> height \<noteq> 0 \<and> width mod 2 = 0
     \<and> width \<le> 8192 \<and> height \<le> 4320
     \<and> fmt \<in> {ST2110RX_FMT_YCBCR422_10BIT, ST2110RX_FMT_UYVY}"

lemma pgroup_of_fmt_supported:
  "supported width height fmt \<Longrightarrow> \<exists>pg. pgroup_of_fmt fmt = Some pg \<and> pg \<in> {PGROUP_422_10BIT, PGROUP_422_8BIT}"
  by (auto simp: supported_def pgroup_of_fmt_def)

lemma not_supported_init:
  assumes "\<not> supported width height fmt"
  shows "rx_assembler_init a width height fmt h = Some (-1, a, h)"
proof (cases "width = 0 \<or> height = 0 \<or> width mod 2 \<noteq> 0")
  case True
  then show ?thesis unfolding rx_assembler_init_def by (rule if_P)
next
  case dims: False
  show ?thesis
  proof (cases "width > 8192 \<or> height > 4320")
    case True
    show ?thesis unfolding rx_assembler_init_def if_not_P [OF dims] if_P [OF True] ..
  next
    case False
    with assms dims have "pgroup_of_fmt fmt = None"
      by (cases fmt) (auto simp: supported_def pgroup_of_fmt_def)
    then show ?thesis
      unfolding rx_assembler_init_def if_not_P [OF dims] if_not_P [OF False] by simp
  qed
qed

text \<open>The assembler that a successful initialisation leaves, up to the two addresses.\<close>

definition fresh_assembler :: "u32 \<Rightarrow> u32 \<Rightarrow> u32 \<Rightarrow> ptr \<Rightarrow> ptr \<Rightarrow> rx_frame_assembler_t" where
  "fresh_assembler width height pgroup p q = zero_assembler\<lparr>fill_buf := p, deliver_buf := q,
     a_width := width, a_height := height, pgroup_size := pgroup,
     pixels_per_group := PIXELS_PER_GROUP, fill_stride := (width div PIXELS_PER_GROUP) * pgroup\<rparr>"

lemma fresh_assembler_geometry:
  "supported width height fmt \<Longrightarrow> pgroup_of_fmt fmt = Some pg \<Longrightarrow>
     asm_geometry (fresh_assembler width height pg p q)"
  by (auto simp: supported_def asm_geometry_def fresh_assembler_def pgroup_of_fmt_def)

definition init_size :: "u32 \<Rightarrow> u32 \<Rightarrow> u32 \<Rightarrow> nat" where
  "init_size width height pgroup = unat ((width div PIXELS_PER_GROUP) * pgroup) * unat height"

lemma buf_size_fresh [simp]: "buf_size (fresh_assembler w hgt pg p q) = init_size w hgt pg"
  by (simp add: buf_size_def init_size_def fresh_assembler_def)

text \<open>All outcomes of a supported request: both blocks, or none and \<open>-1\<close>.\<close>

lemma supported_init:
  assumes sup: "supported width height fmt" and wf: "heap_wf h" and pg: "pgroup_of_fmt fmt = Some pg"
  shows "if oom h (next_blk h) \<or> oom h (Suc (next_blk h))
    then \<exists>a' h'. rx_assembler_init a width height fmt h = Some (-1, a', h')
           \<and> fill_buf a' = None \<and> deliver_buf a' = None \<and> blocks h' = blocks h \<and> heap_wf h'
           \<and> next_blk h' = next_blk h + 2 \<and> oom h' = oom h \<and> junk h' = junk h \<and> heap.more h' = heap.more h
    else \<exists>h'. rx_assembler_init a width height fmt h =
             Some (0, fresh_assembler width height pg (Some (next_blk h)) (Some (Suc (next_blk h))), h')
           \<and> blocks h' = (blocks h)(next_blk h \<mapsto> replicate (init_size width height pg) 0,
                Suc (next_blk h) \<mapsto> replicate (init_size width height pg) 0)
           \<and> heap_wf h' \<and> next_blk h' = next_blk h + 2 \<and> oom h' = oom h \<and> junk h' = junk h \<and> heap.more h' = heap.more h"
proof -
  have guards: "width \<noteq> 0" "height \<noteq> 0" "width mod 2 = 0" "\<not> width > 8192" "\<not> height > 4320"
    using sup by (auto simp: supported_def)
  have sz: "buf_size (zero_assembler\<lparr>a_width := width, a_height := height, pgroup_size := pg,
      pixels_per_group := PIXELS_PER_GROUP, fill_stride := (width div PIXELS_PER_GROUP) * pg\<rparr>)
      = init_size width height pg"
    by (simp add: buf_size_def init_size_def)
  have free: "blocks h (next_blk h) = None" "blocks h (Suc (next_blk h)) = None"
    using wf by (auto simp: heap_wf_def dest: spec)
  show ?thesis
    using guards pg free wf
    by (auto simp: rx_assembler_init_def sz calloc_def alloc_def free_blk_def Let_def
        fresh_assembler_def heap_wf_def fun_upd_idem_iff fun_eq_iff)
qed

text \<open>A fresh assembler meets its invariant, and starts the specification's initial state.\<close>

definition spec_init :: "nat \<Rightarrow> spec_state" where
  "spec_init n = \<lparr>picture = replicate n 0, held = replicate n 0, prev = None,
     damaged = False, shown = False, next_number = 0, last_bad = False\<rparr>"

lemma fresh_assembler_inv:
  assumes "supported width height fmt" and "pgroup_of_fmt fmt = Some pg" and "p \<noteq> q"
    and "contents h p = Some (replicate (init_size width height pg) 0)"
    and "contents h q = Some (replicate (init_size width height pg) 0)"
  shows "asm_inv (fresh_assembler width height pg p q) h"
    and "asm_abs (fresh_assembler width height pg p q) h = spec_init (init_size width height pg)"
proof -
  show "asm_inv (fresh_assembler width height pg p q) h"
    unfolding asm_inv_def
  proof
    show "asm_geometry (fresh_assembler width height pg p q)"
      using assms(1,2) by (rule fresh_assembler_geometry)
    show "asm_buffers (fresh_assembler width height pg p q) h"
      unfolding asm_buffers_def buf_size_fresh using assms(3-5) by (simp add: fresh_assembler_def)
  qed
  show "asm_abs (fresh_assembler width height pg p q) h = spec_init (init_size width height pg)"
    using assms(4,5) by (simp add: asm_abs_def spec_init_def fresh_assembler_def zero_assembler_def)
qed

text \<open>\<open>rx_assembler_free\<close> releases both buffers, and is harmless the second time.\<close>

lemma rx_assembler_free_obtain:
  assumes "asm_inv a h"
  obtains h' where "rx_assembler_free a h = Some (a\<lparr>fill_buf := None, deliver_buf := None\<rparr>, h')"
    and "\<And>q. contents h' q = (if q \<in> {fill_buf a, deliver_buf a} then None else contents h q)"
    and "next_blk h' = next_blk h" and "oom h' = oom h" and "junk h' = junk h"
proof -
  obtain p q where pq: "fill_buf a = Some p" "deliver_buf a = Some q" "p \<noteq> q"
      "blocks h p \<noteq> None" "blocks h q \<noteq> None"
    using assms by (cases "fill_buf a"; cases "deliver_buf a")
      (auto simp: asm_inv_def asm_buffers_def contents_def)
  then show ?thesis
    using that [of "h\<lparr>blocks := (blocks h)(p := None, q := None)\<rparr>"]
    by (auto simp: rx_assembler_free_def free_blk_def contents_def split: option.splits)
qed

lemma rx_assembler_free_again:
  "fill_buf a = None \<Longrightarrow> deliver_buf a = None \<Longrightarrow> rx_assembler_free a h = Some (a, h)"
  by (simp add: rx_assembler_free_def free_blk_def)

end
