(* ===== verification/Rx_Stream.thy ===== *)
theory Rx_Stream
  imports Rx_Assembler_Frames Rx_Assembler_Init
begin

text \<open>
  Whole streams with losses: what the assembler shows when of each frame sent some packets
  arrive, in order or not, and others are lost, the marker packet among them. The frames
  are described by the sent pictures and the positions the arrived packets cover.
\<close>

section \<open>What arrives of a stream\<close>

text \<open>Of a frame: its picture and timestamp, and those of its packets that arrive, in order of arrival.\<close>

record sent_frame =
  sf_picture :: "byte list"
  sf_ts :: u32
  sf_packets :: "wire_packet list"

definition sf_seqs :: "sent_frame \<Rightarrow> u16 list" where
  "sf_seqs f = map (w_seq \<circ> wp_rtp) (sf_packets f)"

definition sf_writes :: "layout \<Rightarrow> sent_frame \<Rightarrow> (nat \<times> byte list) list" where
  "sf_writes l f = concat (map (packet_writes l) (sf_packets f))"

definition sf_marked :: "sent_frame \<Rightarrow> bool" where
  "sf_marked f \<longleftrightarrow> w_marker (wp_rtp (last (sf_packets f)))"

text \<open>Something arrives, cut from the picture, and no marker before the last packet.\<close>

definition wf_sent :: "layout \<Rightarrow> sent_frame \<Rightarrow> bool" where
  "wf_sent l f \<longleftrightarrow> sf_packets f \<noteq> []
     \<and> list_all (\<lambda>w. wf_packet l w \<and> w_ts (wp_rtp w) = sf_ts f) (sf_packets f)
     \<and> list_all (\<lambda>w. \<not> w_marker (wp_rtp w)) (butlast (sf_packets f))
     \<and> length (sf_picture f) = layout_size l \<and> writes_from (sf_picture f) (sf_writes l f)"

text \<open>What arrives: consecutive frames differ in their timestamps.\<close>

definition wf_arrivals :: "layout \<Rightarrow> sent_frame list \<Rightarrow> bool" where
  "wf_arrivals l fs \<longleftrightarrow> list_all (wf_sent l) fs \<and> successively (\<lambda>f g. sf_ts g \<noteq> sf_ts f) fs"

lemma wf_arrivals_Cons:
  "wf_arrivals l (f # fs) \<longleftrightarrow> wf_sent l f \<and> (fs = [] \<or> sf_ts (hd fs) \<noteq> sf_ts f) \<and> wf_arrivals l fs"
  by (cases fs) (auto simp: wf_arrivals_def)

text \<open>Moreover, when the marker of one is lost, the next does not begin with its own.\<close>

definition apart :: "sent_frame \<Rightarrow> sent_frame \<Rightarrow> bool" where
  "apart f g \<longleftrightarrow> sf_ts g \<noteq> sf_ts f \<and> (sf_marked f \<or> \<not> w_marker (wp_rtp (hd (sf_packets g))))"

definition wf_stream :: "layout \<Rightarrow> sent_frame list \<Rightarrow> bool" where
  "wf_stream l fs \<longleftrightarrow> list_all (wf_sent l) fs \<and> successively apart fs"

lemma wf_stream_arrivals: "wf_stream l fs \<Longrightarrow> wf_arrivals l fs"
  by (auto simp: wf_stream_def wf_arrivals_def apart_def elim: successively_mono)

lemma wf_stream_Cons:
  "wf_stream l (f # fs) \<longleftrightarrow> wf_sent l f \<and> (fs = [] \<or> apart f (hd fs)) \<and> wf_stream l fs"
  by (cases fs) (auto simp: wf_stream_def)

section \<open>What is shown of it\<close>

text \<open>The sent picture where a packet arrived, black elsewhere.\<close>

definition arrived_picture :: "layout \<Rightarrow> sent_frame \<Rightarrow> byte list" where
  "arrived_picture l f =
     map (\<lambda>k. if covered (sf_writes l f) k then sf_picture f ! k else 0) [0..<layout_size l]"

fun consecutive :: "u16 option \<Rightarrow> u16 list \<Rightarrow> bool" where
  "consecutive q [] = True"
| "consecutive None (n # ns) = consecutive (Some n) ns"
| "consecutive (Some q) (n # ns) = (n = q + 1 \<and> consecutive (Some n) ns)"

lemma consecutive_append:
  "ns \<noteq> [] \<Longrightarrow> consecutive q (ns @ ms) \<longleftrightarrow> consecutive q ns \<and> consecutive (Some (last ns)) ms"
proof (induction q ns rule: consecutive.induct)
  case (2 n ns)
  then show ?case by (cases ns) auto
next
  case (3 q n ns)
  then show ?case by (cases ns) auto
qed simp

definition shown_frame :: "layout \<Rightarrow> st2110rx_pixfmt_t \<Rightarrow> u32 \<Rightarrow> bool \<Rightarrow> sent_frame \<Rightarrow> seen_frame" where
  "shown_frame l fmt n bad f = \<lparr>s_bytes = arrived_picture l f, s_linesize = l_stride l, s_width = l_width l,
     s_height = l_height l, s_format = fmt, s_timestamp_ns = timestamp_to_ns (sf_ts f),
     s_number = n, s_incomplete = bad\<rparr>"

text \<open>
  Two frames in one: the second where its packet arrived, elsewhere what arrived of the first.
\<close>

definition merged_frame :: "layout \<Rightarrow> st2110rx_pixfmt_t \<Rightarrow> u32 \<Rightarrow> bool \<Rightarrow> sent_frame \<Rightarrow> sent_frame \<Rightarrow> seen_frame" where
  "merged_frame l fmt n bad f g = (shown_frame l fmt n bad g)\<lparr>s_bytes :=
     map (\<lambda>k. if covered (sf_writes l g) k then sf_picture g ! k else arrived_picture l f ! k) [0..<layout_size l]\<rparr>"

text \<open>
  A frame is shown when its marker arrives, or else when the next frame begins; it is
  flagged when a sequence number is missing before or inside it or its marker is. After a
  frame whose marker was lost the sequence is not checked across the boundary: the gap has
  been charged to that frame. If the next frame begins with its marker, which is then all
  of it that arrives, the two are shown as one, and the gap counts. The last frame is not
  shown without its marker.
\<close>

fun shown_stream ::
    "layout \<Rightarrow> st2110rx_pixfmt_t \<Rightarrow> u16 option \<Rightarrow> u32 \<Rightarrow> sent_frame list \<Rightarrow> seen_frame list" where
  "shown_stream l fmt q n [] = []"
| "shown_stream l fmt q n (f # fs) =
     (if sf_marked f
      then shown_frame l fmt n (\<not> consecutive q (sf_seqs f)) f # shown_stream l fmt (Some (last (sf_seqs f))) (n + 1) fs
      else case fs of
             [] \<Rightarrow> []
           | g # gs \<Rightarrow>
               if w_marker (wp_rtp (hd (sf_packets g)))
               then merged_frame l fmt n (\<not> consecutive q (sf_seqs f @ sf_seqs g)) f g
                 # shown_stream l fmt (Some (last (sf_seqs g))) (n + 1) gs
               else shown_frame l fmt n True f # shown_stream l fmt None (n + 1) (g # gs))"

definition stream_packets :: "layout \<Rightarrow> sent_frame list \<Rightarrow> rtp_packet list" where
  "stream_packets l fs = map (wire_decoded l) (concat (map sf_packets fs))"

lemma stream_packets_simps [simp]:
  "stream_packets l [] = []"
  "stream_packets l (f # fs) = map (wire_decoded l) (sf_packets f) @ stream_packets l fs"
  by (simp_all add: stream_packets_def)

lemma decode_stream:
  assumes "wf_arrivals l fs"
  shows "decode_all l (map put_packet (concat (map sf_packets fs))) = stream_packets l fs"
proof -
  have "list_all (wf_packet l) (concat (map sf_packets fs))"
    using assms by (auto simp: wf_arrivals_def wf_sent_def list_all_iff)
  then show ?thesis by (simp add: decode_all_put_packets stream_packets_def)
qed

lemma in_sequence_consecutive:
  "in_sequence p (map (wire_decoded l) ws) = consecutive (map_option fst p) (map (w_seq \<circ> wp_rtp) ws)"
proof (induction ws arbitrary: p)
  case (Cons w ws)
  then show ?case by (cases p) auto
qed simp

lemma wire_writes: "concat (map p_writes (map (wire_decoded l) (sf_packets f))) = sf_writes l f"
  by (simp add: sf_writes_def comp_def)

lemma arrived_picture_eq:
  assumes "wf_sent l f"
  shows "apply_writes (sf_writes l f) (replicate (layout_size l) 0) = arrived_picture l f"
proof (rule nth_equalityI)
  have wf: "writes_from (sf_picture f) (sf_writes l f)" "length (sf_picture f) = layout_size l"
    using assms by (simp_all add: wf_sent_def)
  show "length (apply_writes (sf_writes l f) (replicate (layout_size l) 0)) = length (arrived_picture l f)"
    using writes_from_within [OF wf(1)] wf(2) by (simp add: length_apply_writes arrived_picture_def)
  then show "apply_writes (sf_writes l f) (replicate (layout_size l) 0) ! k = arrived_picture l f ! k"
    if "k < length (apply_writes (sf_writes l f) (replicate (layout_size l) 0))" for k
    using that apply_writes_from_nth [OF wf(1)] wf(2) by (simp add: arrived_picture_def)
qed

text \<open>A frame all of whose packets arrive is shown as it was sent.\<close>

lemma arrived_picture_whole:
  assumes "length (sf_picture f) = layout_size l" and "\<And>k. k < layout_size l \<Longrightarrow> covered (sf_writes l f) k"
  shows "arrived_picture l f = sf_picture f"
  using assms by (intro nth_equalityI) (simp_all add: arrived_picture_def)

section \<open>Between two frames\<close>

lemma spec_run_step:
  "spec_run l fmt (d # ds) s =
     (fst (spec_step l fmt d s) @ fst (spec_run l fmt ds (snd (spec_step l fmt d s))),
      snd (spec_run l fmt ds (snd (spec_step l fmt d s))))"
  by (simp add: case_prod_beta)

lemma fst_spec_run_append:
  "fst (spec_run l fmt (ds @ es) s) =
     fst (spec_run l fmt ds s) @ fst (spec_run l fmt es (snd (spec_run l fmt ds s)))"
  by (simp add: spec_run_append case_prod_beta)

text \<open>Ready for a frame with timestamp \<open>t\<close>: nothing pending, and the picture is black.\<close>

definition ready_for :: "layout \<Rightarrow> u32 \<Rightarrow> spec_state \<Rightarrow> bool" where
  "ready_for l t s \<longleftrightarrow> settled s \<and> \<not> damaged s \<and> picture s = replicate (layout_size l) 0
     \<and> (shown s \<longrightarrow> new_timestamp s t)"

lemma ready_for_init [simp]: "ready_for l t (spec_init (layout_size l))"
  by (simp add: ready_for_def settled_def spec_init_def)

text \<open>The state after a pending picture has been flushed, as if nothing had arrived before.\<close>

definition flushed :: "layout \<Rightarrow> spec_state \<Rightarrow> spec_state" where
  "flushed l s = s\<lparr>picture := replicate (layout_size l) 0, held := picture s, prev := None,
     damaged := False, shown := False, next_number := next_number s + 1, last_bad := True\<rparr>"

lemma flushed_simps [simp]: "prev (flushed l s) = None" "next_number (flushed l s) = next_number s + 1"
  by (simp_all add: flushed_def)

lemma ready_for_flushed [simp]: "ready_for l t (flushed l s)"
  by (simp add: ready_for_def flushed_def settled_def)

lemma spec_step_flushes:
  assumes "new_timestamp s (p_ts d)" and "\<not> shown s" and "\<not> p_marker d"
  shows "spec_step l fmt d s = (spec_frame l fmt (prev_ts s) True s # fst (spec_step l fmt d (flushed l s)),
     snd (spec_step l fmt d (flushed l s)))"
  using assms
  by (auto simp: spec_step_def spec_flush_def spec_frame_def show_picture_def flushed_def new_timestamp_def
      seq_gap_def prev_ts_def Let_def)

lemma spec_run_flushes:
  assumes "ds \<noteq> []" and "new_timestamp s (p_ts (hd ds))" and "\<not> shown s" and "\<not> p_marker (hd ds)"
  shows "fst (spec_run l fmt ds s) = spec_frame l fmt (prev_ts s) True s # fst (spec_run l fmt ds (flushed l s))"
proof -
  obtain d es where ds: "ds = d # es" using assms(1) by (cases ds) auto
  from spec_step_flushes [of s d l fmt] assms show ?thesis by (simp add: ds spec_run_step del: spec_run.simps(2))
qed

text \<open>A frame without its marker stays pending.\<close>

lemma shown_spec_step:
  assumes "\<not> p_marker d" and "shown s \<longrightarrow> new_timestamp s (p_ts d)"
  shows "\<not> shown (snd (spec_step l fmt d s))"
  using assms by (auto simp: spec_step_def spec_flush_def new_timestamp_def show_picture_def Let_def)

lemma shown_spec_run:
  assumes "list_all (\<lambda>d. \<not> p_marker d) ds" and "\<not> shown s"
  shows "\<not> shown (snd (spec_run l fmt ds s))"
  using assms
proof (induction ds arbitrary: s)
  case (Cons d ds)
  then show ?case using shown_spec_step [of d s l fmt] by (simp add: spec_run_step del: spec_run.simps(2))
qed simp

lemma shown_spec_run_body:
  assumes "list_all (\<lambda>d. \<not> p_marker d \<and> p_ts d = t) ds" and "ds \<noteq> []" and "shown s \<longrightarrow> new_timestamp s t"
  shows "\<not> shown (snd (spec_run l fmt ds s))"
proof -
  obtain d es where ds: "ds = d # es" using assms(2) by (cases ds) auto
  then have "\<not> shown (snd (spec_step l fmt d s))" using assms by (intro shown_spec_step) auto
  then show ?thesis
    using shown_spec_run [of es "snd (spec_step l fmt d s)" l fmt] assms(1) ds
    by (simp add: spec_run_step list_all_iff del: spec_run.simps(2))
qed

section \<open>Streams\<close>

lemma wf_sent_unmarked:
  assumes "wf_sent l f" and "\<not> sf_marked f"
  shows "list_all (\<lambda>d. \<not> p_marker d \<and> p_ts d = sf_ts f) (map (wire_decoded l) (sf_packets f))"
proof -
  have "sf_packets f = butlast (sf_packets f) @ [last (sf_packets f)]"
    using assms(1) by (simp add: wf_sent_def)
  moreover have "list_all (\<lambda>w. \<not> w_marker (wp_rtp w)) (butlast (sf_packets f) @ [last (sf_packets f)])"
    unfolding list_all_append using assms by (simp add: wf_sent_def sf_marked_def)
  ultimately have "list_all (\<lambda>w. \<not> w_marker (wp_rtp w)) (sf_packets f)" by simp
  then show ?thesis using assms(1) by (simp add: wf_sent_def list_all_iff)
qed

text \<open>A frame whose marker arrives is shown, and the next one is awaited.\<close>

lemma run_marked_frame:
  assumes "wf_sent l f" and "sf_marked f" and "ready_for l (sf_ts f) s"
  obtains s' where "spec_run l fmt (map (wire_decoded l) (sf_packets f)) s
      = ([shown_frame l fmt (next_number s) (\<not> consecutive (map_option fst (prev s)) (sf_seqs f)) f], s')"
    and "prev s' = Some (last (sf_seqs f), sf_ts f)" and "next_number s' = next_number s + 1"
    and "\<And>t. t \<noteq> sf_ts f \<Longrightarrow> ready_for l t s'"
proof -
  let ?ws = "butlast (sf_packets f)" and ?m = "last (sf_packets f)"
  have ne: "sf_packets f \<noteq> []" and all: "sf_packets f = ?ws @ [?m]" using assms(1) by (simp_all add: wf_sent_def)
  have ts: "w_ts (wp_rtp w) = sf_ts f" if "w \<in> set (sf_packets f)" for w
    using that assms(1) by (simp add: wf_sent_def list_all_iff)
  have body: "list_all (\<lambda>d. \<not> p_marker d \<and> p_ts d = sf_ts f) (map (wire_decoded l) ?ws)"
    using assms(1) in_set_butlastD [of _ "sf_packets f"] by (auto simp: wf_sent_def list_all_iff)
  have m: "p_marker (wire_decoded l ?m)" "p_ts (wire_decoded l ?m) = sf_ts f"
    using assms(2) ts [of ?m] ne by (simp_all add: sf_marked_def)
  have s: "settled s" "\<not> damaged s" "picture s = replicate (layout_size l) 0"
    using assms(3) by (simp_all add: ready_for_def)
  have dec: "map (wire_decoded l) ?ws @ [wire_decoded l ?m] = map (wire_decoded l) (sf_packets f)"
    by (subst (3) all) simp
  have last: "last (sf_seqs f) = w_seq (wp_rtp ?m)" using ne by (simp add: sf_seqs_def last_map)
  have mark: "spec_run l fmt (map (wire_decoded l) (sf_packets f)) s = (out, s') \<Longrightarrow> shown s'" for out s'
    using m(1) unfolding dec [symmetric]
    by (auto simp: spec_run_append spec_step_def spec_flush_def show_picture_def Let_def split: prod.splits)
  obtain s' where s': "spec_run l fmt (map (wire_decoded l) (sf_packets f)) s
      = ([shown_frame l fmt (next_number s) (\<not> consecutive (map_option fst (prev s)) (sf_seqs f)) f], s')"
      "settled s'" "\<not> damaged s'" "picture s' = replicate (layout_size l) 0"
      "prev s' = Some (last (sf_seqs f), sf_ts f)" "next_number s' = next_number s + 1"
    using spec_run_frame [OF body m s(1), of l fmt] s(2)
    unfolding dec wire_writes s(3) arrived_picture_eq [OF assms(1)] last
    by (auto simp: shown_frame_def in_sequence_consecutive sf_seqs_def)
  show ?thesis
    using s' mark [OF s'(1)] by (intro that [OF s'(1,5,6)]) (simp add: ready_for_def new_timestamp_def)
qed

text \<open>A frame whose marker is lost stays pending, with what arrived of it.\<close>

lemma run_pending_frame:
  assumes "wf_sent l f" and "\<not> sf_marked f" and "ready_for l (sf_ts f) s"
  obtains s' where "spec_run l fmt (map (wire_decoded l) (sf_packets f)) s = ([], s')"
    and "picture s' = arrived_picture l f" and "\<not> shown s'" and "next_number s' = next_number s"
    and "prev s' = Some (last (sf_seqs f), sf_ts f)"
    and "damaged s' \<longleftrightarrow> \<not> consecutive (map_option fst (prev s)) (sf_seqs f)"
proof -
  let ?ds = "map (wire_decoded l) (sf_packets f)"
  have ne: "?ds \<noteq> []" using assms(1) by (simp add: wf_sent_def)
  note body = wf_sent_unmarked [OF assms(1,2)]
  have s: "settled s" "\<not> damaged s" "shown s \<longrightarrow> new_timestamp s (sf_ts f)" "picture s = replicate (layout_size l) 0"
    using assms(3) by (simp_all add: ready_for_def)
  obtain s' where s': "spec_run l fmt ?ds s = ([], s')" "picture s' = arrived_picture l f"
      "next_number s' = next_number s" "prev s' = Some (p_seq (last ?ds), sf_ts f)"
      "damaged s' \<longleftrightarrow> \<not> in_sequence (prev s) ?ds"
    using spec_run_body [OF body, of s l fmt] s(1,2) ne
    unfolding wire_writes s(4) arrived_picture_eq [OF assms(1)] by auto
  have "\<not> shown s'" using shown_spec_run_body [OF body ne s(3), of l fmt] s'(1) by simp
  then show ?thesis
    using s' ne by (intro that [OF s'(1)]) (simp_all add: in_sequence_consecutive sf_seqs_def last_map)
qed

text \<open>It is shown when the next frame begins.\<close>

lemma run_unmarked_frame:
  assumes "wf_sent l f" and "\<not> sf_marked f" and "ready_for l (sf_ts f) s"
  obtains s' where "spec_run l fmt (map (wire_decoded l) (sf_packets f)) s = ([], s')"
    and "spec_frame l fmt (prev_ts s') True s' = shown_frame l fmt (next_number s) True f"
    and "\<not> shown s'" and "\<And>t. t \<noteq> sf_ts f \<Longrightarrow> new_timestamp s' t" and "next_number s' = next_number s"
proof (rule run_pending_frame [OF assms, of fmt])
  fix s' assume s': "spec_run l fmt (map (wire_decoded l) (sf_packets f)) s = ([], s')"
    "picture s' = arrived_picture l f" "\<not> shown s'" "next_number s' = next_number s"
    "prev s' = Some (last (sf_seqs f), sf_ts f)"
  show ?thesis
    using s' by (intro that [OF s'(1)]) (simp_all add: spec_frame_def shown_frame_def prev_ts_def new_timestamp_def)
qed

text \<open>A frame that begins with its marker has no other packet.\<close>

lemma marker_first:
  assumes "wf_sent l g" and "w_marker (wp_rtp (hd (sf_packets g)))"
  obtains m where "sf_packets g = [m]" and "sf_marked g"
proof (cases "sf_packets g")
  case (Cons m ms)
  then have "ms = []" using assms by (cases ms) (auto simp: wf_sent_def)
  then show ?thesis using that Cons assms(2) by (simp add: sf_marked_def)
qed (use assms(1) in \<open>simp add: wf_sent_def\<close>)

text \<open>
  When of the next frame only the marker packet arrives, the frame before is not shown, and
  its bytes stay in the picture of the new one.
\<close>

lemma run_merged_frames:
  assumes "wf_sent l f" and "wf_sent l g" and "\<not> sf_marked f" and "sf_packets g = [m]" and "sf_marked g"
    and "ready_for l (sf_ts f) s"
  obtains s' where "spec_run l fmt (map (wire_decoded l) (sf_packets f @ sf_packets g)) s =
      ([merged_frame l fmt (next_number s) (\<not> consecutive (map_option fst (prev s)) (sf_seqs f @ sf_seqs g)) f g], s')"
    and "prev s' = Some (last (sf_seqs g), sf_ts g)" and "next_number s' = next_number s + 1"
    and "\<And>t. t \<noteq> sf_ts g \<Longrightarrow> ready_for l t s'"
proof (rule run_pending_frame [OF assms(1,3,6), of fmt])
  fix s1 assume s1: "spec_run l fmt (map (wire_decoded l) (sf_packets f)) s = ([], s1)"
    "picture s1 = arrived_picture l f" "\<not> shown s1" "next_number s1 = next_number s"
    "prev s1 = Some (last (sf_seqs f), sf_ts f)"
    "damaged s1 \<longleftrightarrow> \<not> consecutive (map_option fst (prev s)) (sf_seqs f)"
  let ?d = "wire_decoded l m"
  have m: "p_marker ?d" "p_ts ?d = sf_ts g" "sf_writes l g = p_writes ?d" "sf_seqs g = [p_seq ?d]"
    using assms(2,4,5) by (simp_all add: sf_marked_def wf_sent_def sf_writes_def sf_seqs_def)
  have f: "sf_seqs f \<noteq> []" using assms(1) by (simp add: wf_sent_def sf_seqs_def)
  have g: "writes_from (sf_picture g) (p_writes ?d)" "length (sf_picture g) = layout_size l"
    using assms(2) m(3) by (simp_all add: wf_sent_def)
  have pic: "apply_writes (p_writes ?d) (arrived_picture l f)
      = map (\<lambda>k. if covered (p_writes ?d) k then sf_picture g ! k else arrived_picture l f ! k) [0..<layout_size l]"
    using apply_writes_from_nth [OF g(1)] writes_from_within [OF g(1)] g(2)
    by (intro nth_equalityI) (simp_all add: length_apply_writes arrived_picture_def)
  have gap: "seq_gap s1 (p_seq ?d) \<noteq> 0 \<longleftrightarrow> p_seq ?d \<noteq> last (sf_seqs f) + 1"
    using s1(5) by (auto simp: seq_gap_def)
  obtain s2 where s2: "spec_step l fmt ?d s1 =
      ([merged_frame l fmt (next_number s) (\<not> consecutive (map_option fst (prev s)) (sf_seqs f @ sf_seqs g)) f g], s2)"
      "shown s2" "\<not> damaged s2" "picture s2 = replicate (layout_size l) 0"
      "prev s2 = Some (p_seq ?d, p_ts ?d)" "next_number s2 = next_number s1 + 1"
    using spec_step_marker [OF m(1), of l fmt s1] s1 m f pic gap
    by (auto simp: merged_frame_def shown_frame_def consecutive_append)
  have "spec_run l fmt (map (wire_decoded l) (sf_packets f @ sf_packets g)) s = (fst (spec_step l fmt ?d s1), s2)"
    using s1(1) s2(1) by (simp add: spec_run_append assms(4))
  then show ?thesis
    using s2 s1(4) m by (intro that [of s2]) (simp_all add: ready_for_def settled_def new_timestamp_def)
qed

lemma spec_run_stream:
  assumes "wf_arrivals l fs" and "fs \<noteq> [] \<longrightarrow> ready_for l (sf_ts (hd fs)) s"
  shows "fst (spec_run l fmt (stream_packets l fs) s) = shown_stream l fmt (map_option fst (prev s)) (next_number s) fs"
  using assms
proof (induction "length fs" arbitrary: fs s rule: less_induct)
  case less
  show ?case
  proof (cases fs)
    case (Cons f fs')
    have f: "wf_sent l f" "fs' = [] \<or> sf_ts (hd fs') \<noteq> sf_ts f" and fs': "wf_arrivals l fs'"
      using less.prems(1) by (simp_all add: Cons wf_arrivals_Cons)
    have ready: "ready_for l (sf_ts f) s" using less.prems(2) by (simp add: Cons)
    have IH: "length gs < length fs \<Longrightarrow> wf_arrivals l gs \<Longrightarrow> gs \<noteq> [] \<longrightarrow> ready_for l (sf_ts (hd gs)) s'
        \<Longrightarrow> fst (spec_run l fmt (stream_packets l gs) s') = shown_stream l fmt (map_option fst (prev s')) (next_number s') gs"
      for gs s' by (rule less.hyps)
    consider (marked) "sf_marked f" | (last) "\<not> sf_marked f" "fs' = []"
      | (merged) g gs where "\<not> sf_marked f" "fs' = g # gs" "w_marker (wp_rtp (hd (sf_packets g)))"
      | (flushed) g gs where "\<not> sf_marked f" "fs' = g # gs" "\<not> w_marker (wp_rtp (hd (sf_packets g)))"
      by (cases fs') auto
    then show ?thesis
    proof cases
      case marked
      obtain s' where s': "spec_run l fmt (map (wire_decoded l) (sf_packets f)) s
          = ([shown_frame l fmt (next_number s) (\<not> consecutive (map_option fst (prev s)) (sf_seqs f)) f], s')"
        "prev s' = Some (last (sf_seqs f), sf_ts f)" "next_number s' = next_number s + 1"
        "\<And>t. t \<noteq> sf_ts f \<Longrightarrow> ready_for l t s'"
        using run_marked_frame [OF f(1) marked ready, of fmt] by metis
      then show ?thesis using IH [of fs' s'] fs' f(2) marked by (auto simp: Cons fst_spec_run_append)
    next
      case last
      obtain s' where "spec_run l fmt (map (wire_decoded l) (sf_packets f)) s = ([], s')"
        using run_pending_frame [OF f(1) last(1) ready, of fmt] by blast
      then show ?thesis using last by (simp add: Cons)
    next
      case (merged g gs)
      have g: "wf_sent l g" "gs = [] \<or> sf_ts (hd gs) \<noteq> sf_ts g" "wf_arrivals l gs"
        using fs' by (simp_all add: merged(2) wf_arrivals_Cons)
      obtain m where m: "sf_packets g = [m]" "sf_marked g" using marker_first [OF g(1) merged(3)] by metis
      obtain s' where s': "spec_run l fmt (map (wire_decoded l) (sf_packets f @ sf_packets g)) s =
          ([merged_frame l fmt (next_number s) (\<not> consecutive (map_option fst (prev s)) (sf_seqs f @ sf_seqs g)) f g], s')"
        "prev s' = Some (last (sf_seqs g), sf_ts g)" "next_number s' = next_number s + 1"
        "\<And>t. t \<noteq> sf_ts g \<Longrightarrow> ready_for l t s'"
        using run_merged_frames [OF f(1) g(1) merged(1) m ready, of fmt] by metis
      have "stream_packets l fs = map (wire_decoded l) (sf_packets f @ sf_packets g) @ stream_packets l gs"
        by (simp add: Cons merged(2))
      then have "fst (spec_run l fmt (stream_packets l fs) s) =
          merged_frame l fmt (next_number s) (\<not> consecutive (map_option fst (prev s)) (sf_seqs f @ sf_seqs g)) f g
          # fst (spec_run l fmt (stream_packets l gs) s')"
        using s'(1) by (simp only: fst_spec_run_append fst_conv snd_conv append.simps)
      moreover have "fst (spec_run l fmt (stream_packets l gs) s')
          = shown_stream l fmt (Some (last (sf_seqs g))) (next_number s + 1) gs"
        using IH [of gs s'] g s'(2-4) by (auto simp: Cons merged(2))
      ultimately show ?thesis using merged by (simp add: Cons)
    next
      case (flushed g gs)
      obtain s' where s': "spec_run l fmt (map (wire_decoded l) (sf_packets f)) s = ([], s')"
        "spec_frame l fmt (prev_ts s') True s' = shown_frame l fmt (next_number s) True f"
        "\<not> shown s'" "\<And>t. t \<noteq> sf_ts f \<Longrightarrow> new_timestamp s' t" "next_number s' = next_number s"
        using run_unmarked_frame [OF f(1) flushed(1) ready, of fmt] by metis
      have ne: "sf_packets g \<noteq> []" and "w_ts (wp_rtp (hd (sf_packets g))) = sf_ts g"
        using fs' hd_in_set [of "sf_packets g"] by (auto simp: flushed(2) wf_arrivals_def wf_sent_def list_all_iff)
      then have hd: "stream_packets l fs' \<noteq> []" "p_ts (hd (stream_packets l fs')) = sf_ts g"
          "\<not> p_marker (hd (stream_packets l fs'))" "sf_ts g \<noteq> sf_ts f"
        using f(2) flushed by (auto simp: hd_map)
      note run = spec_run_flushes [OF hd(1), of s' l fmt, unfolded hd(2), OF s'(4) [OF hd(4)] s'(3) hd(3)]
      have "fst (spec_run l fmt (stream_packets l fs') (flushed l s')) = shown_stream l fmt None (next_number s + 1) fs'"
        using IH [of fs' "flushed l s'"] fs' by (simp add: Cons s'(5))
      moreover have "shown_stream l fmt q n fs = shown_frame l fmt n True f # shown_stream l fmt None (n + 1) fs'" for q n
        unfolding Cons flushed(2) by (subst shown_stream.simps(2)) (simp only: flushed(1,3) if_False list.case)
      moreover have "fst (spec_run l fmt (stream_packets l fs) s) = fst (spec_run l fmt (stream_packets l fs') s')"
        by (simp add: Cons s'(1) fst_spec_run_append)
      ultimately show ?thesis using run s'(2) by (simp only:)
    qed
  qed simp
qed

lemma asm_abs_number: "next_number (asm_abs a h) = frame_number a"
  by (simp add: asm_abs_def)

text \<open>The assembler shows what the specification makes of the packets.\<close>

lemma process_wire:
  fixes a :: rx_frame_assembler_t
  defines "l \<equiv> layout_of a"
  assumes log: "frame_log cb ok own accepts seen_by observe" and inv: "sink_inv ok own accepts fmt a h"
    and wf: "list_all (wf_packet l) ws" and out: "fst (spec_run l fmt (map (wire_decoded l) ws) (asm_abs a h)) = out"
  shows "\<exists>a' h' lost'. process_packets cb fmt (map put_packet ws) a h lost = Some (length out, a', h', lost')
    \<and> seen_by h' = seen_by h @ concat (map observe out) \<and> sink_inv ok own accepts fmt a' h' \<and> layout_of a' = l"
  using frame_log.process_packets_spec [OF log inv, of "map put_packet ws" lost] out
  unfolding l_def [symmetric] decode_all_put_packets [OF wf] by auto

lemma process_stream:
  fixes a :: rx_frame_assembler_t
  defines "l \<equiv> layout_of a"
  assumes log: "frame_log cb ok own accepts seen_by observe" and inv: "sink_inv ok own accepts fmt a h"
    and wf: "wf_arrivals l fs" and ready: "fs \<noteq> [] \<longrightarrow> ready_for l (sf_ts (hd fs)) (asm_abs a h)"
  shows "\<exists>a' h' lost'. process_packets cb fmt (map put_packet (concat (map sf_packets fs))) a h lost
      = Some (length (shown_stream l fmt (map_option fst (prev (asm_abs a h))) (frame_number a) fs), a', h', lost')
    \<and> seen_by h' = seen_by h
        @ concat (map observe (shown_stream l fmt (map_option fst (prev (asm_abs a h))) (frame_number a) fs))
    \<and> sink_inv ok own accepts fmt a' h' \<and> layout_of a' = l"
proof -
  have "next_number (asm_abs a h) = frame_number a" by (simp add: asm_abs_def)
  note spec = spec_run_stream [OF wf ready, of fmt, unfolded this stream_packets_def]
  have "list_all (wf_packet l) (concat (map sf_packets fs))"
    using wf by (auto simp: wf_arrivals_def wf_sent_def list_all_iff)
  then show ?thesis unfolding l_def by (rule process_wire [OF log inv _ spec [unfolded l_def]])
qed

section \<open>Streams without losses, and a burst of losses\<close>

text \<open>Everything of the frame arrives, the marker last.\<close>

definition whole :: "layout \<Rightarrow> sent_frame \<Rightarrow> bool" where
  "whole l f \<longleftrightarrow> sf_marked f \<and> (\<forall>k < layout_size l. covered (sf_writes l f) k)"

definition sent_view :: "layout \<Rightarrow> st2110rx_pixfmt_t \<Rightarrow> u32 \<Rightarrow> sent_frame \<Rightarrow> seen_frame" where
  "sent_view l fmt n f = \<lparr>s_bytes = sf_picture f, s_linesize = l_stride l, s_width = l_width l,
     s_height = l_height l, s_format = fmt, s_timestamp_ns = timestamp_to_ns (sf_ts f),
     s_number = n, s_incomplete = False\<rparr>"

fun sent_views :: "layout \<Rightarrow> st2110rx_pixfmt_t \<Rightarrow> u32 \<Rightarrow> sent_frame list \<Rightarrow> seen_frame list" where
  "sent_views l fmt n [] = []"
| "sent_views l fmt n (f # fs) = sent_view l fmt n f # sent_views l fmt (n + 1) fs"

lemma shown_stream_whole:
  assumes "wf_stream l fs" and "list_all (whole l) fs" and "consecutive q (concat (map sf_seqs fs))"
  shows "shown_stream l fmt q n fs = sent_views l fmt n fs"
  using assms
proof (induction fs arbitrary: q n)
  case (Cons f fs)
  have f: "wf_sent l f" "sf_marked f" "\<And>k. k < layout_size l \<Longrightarrow> covered (sf_writes l f) k"
    using Cons.prems by (simp_all add: wf_stream_Cons whole_def)
  then have "sf_seqs f \<noteq> []" "length (sf_picture f) = layout_size l" by (simp_all add: wf_sent_def sf_seqs_def)
  then have q: "consecutive q (sf_seqs f)" "consecutive (Some (last (sf_seqs f))) (concat (map sf_seqs fs))"
    and pic: "arrived_picture l f = sf_picture f"
    using Cons.prems(3) f(3) by (simp_all add: consecutive_append arrived_picture_whole)
  then show ?case
    using Cons.IH [OF _ _ q(2)] Cons.prems(1,2) f(2) by (simp add: wf_stream_Cons shown_frame_def sent_view_def)
qed simp

text \<open>
  A burst that takes the marker of one frame and the first packets of the next: the gap is
  charged to the frame whose marker is lost, and the next one is shown as complete.
\<close>

lemma shown_stream_burst:
  assumes "wf_stream l [f, g]" and "\<not> sf_marked f" and "sf_marked g" and "consecutive None (sf_seqs g)"
  shows "shown_stream l fmt q n [f, g] = [shown_frame l fmt n True f, shown_frame l fmt (n + 1) False g]"
  using assms by (simp add: wf_stream_def apart_def)

end
