(* ===== verification/Assembler_Props.thy ===== *)
theory Assembler_Props
  imports Rx_Stream
begin

text \<open>
  What \<open>rx_rfc4175.c\<close> guarantees, one property per theorem: the parsers, single packets,
  streams of packets, creation and disposal. The witnesses run on a picture of 2 by 1
  pixels, 5 bytes in the 10-bit wire format.
\<close>

section \<open>A small picture\<close>

definition demo_heap :: "byte list \<Rightarrow> byte list \<Rightarrow> recorder" where
  "demo_heap f d = \<lparr>blocks = [0 \<mapsto> f, 1 \<mapsto> d], next_blk = 2, oom = (\<lambda>_. False), junk = (\<lambda>_ _. 0xCD), seen = []\<rparr>"

definition demo_asm :: rx_frame_assembler_t where
  "demo_asm = fresh_assembler 2 1 5 (Some 0) (Some 1)"

abbreviation demo_h :: recorder where
  "demo_h \<equiv> demo_heap (replicate 5 0) (replicate 5 0)"

definition demo_rtp :: "u16 \<Rightarrow> bool \<Rightarrow> rtp_wire" where
  "demo_rtp seq m = \<lparr>w_marker = m, w_ptype = 96, w_seq = seq, w_ts = 90000, w_ssrc = 7,
     w_csrcs = [], w_ext = None\<rparr>"

definition demo_packet :: "u16 \<Rightarrow> bool \<Rightarrow> byte list \<Rightarrow> wire_packet" where
  "demo_packet seq m bs = \<lparr>wp_rtp = demo_rtp seq m, wp_ext_seq = 0,
     wp_segs = [(\<lparr>line_no = 0, pixel_offset = 0, seg_length = of_nat (length bs)\<rparr>, bs)]\<rparr>"

lemma demo_inv: "asm_inv demo_asm demo_h" "asm_abs demo_asm demo_h = spec_init 5"
proof -
  note new = fresh_assembler_inv [where fmt = ST2110RX_FMT_YCBCR422_10BIT and width = 2 and height = 1 and pg = 5
      and p = "Some 0" and q = "Some 1" and h = demo_h]
  have pre: "supported 2 1 ST2110RX_FMT_YCBCR422_10BIT" "pgroup_of_fmt ST2110RX_FMT_YCBCR422_10BIT = Some 5"
      "init_size 2 1 5 = 5" "contents demo_h (Some 0) = Some (replicate 5 0)" "contents demo_h (Some 1) = Some (replicate 5 0)"
    by (simp_all add: supported_def pgroup_of_fmt_def pgroup_defs init_size_def contents_def demo_heap_def)
  show "asm_inv demo_asm demo_h" "asm_abs demo_asm demo_h = spec_init 5"
    unfolding demo_asm_def using new pre by simp_all
qed

lemma demo_seen: "seen demo_h = []"
  by (simp add: demo_heap_def)

lemma demo_heap_wf: "heap_wf demo_h" "\<not> oom demo_h n"
  by (simp_all add: heap_wf_def demo_heap_def)

lemma demo_layout: "layout_of demo_asm = \<lparr>l_stride = 5, l_width = 2, l_height = 1, l_pgroup = 5, l_ppg = 2\<rparr>"
  by (simp add: demo_asm_def fresh_assembler_def layout_of_def pgroup_defs)

lemma demo_sink_inv: "sink_inv (\<lambda>_. True) {} (\<lambda>_. True) fmt demo_asm demo_h"
  by (simp add: sink_inv_def demo_inv)

lemma demo_packet_wf: "length bs = 5 \<Longrightarrow> wf_packet (layout_of demo_asm) (demo_packet seq m bs)"
  by (simp add: demo_layout wf_packet_def demo_packet_def demo_rtp_def wf_rtp_def wf_payload_def wf_segment_def
      seg_dst_def layout_size_def MAX_SEGMENTS_def)

lemma demo_packet_writes: "length bs = 5 \<Longrightarrow> packet_writes (layout_of demo_asm) (demo_packet seq m bs) = [(0, bs)]"
  by (simp add: packet_writes_def demo_packet_def seg_dst_def demo_layout)

section \<open>Parsers\<close>

text \<open>Parsing an RTP header as RFC 3550 lays it out (marker, up to 15
  contributing sources, an extension of any length) gives the payload offset just after
  it, and the sequence number, timestamp and marker that were written.\<close>

lemma rtp_header_roundtrip:
  assumes "wf_rtp w"
  shows "parse_rtp_header (put_rtp_header w @ payload)
    = Some (Some (length (put_rtp_header w), w_seq w, w_ts w, w_marker w))"
  by (rule parse_put_rtp_header [OF assms])

lemma rtp_header_roundtrip_witness:
  "parse_rtp_header (put_rtp_header \<lparr>w_marker = True, w_ptype = 96, w_seq = 65535, w_ts = 90000, w_ssrc = 7,
       w_csrcs = [1, 2], w_ext = Some (0xBEDE, [3])\<rparr> @ [42]) = Some (Some (28, 65535, 90000, True))"
  by (subst rtp_header_roundtrip) (simp_all add: wf_rtp_def length_put_rtp_header)

text \<open>C29: the line headers of a packet, up to eight, are read back as they were
  written, with all three fields of each, and the read position ends just after the last
  one; the continuation bits on the wire decide where they end.\<close>

lemma line_headers_roundtrip:
  assumes "ss \<noteq> []" and "length ss \<le> MAX_SEGMENTS" and "list_all wf_segment ss"
  shows "parse_line_headers (hdr @ put_line_headers ss @ payloads) (length hdr)
      (length (hdr @ put_line_headers ss @ payloads)) [] = Some (ss, length hdr + 6 * length ss)"
  using parse_put_line_headers [of ss "[]" "length hdr" hdr _ payloads] assms by simp

lemma line_headers_roundtrip_witness:
  "parse_line_headers ([9] @ put_line_headers [\<lparr>line_no = 1, pixel_offset = 1918, seg_length = 5\<rparr>,
       \<lparr>line_no = 2, pixel_offset = 0, seg_length = 10\<rparr>] @ [7]) 1 14 []
   = Some ([\<lparr>line_no = 1, pixel_offset = 1918, seg_length = 5\<rparr>, \<lparr>line_no = 2, pixel_offset = 0, seg_length = 10\<rparr>], 13)"
  using line_headers_roundtrip [of "[\<lparr>line_no = 1, pixel_offset = 1918, seg_length = 5\<rparr>,
       \<lparr>line_no = 2, pixel_offset = 0, seg_length = 10\<rparr>]" "[9]" "[7]"]
  by (simp add: wf_segment_def MAX_SEGMENTS_def)

section \<open>One packet\<close>

text \<open>C1: on any bytes at all, the assembler neither reads nor writes out of
  bounds, keeps its invariant, and does what the specification does with the same packet:
  the number of frames it reports, the state it is left in, the frames its callback has
  seen and the loss it counts are those of the specification. The callback is any one
  that meets the contract.\<close>

lemma packet_refines_spec:
  assumes "frame_log cb ok own accepts seen_by observe" and "sink_inv ok own accepts fmt a h"
  shows "\<exists>a' h'. rx_assembler_process_packet cb fmt pkt a h lost =
        Some (length (fst (spec_packet (layout_of a) fmt pkt (asm_abs a h))), a', h',
              map_option (\<lambda>n. n + ucast (packet_gap (layout_of a) pkt (asm_abs a h))) lost)
    \<and> sink_inv ok own accepts fmt a' h' \<and> layout_of a' = layout_of a
    \<and> asm_abs a' h' = snd (spec_packet (layout_of a) fmt pkt (asm_abs a h))
    \<and> seen_by h' = seen_by h @ concat (map observe (fst (spec_packet (layout_of a) fmt pkt (asm_abs a h))))"
  by (rule frame_log.process_packet_spec [OF assms]) blast

lemma packet_refines_spec_witness:
  "\<exists>a' h'. rx_assembler_process_packet record_cb ST2110RX_FMT_YCBCR422_10BIT
      (put_packet (demo_packet 7 True [1, 2, 3, 4, 5])) demo_asm demo_h (Some 3) = Some (1, a', h', Some 3)
    \<and> map s_bytes (seen h') = [[1, 2, 3, 4, 5]]"
proof -
  let ?pkt = "put_packet (demo_packet 7 True [1, 2, 3, 4, 5])" and ?l = "layout_of demo_asm"
  have dec: "decode_packet ?l ?pkt = Some \<lparr>p_seq = 7, p_ts = 90000, p_marker = True, p_writes = [(0, [1, 2, 3, 4, 5])]\<rparr>"
    using decode_put_packet [OF demo_packet_wf, of "[1, 2, 3, 4, 5]" 7 True]
    by (simp add: demo_packet_writes) (simp add: demo_packet_def demo_rtp_def)
  have gap: "packet_gap ?l ?pkt (spec_init 5) = 0"
    by (simp add: packet_gap_def dec seq_gap_def spec_init_def)
  have out: "map s_bytes (fst (spec_packet ?l fmt ?pkt (spec_init 5))) = [[1, 2, 3, 4, 5]]" for fmt
    by (simp add: spec_packet_def dec spec_step_def spec_flush_def new_timestamp_def spec_init_def spec_frame_def blit_def)
  then have n: "length (fst (spec_packet ?l fmt ?pkt (spec_init 5))) = 1" for fmt
    by (metis length_map length_Cons list.size(3) One_nat_def)
  show ?thesis
    using packet_refines_spec [OF rec.frame_log_axioms demo_sink_inv [of ST2110RX_FMT_YCBCR422_10BIT],
        where pkt = ?pkt and lost = "Some 3"] out n
    by (auto simp: demo_inv(2) gap demo_seen concat_map_singleton)
qed

text \<open>A packet too short for its RTP header, its extension or the extended
  sequence number is ignored: no frame, and neither the assembler, nor any buffer, nor
  the loss counter changes, whatever state they are in.\<close>

lemma rejected_packet_unchanged:
  assumes "parse_rtp_header pkt = Some None
    \<or> (\<exists>off seq ts m. parse_rtp_header pkt = Some (Some (off, seq, ts, m)) \<and> length pkt < off + 2)"
  shows "rx_assembler_process_packet cb fmt pkt a h lost = Some (0, a, h, lost)"
  using assms by (auto simp: rx_assembler_process_packet_def Let_def)

lemma rejected_packet_unchanged_witness:
  "rx_assembler_process_packet record_cb ST2110RX_FMT_UYVY [0x80, 96, 0, 1] demo_asm demo_h None
     = Some (0, demo_asm, demo_h, None)"
  by (rule rejected_packet_unchanged) (simp add: parse_rtp_header_def)

text \<open>A packet completes at most one frame, for any callback and from any state:
  a marker packet that also starts a new timestamp does not deliver twice.\<close>

lemma one_frame_per_packet:
  assumes "rx_assembler_process_packet cb fmt pkt a h lost = Some (n, a', h', lost')"
  shows "n \<le> 1"
proof -
  have "k = 0" if "end_unmarked_frame cb fmt ts True b g = Some (k, b', g')" for k ts b g b' g'
    using that by (auto simp: end_unmarked_frame_def split: bind_splits if_splits)
  moreover have "k \<le> 1" if "end_unmarked_frame cb fmt ts m b g = Some (k, b', g')" for k ts m b g b' g'
    using that by (auto simp: end_unmarked_frame_def split: bind_splits if_splits)
  ultimately show ?thesis
    using assms
    by (fastforce simp: rx_assembler_process_packet_def Let_def split: bind_splits option.splits if_splits prod.splits)
qed

lemma one_frame_per_packet_witness: "\<exists>n. rx_assembler_process_packet record_cb ST2110RX_FMT_UYVY [0x80, 96] demo_asm demo_h None
    = Some (n, demo_asm, demo_h, None) \<and> n \<le> 1"
  using one_frame_per_packet [of record_cb ST2110RX_FMT_UYVY "[0x80, 96]" demo_asm demo_h None 0 demo_asm demo_h None]
  by (simp add: rx_assembler_process_packet_def parse_rtp_header_def)

text \<open>The nanosecond timestamp of a frame is that of its RTP timestamp on the 90 kHz
  clock, rounded down: the 64-bit product never wraps.\<close>

lemma timestamp_ns_exact: "unat (timestamp_to_ns ts) = unat ts * 1000000000 div 90000"
proof -
  have "unat (ucast ts :: u64) = unat ts"
    using unat_u32_less [of ts] by (simp add: unsigned_ucast_eq take_bit_nat_eq_self)
  then have "unat (ucast ts * 1000000000 :: u64) = unat ts * 1000000000"
    using unat_u32_less [of ts] by (simp add: unat_word_ariths)
  then show ?thesis by (simp add: timestamp_to_ns_def unat_div)
qed

section \<open>Streams of packets\<close>

text \<open>The packets of a frame, put on the wire as RFC 4175 lays them out and taking
  their payloads from a picture \<open>P\<close> they cover, make exactly one frame, with the bytes of
  \<open>P\<close>, its dimensions and its timestamp, in whatever order they arrive as long as the
  marker packet is last; it is flagged incomplete exactly when a packet was out of
  sequence. The assembler is ready for the next frame.\<close>

lemma frame_on_wire:
  fixes a :: rx_frame_assembler_t
  defines "l \<equiv> layout_of a"
  assumes log: "frame_log cb ok own accepts seen_by observe" and inv: "sink_inv ok own accepts fmt a h"
    and idle: "settled (asm_abs a h)"
    and body: "list_all (\<lambda>w. wf_packet l w \<and> \<not> w_marker (wp_rtp w) \<and> w_ts (wp_rtp w) = t) ws"
    and last: "wf_packet l m" "w_marker (wp_rtp m)" "w_ts (wp_rtp m) = t"
    and picture: "length P = layout_size l" "writes_from P (concat (map (packet_writes l) (ws @ [m])))"
      "\<And>k. k < length P \<Longrightarrow> covered (concat (map (packet_writes l) (ws @ [m]))) k"
  shows "\<exists>a' h' lost' bad. process_packets cb fmt (map put_packet (ws @ [m])) a h lost = Some (1, a', h', lost')
    \<and> seen_by h' = seen_by h @ observe \<lparr>s_bytes = P, s_linesize = l_stride l, s_width = l_width l,
        s_height = l_height l, s_format = fmt, s_timestamp_ns = timestamp_to_ns t,
        s_number = frame_number a, s_incomplete = bad\<rparr>
    \<and> (bad \<longleftrightarrow> frame_incomplete a
        \<or> \<not> in_sequence (prev (asm_abs a h)) (decode_all l (map put_packet (ws @ [m]))))
    \<and> sink_inv ok own accepts fmt a' h' \<and> layout_of a' = l \<and> settled (asm_abs a' h')
    \<and> frame_number a' = frame_number a + 1 \<and> \<not> frame_incomplete a'"
proof -
  let ?dec = "wire_decoded l"
  have wf: "list_all (wf_packet l) (ws @ [m])" using body last by (auto simp: list_all_iff)
  have ds: "decode_all l (map put_packet (ws @ [m])) = map ?dec ws @ [?dec m]"
    using decode_all_put_packets [OF wf] by simp
  have pic: "apply_writes (concat (map p_writes (map ?dec ws @ [?dec m]))) (picture (asm_abs a h)) = P"
  proof (rule apply_writes_whole)
    have "concat (map p_writes (map ?dec ws @ [?dec m])) = concat (map (packet_writes l) (ws @ [m]))"
      by (simp add: comp_def)
    then show "writes_from P (concat (map p_writes (map ?dec ws @ [?dec m])))"
      "\<And>k. k < length P \<Longrightarrow> covered (concat (map p_writes (map ?dec ws @ [?dec m]))) k"
      using picture(2,3) by simp_all
    show "length (picture (asm_abs a h)) = length P"
      using inv picture(1) by (auto simp: sink_inv_def asm_inv_def asm_buffers_def asm_abs_def l_def)
  qed
  have body': "list_all (\<lambda>d. \<not> p_marker d \<and> p_ts d = t) (map ?dec ws)" "p_marker (?dec m)" "p_ts (?dec m) = t"
    using body last by (auto simp: list_all_iff)
  obtain s' where s': "spec_run l fmt (map ?dec ws @ [?dec m]) (asm_abs a h) =
      ([\<lparr>s_bytes = P, s_linesize = l_stride l, s_width = l_width l, s_height = l_height l, s_format = fmt,
         s_timestamp_ns = timestamp_to_ns t, s_number = next_number (asm_abs a h),
         s_incomplete = (damaged (asm_abs a h) \<or> \<not> in_sequence (prev (asm_abs a h)) (map ?dec ws @ [?dec m]))\<rparr>], s')"
      "settled s'" "\<not> damaged s'" "next_number s' = next_number (asm_abs a h) + 1"
    using spec_run_frame [OF body' idle, of l fmt] unfolding pic by blast
  obtain a' h' where run: "process_packets cb fmt (map put_packet (ws @ [m])) a h lost =
        Some (1, a', h', map_option (\<lambda>n. n + gap_total (asm_abs a h) (map ?dec ws @ [?dec m])) lost)"
      "sink_inv ok own accepts fmt a' h'" "layout_of a' = l" "asm_abs a' h' = s'"
      "seen_by h' = seen_by h @ observe \<lparr>s_bytes = P, s_linesize = l_stride l, s_width = l_width l,
        s_height = l_height l, s_format = fmt, s_timestamp_ns = timestamp_to_ns t, s_number = next_number (asm_abs a h),
        s_incomplete = (damaged (asm_abs a h) \<or> \<not> in_sequence (prev (asm_abs a h)) (map ?dec ws @ [?dec m]))\<rparr>"
    using frame_log.process_packets_spec [OF log inv, of "map put_packet (ws @ [m])" lost]
    unfolding l_def [symmetric] ds s'(1) by auto
  have "next_number s' = frame_number a'" "damaged s' = frame_incomplete a'"
    "next_number (asm_abs a h) = frame_number a" "damaged (asm_abs a h) = frame_incomplete a"
    unfolding run(4) [symmetric] by (simp_all add: asm_abs_def)
  then show ?thesis
    using run s' unfolding ds by auto
qed

lemma frame_on_wire_witness:
  "\<exists>a' h' bad. process_packets record_cb ST2110RX_FMT_YCBCR422_10BIT
      [put_packet (demo_packet 6 False [9, 8, 7, 6, 5]), put_packet (demo_packet 7 True [9, 8, 7, 6, 5])]
      demo_asm demo_h (Some 0) = Some (1, a', h', bad) \<and> map s_bytes (seen h') = [[9, 8, 7, 6, 5]]"
proof -
  have "covered [(0, [9, 8, 7, 6, 5]), (0, [9, 8, 7, 6, 5 :: byte])] k" if "k < 5" for k
    using that by (simp add: covered_def)
  then show ?thesis
    using frame_on_wire [OF rec.frame_log_axioms demo_sink_inv [of ST2110RX_FMT_YCBCR422_10BIT],
        where ws = "[demo_packet 6 False [9, 8, 7, 6, 5]]" and m = "demo_packet 7 True [9, 8, 7, 6, 5]"
        and t = 90000 and P = "[9, 8, 7, 6, 5]" and lost = "Some 0"]
    by (simp add: demo_packet_wf demo_packet_writes demo_inv settled_def spec_init_def writes_from_def)
      (auto simp: demo_packet_def demo_rtp_def demo_heap_def demo_asm_def fresh_assembler_def zero_assembler_def
        layout_size_def pgroup_defs buf_size_def)
qed

text \<open>C10: any stream with losses in which consecutive frames have different timestamps. Of
  each frame any of its packets arrive (frames of which nothing does are left out), in any
  order with the marker last if it arrives at all. What the callback sees is exactly
  \<open>shown_stream\<close>, numbered in order: a frame whose marker arrives is shown then, and flagged
  exactly when a sequence number is missing inside it or between it and the frame before,
  if that one had its marker; a frame whose marker is lost is shown, flagged, when the next
  one begins with another packet than its marker; if the next one begins with its marker,
  the two are shown as one frame, flagged when a sequence number is missing; and a last
  frame without its marker is not shown. In each, the bytes are those of the sent picture
  where a packet arrived, and black elsewhere (in two frames shown as one, those of the
  first). So a gap after a frame whose marker was lost is not flagged on the frame after
  it (\<open>burst_loss_unnoticed\<close>), and a frame can vanish in the next one (\<open>pictures_merged\<close>).
  The assembler never leaves its invariant.\<close>

lemma stream_on_wire:
  fixes a :: rx_frame_assembler_t
  defines "l \<equiv> layout_of a"
  assumes log: "frame_log cb ok own accepts seen_by observe" and inv: "sink_inv ok own accepts fmt a h"
    and wf: "wf_arrivals l fs" and ready: "fs \<noteq> [] \<longrightarrow> ready_for l (sf_ts (hd fs)) (asm_abs a h)"
  shows "\<exists>a' h' lost'. process_packets cb fmt (map put_packet (concat (map sf_packets fs))) a h lost
      = Some (length (shown_stream l fmt (map_option fst (prev (asm_abs a h))) (frame_number a) fs), a', h', lost')
    \<and> seen_by h' = seen_by h
        @ concat (map observe (shown_stream l fmt (map_option fst (prev (asm_abs a h))) (frame_number a) fs))
    \<and> sink_inv ok own accepts fmt a' h' \<and> layout_of a' = l"
  unfolding l_def by (rule process_stream [OF log inv wf [unfolded l_def] ready [unfolded l_def]])

text \<open>A picture of 4 by 1 pixels, ten bytes, for the witnesses that lose half of one.\<close>

definition demo_wide :: rx_frame_assembler_t where
  "demo_wide = fresh_assembler 4 1 5 (Some 0) (Some 1)"

abbreviation demo_wide_h :: recorder where
  "demo_wide_h \<equiv> demo_heap (replicate 10 0) (replicate 10 0)"

definition demo_half :: "u16 \<Rightarrow> bool \<Rightarrow> u32 \<Rightarrow> u16 \<Rightarrow> byte list \<Rightarrow> wire_packet" where
  "demo_half seq m ts off bs = \<lparr>wp_rtp = (demo_rtp seq m)\<lparr>w_ts := ts\<rparr>, wp_ext_seq = 0,
     wp_segs = [(\<lparr>line_no = 0, pixel_offset = off, seg_length = 5\<rparr>, bs)]\<rparr>"

lemma demo_wide_inv: "asm_inv demo_wide demo_wide_h" "asm_abs demo_wide demo_wide_h = spec_init 10"
proof -
  note new = fresh_assembler_inv [where fmt = ST2110RX_FMT_YCBCR422_10BIT and width = 4 and height = 1 and pg = 5
      and p = "Some 0" and q = "Some 1" and h = demo_wide_h]
  have pre: "supported 4 1 ST2110RX_FMT_YCBCR422_10BIT" "pgroup_of_fmt ST2110RX_FMT_YCBCR422_10BIT = Some 5"
      "init_size 4 1 5 = 10" "contents demo_wide_h (Some 0) = Some (replicate 10 0)"
      "contents demo_wide_h (Some 1) = Some (replicate 10 0)"
    by (simp_all add: supported_def pgroup_of_fmt_def pgroup_defs init_size_def contents_def demo_heap_def)
  show "asm_inv demo_wide demo_wide_h" "asm_abs demo_wide demo_wide_h = spec_init 10"
    unfolding demo_wide_def using new pre by simp_all
qed

lemma demo_wide_sink: "sink_inv (\<lambda>_. True) {} (\<lambda>_. True) fmt demo_wide demo_wide_h"
  by (simp add: sink_inv_def demo_wide_inv)

lemma demo_wide_layout: "layout_of demo_wide = \<lparr>l_stride = 10, l_width = 4, l_height = 1, l_pgroup = 5, l_ppg = 2\<rparr>"
  by (simp add: demo_wide_def fresh_assembler_def layout_of_def pgroup_defs)

lemma demo_wide_simps: "frame_number demo_wide = 0" "buf_size demo_wide = 10"
  by (simp_all add: demo_wide_def fresh_assembler_def zero_assembler_def buf_size_def pgroup_defs)

lemma demo_half_wf: "length bs = 5 \<Longrightarrow> off \<in> {0, 2} \<Longrightarrow> wf_packet (layout_of demo_wide) (demo_half seq m ts off bs)"
  by (auto simp add: demo_wide_layout wf_packet_def demo_half_def demo_rtp_def wf_rtp_def wf_payload_def wf_segment_def
      seg_dst_def layout_size_def MAX_SEGMENTS_def)

lemma demo_half_writes:
  "packet_writes (layout_of demo_wide) (demo_half seq m ts 0 bs) = [(0, bs)]"
  "packet_writes (layout_of demo_wide) (demo_half seq m ts 2 bs) = [(5, bs)]"
  by (simp_all add: packet_writes_def demo_half_def seg_dst_def demo_wide_layout)

lemma demo_half_rtp: "w_seq (wp_rtp (demo_half seq m ts off bs)) = seq" "w_marker (wp_rtp (demo_half seq m ts off bs)) = m"
  "w_ts (wp_rtp (demo_half seq m ts off bs)) = ts"
  by (simp_all add: demo_half_def demo_rtp_def)

text \<open>The second half of the first frame and the first half of the second are lost.\<close>

definition demo_first :: sent_frame where
  "demo_first = \<lparr>sf_picture = [1, 2, 3, 4, 5, 6, 7, 8, 9, 10], sf_ts = 3000,
     sf_packets = [demo_half 7 False 3000 0 [1, 2, 3, 4, 5]]\<rparr>"

definition demo_second :: sent_frame where
  "demo_second = \<lparr>sf_picture = [11, 12, 13, 14, 15, 16, 17, 18, 19, 20], sf_ts = 6000,
     sf_packets = [demo_half 10 False 6000 2 [16, 17, 18, 19, 20], demo_half 11 True 6000 2 [16, 17, 18, 19, 20]]\<rparr>"

lemmas demo_sent = demo_first_def demo_second_def demo_half_rtp demo_half_writes

lemma demo_sent_simps:
  "sf_seqs demo_first = [7]" "sf_seqs demo_second = [10, 11]" "\<not> sf_marked demo_first" "sf_marked demo_second"
  "sf_ts demo_first = 3000" "sf_ts demo_second = 6000"
  by (simp_all add: sf_seqs_def sf_marked_def demo_sent)

lemma demo_wf_stream: "wf_stream (layout_of demo_wide) [demo_first, demo_second]"
  by (simp add: wf_stream_def wf_sent_def apart_def sf_writes_def writes_from_def demo_half_wf demo_wide_simps
      demo_sent sf_marked_def)

lemma demo_arrived:
  "arrived_picture (layout_of demo_wide) demo_first = [1, 2, 3, 4, 5, 0, 0, 0, 0, 0]"
  "arrived_picture (layout_of demo_wide) demo_second = [0, 0, 0, 0, 0, 16, 17, 18, 19, 20]"
  by (simp_all add: arrived_picture_def demo_wide_simps sf_writes_def demo_sent covered_def upt_conv_Cons)

text \<open>Then a frame that loses its marker, and one of which only the marker arrives.\<close>

definition demo_third :: sent_frame where
  "demo_third = \<lparr>sf_picture = [21, 22, 23, 24, 25, 26, 27, 28, 29, 30], sf_ts = 9000,
     sf_packets = [demo_half 12 False 9000 0 [21, 22, 23, 24, 25]]\<rparr>"

definition demo_fourth :: sent_frame where
  "demo_fourth = \<lparr>sf_picture = [31, 32, 33, 34, 35, 36, 37, 38, 39, 40], sf_ts = 12000,
     sf_packets = [demo_half 15 True 12000 2 [36, 37, 38, 39, 40]]\<rparr>"

lemma demo_more_simps:
  "sf_seqs demo_third = [12]" "sf_seqs demo_fourth = [15]" "\<not> sf_marked demo_third" "sf_marked demo_fourth"
  "w_marker (wp_rtp (hd (sf_packets demo_fourth)))" "\<not> w_marker (wp_rtp (hd (sf_packets demo_second)))"
  by (simp_all add: sf_seqs_def sf_marked_def demo_third_def demo_fourth_def demo_sent)

lemma demo_wf_arrivals: "wf_arrivals (layout_of demo_wide) [demo_first, demo_second, demo_third, demo_fourth]"
  by (simp add: wf_arrivals_def wf_sent_def sf_writes_def writes_from_def demo_half_wf demo_wide_simps demo_sent
      sf_marked_def demo_third_def demo_fourth_def)

lemma demo_merged:
  "merged_frame (layout_of demo_wide) fmt n b demo_third demo_fourth
     = (shown_frame (layout_of demo_wide) fmt n b demo_fourth)\<lparr>s_bytes := [21, 22, 23, 24, 25, 36, 37, 38, 39, 40]\<rparr>"
  by (simp add: merged_frame_def arrived_picture_def demo_wide_simps sf_writes_def demo_third_def demo_fourth_def
      demo_half_writes covered_def upt_conv_Cons)

lemma stream_on_wire_witness:
  "\<exists>n a' h' lost'. process_packets record_cb ST2110RX_FMT_YCBCR422_10BIT
      (map put_packet (concat (map sf_packets [demo_first, demo_second, demo_third, demo_fourth])))
      demo_wide demo_wide_h (Some 0) = Some (n, a', h', lost')
    \<and> map (\<lambda>v. (s_bytes v, s_incomplete v)) (seen h') = [([1, 2, 3, 4, 5, 0, 0, 0, 0, 0], True),
        ([0, 0, 0, 0, 0, 16, 17, 18, 19, 20], False), ([21, 22, 23, 24, 25, 36, 37, 38, 39, 40], True)]"
proof -
  have "ready_for (layout_of demo_wide) t (asm_abs demo_wide demo_wide_h)" for t
    using ready_for_init [of "layout_of demo_wide"] by (simp add: demo_wide_inv(2) demo_wide_simps)
  from stream_on_wire [OF rec.frame_log_axioms demo_wide_sink [of ST2110RX_FMT_YCBCR422_10BIT] demo_wf_arrivals,
      of "Some 0"] this
  show ?thesis
    by (fastforce simp: demo_sent_simps demo_more_simps demo_merged shown_frame_def demo_arrived demo_heap_def)
qed

text \<open>C32: a burst of losses that takes the marker of one frame and the first
  packets of the next. The gap is charged to the first frame alone (\<open>rx_rfc4175.c:204-208\<close>
  clears the flag it has just set for the new packet), so the next frame is shown with
  black where its packets were lost and yet not flagged incomplete.\<close>

lemma burst_loss_unnoticed:
  fixes a :: rx_frame_assembler_t
  defines "l \<equiv> layout_of a"
  assumes log: "frame_log cb ok own accepts seen_by observe" and inv: "sink_inv ok own accepts fmt a h"
    and wf: "wf_stream l [f, g]" and ready: "ready_for l (sf_ts f) (asm_abs a h)"
    and burst: "\<not> sf_marked f" "sf_marked g" "consecutive None (sf_seqs g)"
  shows "\<exists>a' h' lost'. process_packets cb fmt (map put_packet (sf_packets f @ sf_packets g)) a h lost
      = Some (2, a', h', lost')
    \<and> seen_by h' = seen_by h @ observe (shown_frame l fmt (frame_number a) True f)
        @ observe (shown_frame l fmt (frame_number a + 1) False g)"
  using process_stream [OF log inv wf_stream_arrivals [OF wf [unfolded l_def]], of lost] ready
    shown_stream_burst [OF wf burst, unfolded l_def]
  unfolding l_def [symmetric] by (auto simp del: shown_stream.simps)

lemma burst_loss_unnoticed_witness:
  "\<exists>a' h' lost'. process_packets record_cb ST2110RX_FMT_YCBCR422_10BIT
      (map put_packet (sf_packets demo_first @ sf_packets demo_second)) demo_wide demo_wide_h (Some 0) = Some (2, a', h', lost')
    \<and> map (\<lambda>v. (s_bytes v, s_incomplete v)) (seen h')
        = [([1, 2, 3, 4, 5, 0, 0, 0, 0, 0], True), ([0, 0, 0, 0, 0, 16, 17, 18, 19, 20], False)]"
proof -
  have "ready_for (layout_of demo_wide) t (asm_abs demo_wide demo_wide_h)" for t
    using ready_for_init [of "layout_of demo_wide"] by (simp add: demo_wide_inv(2) demo_wide_simps)
  from burst_loss_unnoticed [OF rec.frame_log_axioms demo_wide_sink [of ST2110RX_FMT_YCBCR422_10BIT] demo_wf_stream this,
      of "Some 0"]
  show ?thesis
    by (fastforce simp: demo_sent_simps shown_frame_def demo_arrived demo_heap_def)
qed

text \<open>C31: a burst of losses that takes the marker of one frame and all of the next but its
  marker packet. The first frame is never shown (\<open>rx_rfc4175.c:203\<close> does not flush when the
  packet carries a marker, and \<open>:210\<close> forgets that a picture is pending): one frame is
  reported, with the number of the first and the timestamp of the second, and its picture
  is that of the first wherever the last packet does not reach.\<close>

lemma pictures_merged:
  fixes a :: rx_frame_assembler_t
  defines "l \<equiv> layout_of a"
  assumes log: "frame_log cb ok own accepts seen_by observe" and inv: "sink_inv ok own accepts fmt a h"
    and wf: "wf_sent l f" "wf_sent l g" and ready: "ready_for l (sf_ts f) (asm_abs a h)"
    and lost: "\<not> sf_marked f" "sf_packets g = [m]" "sf_marked g"
  shows "\<exists>bad a' h' lost'. process_packets cb fmt (map put_packet (sf_packets f @ [m])) a h lost = Some (1, a', h', lost')
    \<and> seen_by h' = seen_by h @ observe (merged_frame l fmt (frame_number a) bad f g)
    \<and> (bad \<longleftrightarrow> \<not> consecutive (map_option fst (prev (asm_abs a h))) (sf_seqs f @ sf_seqs g))"
proof -
  let ?bad = "\<not> consecutive (map_option fst (prev (asm_abs a h))) (sf_seqs f @ sf_seqs g)"
  have "list_all (wf_packet l) (sf_packets f @ [m])"
    using wf unfolding lost(2) [symmetric] by (auto simp: wf_sent_def list_all_iff)
  moreover obtain s' where "spec_run l fmt (map (wire_decoded l) (sf_packets f @ [m])) (asm_abs a h)
      = ([merged_frame l fmt (frame_number a) ?bad f g], s')"
    using run_merged_frames [OF wf lost ready, of fmt] unfolding lost(2) by (metis asm_abs_number)
  ultimately show ?thesis
    using process_wire [OF log inv, of "sf_packets f @ [m]" _ lost] unfolding l_def by fastforce
qed

definition demo_tail :: sent_frame where
  "demo_tail = demo_second\<lparr>sf_packets := [demo_half 11 True 6000 2 [16, 17, 18, 19, 20]]\<rparr>"

lemma pictures_merged_witness:
  "\<exists>a' h' lost'. process_packets record_cb ST2110RX_FMT_YCBCR422_10BIT
      (map put_packet (sf_packets demo_first @ sf_packets demo_tail)) demo_wide demo_wide_h (Some 0) = Some (1, a', h', lost')
    \<and> map (\<lambda>v. (s_bytes v, s_number v, s_incomplete v)) (seen h') = [([1, 2, 3, 4, 5, 16, 17, 18, 19, 20], 0, True)]"
proof -
  have ready: "ready_for (layout_of demo_wide) t (asm_abs demo_wide demo_wide_h)" for t
    using ready_for_init [of "layout_of demo_wide"] by (simp add: demo_wide_inv(2) demo_wide_simps)
  have tail: "sf_packets demo_tail = [demo_half 11 True 6000 2 [16, 17, 18, 19, 20]]" "sf_seqs demo_tail = [11]"
      "sf_marked demo_tail" "wf_sent (layout_of demo_wide) demo_tail"
    by (simp_all add: demo_tail_def sf_seqs_def sf_marked_def wf_sent_def demo_half_rtp demo_half_wf demo_wide_simps
        sf_writes_def writes_from_def demo_half_writes demo_second_def)
  have first: "wf_sent (layout_of demo_wide) demo_first" using demo_wf_stream by (simp add: wf_stream_def)
  have gap: "\<not> consecutive q (sf_seqs demo_first @ sf_seqs demo_tail)" for q
    by (cases q) (simp_all add: demo_sent_simps tail(2))
  from pictures_merged [OF rec.frame_log_axioms demo_wide_sink [of ST2110RX_FMT_YCBCR422_10BIT] first tail(4) ready
      demo_sent_simps(3) tail(1,3), of "Some 0"]
  show ?thesis unfolding tail(1) using gap
    by (auto simp: merged_frame_def shown_frame_def demo_arrived demo_wide_simps sf_writes_def tail demo_half_writes
        covered_def upt_conv_Cons demo_tail_def demo_second_def demo_sent_simps demo_heap_def)
qed

text \<open>Sequence numbers of a stream, unwrapped: rising, and never by more than a full cycle.\<close>

fun rising :: "nat \<Rightarrow> nat list \<Rightarrow> bool" where
  "rising m [] = True"
| "rising m (k # ks) = (m < k \<and> k \<le> m + 65536 \<and> rising k ks)"

lemma rising_last: "rising m ks \<Longrightarrow> m + length ks \<le> last (m # ks)"
proof (induction ks arbitrary: m)
  case (Cons k ks)
  then have "k + length ks \<le> last (k # ks)" by simp
  then show ?case using Cons.prems by simp
qed simp

lemma gap_total_rising:
  assumes "rising m ks" and "map p_seq ds = map of_nat ks" and "prev s = Some (of_nat m, t)"
  shows "gap_total s ds = of_nat (last (m # ks) - m - length ks)"
  using assms
proof (induction ks arbitrary: m t s ds)
  case (Cons k ks)
  then obtain d es where ds: "ds = d # es" "p_seq d = of_nat k" "map p_seq es = map of_nat ks" by (cases ds) auto
  have k: "m < k" "k \<le> m + 65536" "rising k ks" using Cons.prems(1) by simp_all
  have "(of_nat k - (of_nat m + 1) :: u16) = of_nat (k - (m + 1))" using k(1) by (simp add: of_nat_diff)
  moreover have "(ucast (of_nat (k - (m + 1)) :: u16) :: u64) = of_nat (k - (m + 1))"
    using k(2) by (simp add: unsigned_of_nat take_bit_nat_eq_self)
  ultimately have gap: "(ucast (seq_gap s (p_seq d)) :: u64) = of_nat (k - (m + 1))"
    using Cons.prems(3) ds(2) by (simp add: seq_gap_def)
  have rest: "gap_total (s\<lparr>prev := Some (p_seq d, p_ts d)\<rparr>) es = of_nat (last (k # ks) - k - length ks)"
    using Cons.IH [OF k(3) ds(3)] ds(2) by simp
  have "gap_total s ds = of_nat ((k - (m + 1)) + (last (k # ks) - k - length ks))"
    by (simp only: ds(1) gap_total.simps gap rest of_nat_add)
  also have "(k - (m + 1)) + (last (k # ks) - k - length ks) = last (m # k # ks) - m - length (k # ks)"
    using rising_last [OF k(3)] k(1) by simp
  finally show ?case .
qed simp

text \<open>C28: when packets arrive in the order they were sent and at most 65,535 in a row
  are lost, the loss counter grows by exactly the number of packets that are missing,
  across any number of wrap-arounds of the 16-bit sequence number.\<close>

lemma losses_counted_exactly:
  assumes "frame_log cb ok own accepts seen_by observe" and "sink_inv ok own accepts fmt a h"
    and "has_prev_packet a" and "last_seq a = of_nat m" and "rising m ks"
    and "map p_seq (decode_all (layout_of a) pkts) = map of_nat ks"
  shows "\<exists>k a' h'. process_packets cb fmt pkts a h (Some n) =
    Some (k, a', h', Some (n + of_nat (last (m # ks) - m - length ks)))"
proof -
  have "prev (asm_abs a h) = Some (of_nat m, last_ts a)" using assms(3,4) by (simp add: asm_abs_def)
  from gap_total_rising [OF assms(5,6) this]
  show ?thesis
    using frame_log.process_packets_spec [OF assms(1,2), of pkts "Some n"] by auto
qed

lemma losses_counted_exactly_witness:
  "\<exists>k a' h'. process_packets record_cb ST2110RX_FMT_YCBCR422_10BIT
      [put_packet (demo_packet 4 False [9, 8, 7, 6, 5])]
      (demo_asm\<lparr>last_seq := 65534, last_ts := 0, has_prev_packet := True\<rparr>) demo_h (Some 1) = Some (k, a', h', Some 6)"
proof -
  let ?a = "demo_asm\<lparr>last_seq := 65534, last_ts := 0, has_prev_packet := True\<rparr>"
  let ?p = "demo_packet 4 False [9, 8, 7, 6, 5]"
  have l: "layout_of ?a = layout_of demo_asm" by (simp add: layout_of_def)
  have inv: "sink_inv (\<lambda>_. True) {} (\<lambda>_. True) ST2110RX_FMT_YCBCR422_10BIT ?a demo_h"
    by (simp add: sink_inv_cong(3) demo_sink_inv)
  have "map p_seq (decode_all (layout_of ?a) [put_packet ?p]) = map of_nat [65540]"
    unfolding l using decode_put_packet [OF demo_packet_wf, of "[9, 8, 7, 6, 5]" 4 False]
    by simp (simp add: demo_packet_def demo_rtp_def)
  then show ?thesis
    using losses_counted_exactly [OF rec.frame_log_axioms inv, of 65534 "[65540]" "[put_packet ?p]" 1] by simp
qed

text \<open>Packets up to one, the late one, and the next: what the gaps make in all.\<close>

lemma gap_total_after:
  "es \<noteq> [] \<Longrightarrow> gap_total s (es @ fs) = gap_total s es + gap_total (s\<lparr>prev := Some (p_seq (last es), p_ts (last es))\<rparr>) fs"
proof (induction es arbitrary: s)
  case (Cons e es)
  then show ?case by (cases "es = []") (simp_all add: add.assoc)
qed simp

lemma rising_upt: "m < j \<Longrightarrow> j \<le> m + 65536 \<Longrightarrow> rising m [j..<j + k]"
proof (induction k arbitrary: m j)
  case (Suc k)
  have "[j..<j + Suc k] = j # [Suc j..<Suc j + k]" by (simp add: upt_conv_Cons del: upt_Suc)
  moreover have "rising j [Suc j..<Suc j + k]" by (rule Suc.IH) simp_all
  ultimately show ?case using Suc.prems by simp
qed simp

lemma gap_total_late:
  assumes "map p_seq ds = map (\<lambda>i. of_nat (m + i)) ([2..<d + 2] @ [1, d + 2])" and "prev s = Some (of_nat m, t)"
    and "1 \<le> d" and "d < 65535"
  shows "gap_total s ds = 65536"
proof -
  obtain es fs where "ds = es @ fs" "map p_seq es = map (\<lambda>i. of_nat (m + i)) [2..<d + 2]"
      "map p_seq fs = map (\<lambda>i. of_nat (m + i)) [1, d + 2]"
    using assms(1) unfolding map_append map_eq_append_conv by metis
  note split = this
  obtain x y where fs: "fs = [x, y]" "p_seq x = of_nat (m + 1)" "p_seq y = of_nat (m + d + 2)"
    using split(3) by (auto simp: add.assoc)
  let ?ks = "[m + 2..<m + 2 + d]"
  have "?ks = map ((+) m) [2..<d + 2]" by (intro nth_equalityI) (simp_all del: upt_Suc)
  then have ks: "map p_seq es = map of_nat ?ks" "?ks \<noteq> []" "last ?ks = m + d + 1" "length ?ks = d"
    using split(2) assms(3) by (simp_all add: comp_def last_map del: upt_Suc)
  have es: "es \<noteq> []" "p_seq (last es) = of_nat (m + d + 1)"
    using ks last_map [of es p_seq] last_map [of ?ks "of_nat :: nat \<Rightarrow> u16"] by (metis map_is_Nil_conv)+
  have "gap_total s es = of_nat (last (m # ?ks) - m - length ?ks)"
    by (rule gap_total_rising [OF rising_upt ks(1) assms(2)]) simp_all
  then have first: "gap_total s es = 1" using ks(2-4) by simp
  have "p_seq x - (p_seq (last es) + 1) = of_nat (65536 - (d + 1))"
    using assms(4) by (simp add: fs es(2) of_nat_diff)
  then have late: "ucast (p_seq x - (p_seq (last es) + 1)) = (of_nat (65536 - (d + 1)) :: u64)"
    by (simp add: unsigned_of_nat take_bit_nat_eq_self)
  have "p_seq y - (p_seq x + 1) = of_nat d" by (simp add: fs)
  then have again: "ucast (p_seq y - (p_seq x + 1)) = (of_nat d :: u64)"
    using assms(4) by (simp add: unsigned_of_nat take_bit_nat_eq_self)
  have "gap_total s ds = 1 + (of_nat (65536 - (d + 1)) + of_nat d)"
    using gap_total_after [OF es(1), of s fs] by (simp add: split(1) fs(1) first seq_gap_def late again)
  also have "\<dots> = of_nat (1 + (65536 - (d + 1)) + d)" by simp
  also have "1 + (65536 - (d + 1)) + d = 65536" using assms(4) by simp
  finally show ?thesis by simp
qed

text \<open>C33: a packet that arrives late, after \<open>d\<close> packets that were sent after it, with
  none lost: over the packets up to the one that is in order again, the loss counter of the
  assembler grows by 65,536. The gap before the overtaking packets counts 1, the late
  packet's is taken modulo \<open>2^16\<close> as a forward loss, and since it sets the expected number
  back (\<open>rx_rfc4175.c:191-199\<close>), the packets that overtook it are counted again.\<close>

lemma reordering_counts_a_cycle:
  assumes "frame_log cb ok own accepts seen_by observe" and "sink_inv ok own accepts fmt a h"
    and "has_prev_packet a" and "last_seq a = of_nat m" and "1 \<le> d" and "d < 65535"
    and "list_all (wf_packet (layout_of a)) ws"
    and "map (w_seq \<circ> wp_rtp) ws = map (\<lambda>i. of_nat (m + i)) ([2..<d + 2] @ [1, d + 2])"
  shows "\<exists>k a' h'. process_packets cb fmt (map put_packet ws) a h (Some n) = Some (k, a', h', Some (n + 65536))"
proof -
  let ?ds = "map (wire_decoded (layout_of a)) ws"
  have "prev (asm_abs a h) = Some (of_nat m, last_ts a)" using assms(3,4) by (simp add: asm_abs_def)
  moreover have "map p_seq ?ds = map (\<lambda>i. of_nat (m + i)) ([2..<d + 2] @ [1, d + 2])"
    using assms(8) by (simp add: comp_def)
  ultimately have "gap_total (asm_abs a h) ?ds = 65536" using assms(5,6) by (intro gap_total_late)
  then show ?thesis
    using frame_log.process_packets_spec [OF assms(1,2), of "map put_packet ws" "Some n"]
    by (auto simp: decode_all_put_packets [OF assms(7)])
qed

text \<open>Two packets swapped, at the wrap-around: 65534 was the last, then come 0, 65535 and 1.\<close>

lemma reordering_counts_a_cycle_witness:
  "\<exists>k a' h'. process_packets record_cb ST2110RX_FMT_YCBCR422_10BIT
      (map put_packet [demo_packet 0 False [1, 2, 3, 4, 5], demo_packet 65535 False [1, 2, 3, 4, 5],
         demo_packet 1 False [1, 2, 3, 4, 5]])
      (demo_asm\<lparr>last_seq := 65534, last_ts := 90000, has_prev_packet := True\<rparr>) demo_h (Some 0)
    = Some (k, a', h', Some 65536)"
proof -
  let ?a = "demo_asm\<lparr>last_seq := 65534, last_ts := 90000, has_prev_packet := True\<rparr>"
  let ?ws = "[demo_packet 0 False [1, 2, 3, 4, 5], demo_packet 65535 False [1, 2, 3, 4, 5], demo_packet 1 False [1, 2, 3, 4, 5]]"
  have l: "layout_of ?a = layout_of demo_asm" by (simp add: layout_of_def)
  have inv: "sink_inv (\<lambda>_. True) {} (\<lambda>_. True) ST2110RX_FMT_YCBCR422_10BIT ?a demo_h"
    by (simp add: sink_inv_cong(3) demo_sink_inv)
  have wf: "list_all (wf_packet (layout_of ?a)) ?ws" by (simp add: l demo_packet_wf)
  have seqs: "map (w_seq \<circ> wp_rtp) ?ws = map (\<lambda>i. of_nat (65534 + i)) ([2..<1 + 2] @ [1, 1 + 2])"
    by (simp add: demo_packet_def demo_rtp_def upt_conv_Cons)
  show ?thesis
    using reordering_counts_a_cycle [OF rec.frame_log_axioms inv _ _ _ _ wf seqs, of 0] by simp
qed

section \<open>Creation and disposal\<close>

text \<open>\<open>rx_assembler_init\<close> returns 0 exactly for even widths up to 8192, heights up
  to 4320 and the two supported formats, when both allocations succeed. Then the
  assembler meets its invariant, with a black picture and no packet seen; otherwise it
  returns \<open>-1\<close> and no block is left allocated. Either way the blocks in use are untouched.\<close>

lemma assembler_init_outcomes:
  assumes "heap_wf h"
  shows "\<exists>rc a' h'. rx_assembler_init a width height fmt h = Some (rc, a', h') \<and> heap_wf h'
    \<and> (rc = 0 \<longleftrightarrow> supported width height fmt \<and> \<not> oom h (next_blk h) \<and> \<not> oom h (Suc (next_blk h)))
    \<and> (if rc = 0
       then asm_inv a' h' \<and> asm_abs a' h' = spec_init (buf_size a')
          \<and> (\<forall>p. contents h p \<noteq> None \<longrightarrow> contents h' p = contents h p)
       else rc = -1 \<and> blocks h' = blocks h)"
proof (cases "supported width height fmt")
  case False
  then show ?thesis using assms by (simp add: not_supported_init)
next
  case sup: True
  obtain pg where pg: "pgroup_of_fmt fmt = Some pg" using pgroup_of_fmt_supported [OF sup] by blast
  let ?p = "Some (next_blk h)" and ?q = "Some (Suc (next_blk h))"
  note both = supported_init [OF sup assms pg, of a]
  show ?thesis
  proof (cases "oom h (next_blk h) \<or> oom h (Suc (next_blk h))")
    case True
    then obtain a' h' where "rx_assembler_init a width height fmt h = Some (-1, a', h')" "blocks h' = blocks h" "heap_wf h'"
      using both by auto
    then show ?thesis using True by (intro exI conjI) auto
  next
    case False
    then obtain h' where h': "rx_assembler_init a width height fmt h = Some (0, fresh_assembler width height pg ?p ?q, h')"
        "blocks h' = (blocks h)(next_blk h \<mapsto> replicate (init_size width height pg) 0,
           Suc (next_blk h) \<mapsto> replicate (init_size width height pg) 0)" "heap_wf h'"
      using both by auto
    have c: "contents h' ?p = Some (replicate (init_size width height pg) 0)"
      "contents h' ?q = Some (replicate (init_size width height pg) 0)" by (simp_all add: contents_def h'(2))
    have "contents h' p = contents h p" if "contents h p \<noteq> None" for p
      using that assms by (auto simp: contents_def h'(2) heap_wf_def split: option.splits)
    then show ?thesis
      using h' False sup fresh_assembler_inv [OF sup pg _ c] by (intro exI conjI) auto
  qed
qed

lemma assembler_init_outcomes_witness:
  "\<exists>a' h'. rx_assembler_init zero_assembler 2 1 ST2110RX_FMT_UYVY demo_h = Some (0, a', h') \<and> asm_inv a' h'"
  using assembler_init_outcomes [of demo_h zero_assembler 2 1 ST2110RX_FMT_UYVY] demo_heap_wf
  by (auto simp: supported_def)

text \<open>\<open>rx_assembler_free\<close> releases exactly the two picture buffers and clears the
  pointers, so that calling it again releases nothing twice.\<close>

lemma assembler_free_once:
  assumes "asm_inv a h"
  shows "\<exists>a' h'. rx_assembler_free a h = Some (a', h')
    \<and> (\<forall>q. contents h' q = (if q \<in> {fill_buf a, deliver_buf a} then None else contents h q))
    \<and> rx_assembler_free a' h' = Some (a', h')"
proof -
  obtain h' where "rx_assembler_free a h = Some (a\<lparr>fill_buf := None, deliver_buf := None\<rparr>, h')"
      "\<And>q. contents h' q = (if q \<in> {fill_buf a, deliver_buf a} then None else contents h q)"
    by (rule rx_assembler_free_obtain [OF assms]) blast
  then show ?thesis by (intro exI conjI) (auto simp: rx_assembler_free_again)
qed

lemma assembler_free_once_witness:
  "\<exists>a' h'. rx_assembler_free demo_asm demo_h = Some (a', h') \<and> rx_assembler_free a' h' = Some (a', h')"
  using assembler_free_once [OF demo_inv(1)] by blast

end
