(* ===== verification/Rx_Atomic.thy ===== *)
theory Rx_Atomic
  imports Rx_Prelude
begin

text \<open>
  The atomic accesses of \<open>rx_platform.h\<close>. A cell is a 64-bit word, and each access gives
  the value it returns and what the cell holds afterwards. On Windows the macros are
  made of three interlocked primitives, on POSIX of the generic functions of
  \<open>stdatomic.h\<close>, whose addition wraps around silently also on a signed type; that the two
  agree is shown here, so that the rest of the library has one of each.
\<close>

section \<open>Windows\<close>

definition InterlockedCompareExchange64 :: "u64 \<Rightarrow> u64 \<Rightarrow> u64 \<Rightarrow> u64 \<times> u64" where
  "InterlockedCompareExchange64 cell exchange comparand = (cell, if cell = comparand then exchange else cell)"

definition InterlockedExchangeAdd64 :: "u64 \<Rightarrow> u64 \<Rightarrow> u64 \<times> u64" where
  "InterlockedExchangeAdd64 cell v = (cell, cell + v)"

definition InterlockedExchange64 :: "u64 \<Rightarrow> u64 \<Rightarrow> u64 \<times> u64" where
  "InterlockedExchange64 cell v = (cell, v)"

definition rx_atomic64_load_win32 :: "u64 \<Rightarrow> u64 \<times> u64" where
  "rx_atomic64_load_win32 cell = InterlockedCompareExchange64 cell 0 0"

definition rx_atomic64_add_win32 :: "u64 \<Rightarrow> u64 \<Rightarrow> u64 \<times> u64" where
  "rx_atomic64_add_win32 cell v = InterlockedExchangeAdd64 cell v"

definition rx_atomic64_store_win32 :: "u64 \<Rightarrow> u64 \<Rightarrow> u64" where
  "rx_atomic64_store_win32 cell v = snd (InterlockedExchange64 cell v)"

section \<open>POSIX\<close>

definition rx_atomic64_load :: "u64 \<Rightarrow> u64 \<times> u64" where
  "rx_atomic64_load cell = (cell, cell)"

definition rx_atomic64_add :: "u64 \<Rightarrow> u64 \<Rightarrow> u64 \<times> u64" where
  "rx_atomic64_add cell v = (cell, cell + v)"

definition rx_atomic64_store :: "u64 \<Rightarrow> u64 \<Rightarrow> u64" where
  "rx_atomic64_store cell v = v"

section \<open>They agree\<close>

text \<open>The comparing exchange of 0 for 0 writes nothing new.\<close>

lemma rx_atomic64_platforms:
  "rx_atomic64_load_win32 = rx_atomic64_load" "rx_atomic64_add_win32 = rx_atomic64_add"
  "rx_atomic64_store_win32 = rx_atomic64_store"
  by (simp_all add: fun_eq_iff rx_atomic64_load_win32_def rx_atomic64_add_win32_def rx_atomic64_store_win32_def
      InterlockedCompareExchange64_def InterlockedExchangeAdd64_def InterlockedExchange64_def
      rx_atomic64_load_def rx_atomic64_add_def rx_atomic64_store_def)

text \<open>What an access returns and what it leaves.\<close>

lemma rx_atomic64_simps [simp]:
  "fst (rx_atomic64_load c) = c" "snd (rx_atomic64_load c) = c"
  "fst (rx_atomic64_add c v) = c" "snd (rx_atomic64_add c v) = c + v" "rx_atomic64_store c v = v"
  by (simp_all add: rx_atomic64_load_def rx_atomic64_add_def rx_atomic64_store_def)

end
