(* ===== verification/Rx_Double.thy ===== *)
theory Rx_Double
  imports Complex_Main "HOL-Library.Log_Nat"
begin

text \<open>
  The C type \<open>double\<close> as the statistics use it: finite IEEE 754 binary64 values as
  rational numbers, every operation the exact one followed by rounding to the nearest
  double, ties to even, with gradual underflow. No value of the statistics is near the
  overflow threshold. Rounding's laws are the locale \<open>float_rounding\<close>, and an
  exponentially weighted average computed with it is bounded there.
\<close>

type_synonym double = rat

section \<open>Rounding to binary64\<close>

definition round_half_even :: "rat \<Rightarrow> int" where
  "round_half_even x =
     (let f = \<lfloor>x\<rfloor>; d = x - of_int f
      in if d < 1/2 then f else if d > 1/2 then f + 1 else if even f then f else f + 1)"

definition pow2 :: "int \<Rightarrow> rat" where
  "pow2 e = (if 0 \<le> e then 2 ^ nat e else 1 / 2 ^ nat (- e))"

text \<open>The binary exponent of a positive number.\<close>

definition ilog2 :: "rat \<Rightarrow> int" where
  "ilog2 x = (if x \<ge> 1 then int (floorlog 2 (nat \<lfloor>x\<rfloor>)) - 1
              else - int (ceillog2 (nat \<lceil>1 / x\<rceil>)))"

text \<open>The weight of the last bit: 53 significant bits, and never below \<open>2 ^ -1074\<close>.\<close>

definition ulp_exp :: "rat \<Rightarrow> int" where
  "ulp_exp x = max (ilog2 x - 52) (- 1074)"

definition rnd_pos :: "rat \<Rightarrow> rat" where
  "rnd_pos x = of_int (round_half_even (x / pow2 (ulp_exp x))) * pow2 (ulp_exp x)"

definition rnd64 :: "rat \<Rightarrow> double" where
  "rnd64 x = (if x = 0 then 0 else if x > 0 then rnd_pos x else - rnd_pos (- x))"

section \<open>Laws\<close>

lemma round_half_even_mono: "x \<le> y \<Longrightarrow> round_half_even x \<le> round_half_even y"
proof -
  assume le: "x \<le> y"
  have b: "\<lfloor>z\<rfloor> \<le> round_half_even z \<and> round_half_even z \<le> \<lfloor>z\<rfloor> + 1" for z
    by (simp add: round_half_even_def Let_def)
  show ?thesis
  proof (cases "\<lfloor>x\<rfloor> < \<lfloor>y\<rfloor>")
    case True
    then show ?thesis using b [of x] b [of y] by linarith
  next
    case False
    with le have "\<lfloor>x\<rfloor> = \<lfloor>y\<rfloor>" using floor_mono [OF le] by linarith
    with le show ?thesis by (auto simp: round_half_even_def Let_def)
  qed
qed

lemma round_half_even_of_int [simp]: "round_half_even (of_int n) = n"
  by (simp add: round_half_even_def Let_def)

lemma pow2_pos [simp]: "0 < pow2 e"
  by (simp add: pow2_def)

lemma pow2_powi: "pow2 e = 2 powi e"
  by (simp add: pow2_def power_int_def field_simps)

lemma pow2_add: "pow2 (a + b) = pow2 a * pow2 b"
  by (simp add: pow2_powi power_int_add)

lemma pow2_int: "0 \<le> e \<Longrightarrow> pow2 e = of_int (2 ^ nat e)"
  by (simp add: pow2_def)

lemma pow2_mono: "a \<le> b \<Longrightarrow> pow2 a \<le> pow2 b"
  by (simp add: pow2_powi power_int_increasing)

lemma ilog2_bounds:
  assumes "0 < x"
  shows "pow2 (ilog2 x) \<le> x \<and> x < pow2 (ilog2 x + 1)"
proof (cases "x \<ge> 1")
  case True
  define n where "n = nat \<lfloor>x\<rfloor>"
  have n: "0 < n" "of_nat n \<le> x" "x < of_nat n + 1" using True by (auto simp: n_def) linarith+
  define k where "k = floorlog 2 n"
  have k: "0 < k" "2 ^ (k - 1) \<le> n" "n < 2 ^ k"
    using floorlog_bounds [of n 2] n(1) floorlog_eq_zero_iff [of 2 n] by (auto simp: k_def)
  have "(2 :: rat) ^ (k - 1) \<le> x"
    using k(2) n(2) by (metis of_nat_le_iff of_nat_numeral of_nat_power order_trans)
  moreover have "(of_nat n :: rat) + 1 \<le> 2 ^ k"
    using k(3) by (metis Suc_leI of_nat_Suc of_nat_le_iff of_nat_numeral of_nat_power add.commute)
  moreover have "ilog2 x = int k - 1" using True by (simp add: ilog2_def k_def n_def)
  ultimately show ?thesis using n k(1) by (simp add: pow2_def nat_diff_distrib)
next
  case False
  define r where "r = 1 / x"
  have r: "1 < r" "x = 1 / r" using False assms by (auto simp: r_def)
  define n where "n = nat \<lceil>r\<rceil>"
  have n: "1 < n" "r \<le> of_nat n" "of_nat n - 1 < r" using r(1) by (auto simp: n_def) linarith+
  define k where "k = ceillog2 n"
  have k: "n \<le> 2 ^ k" "2 ^ k < 2 * n" 
    using le_two_power_ceillog2 [of n] two_power_ceillog2_gt [of n] n(1) by (auto simp: k_def)
  then have k0: "0 < k" using n(1) by (cases k) auto
  then have "2 ^ k = 2 * (2 :: nat) ^ (k - 1)" by (simp add: power_eq_if)
  then have "(2 :: nat) ^ (k - 1) \<le> n - 1" using k(2) by linarith
  then have "(of_nat (2 ^ (k - 1)) :: rat) \<le> of_nat (n - 1)" by (simp only: of_nat_le_iff)
  then have "(2 :: rat) ^ (k - 1) \<le> of_nat n - 1" using n(1) by (simp add: of_nat_diff)
  moreover have "(of_nat n :: rat) \<le> 2 ^ k" using k(1) by (metis of_nat_le_iff of_nat_numeral of_nat_power)
  ultimately have b: "2 ^ (k - 1) < r" "r \<le> 2 ^ k" using n(2,3) by linarith+
  have "ilog2 x = - int k" using False by (simp add: ilog2_def k_def n_def r_def)
  moreover have "pow2 (- int k) = 1 / 2 ^ k" using k0 by (simp add: pow2_def)
  moreover have "pow2 (- int k + 1) = 1 / 2 ^ (k - 1)" using k0 by (cases k) (auto simp: pow2_def)
  moreover have "1 / 2 ^ k \<le> 1 / r" using b r(1) by (intro divide_left_mono) auto
  moreover have "1 / r < 1 / 2 ^ (k - 1)" using b r(1) by (intro divide_strict_left_mono) auto
  ultimately show ?thesis using r(2) by simp
qed

lemma ilog2_less: "0 < x \<Longrightarrow> x < pow2 k \<Longrightarrow> ilog2 x < k"
  using ilog2_bounds [of x] pow2_mono [of k "ilog2 x"] by force

lemma ilog2_ge: "0 < x \<Longrightarrow> pow2 k \<le> x \<Longrightarrow> k \<le> ilog2 x"
  using ilog2_bounds [of x] pow2_mono [of "ilog2 x + 1" k] by force

lemma ilog2_mono: "0 < x \<Longrightarrow> x \<le> y \<Longrightarrow> ilog2 x \<le> ilog2 y"
  using ilog2_bounds [of x] by (intro ilog2_ge) auto

lemma ulp_exp_mono: "0 < x \<Longrightarrow> x \<le> y \<Longrightarrow> ulp_exp x \<le> ulp_exp y"
  using ilog2_mono [of x y] by (auto simp: ulp_exp_def)

text \<open>A multiple of the last bit's weight bounds the rounded value as it bounds the exact one.\<close>

lemma rnd_pos_le_grid: "x \<le> of_int n * pow2 (ulp_exp x) \<Longrightarrow> rnd_pos x \<le> of_int n * pow2 (ulp_exp x)"
  using round_half_even_mono [of "x / pow2 (ulp_exp x)" "of_int n"]
  by (simp add: rnd_pos_def divide_simps)

lemma rnd_pos_ge_grid: "of_int n * pow2 (ulp_exp x) \<le> x \<Longrightarrow> of_int n * pow2 (ulp_exp x) \<le> rnd_pos x"
  using round_half_even_mono [of "of_int n" "x / pow2 (ulp_exp x)"]
  by (simp add: rnd_pos_def divide_simps)

lemma rnd_pos_nonneg: "0 < x \<Longrightarrow> 0 \<le> rnd_pos x"
  using rnd_pos_ge_grid [of 0 x] by simp

lemma rnd_pos_mono:
  assumes "0 < x" and "x \<le> y"
  shows "rnd_pos x \<le> rnd_pos y"
proof (cases "ulp_exp x = ulp_exp y")
  case True
  have "x / pow2 (ulp_exp y) \<le> y / pow2 (ulp_exp y)"
    using assms(2) by (simp add: divide_right_mono less_imp_le)
  then show ?thesis
    using True by (simp add: rnd_pos_def round_half_even_mono)
next
  case False
  with ulp_exp_mono [OF assms] have lt: "ulp_exp x < ulp_exp y" by simp
  define L where "L = ilog2 y"
  have y: "ulp_exp y = L - 52" and x: "ilog2 x < L"
    using lt by (auto simp: ulp_exp_def L_def)
  have "x < pow2 (ilog2 x + 1)" using ilog2_bounds assms(1) by blast
  also have "\<dots> \<le> pow2 L" using x by (intro pow2_mono) simp
  also have pL: "pow2 L = of_int (2 ^ nat (L - ulp_exp x)) * pow2 (ulp_exp x)"
    using lt y pow2_add [of "L - ulp_exp x" "ulp_exp x"] by (simp add: pow2_int)
  finally have "rnd_pos x \<le> pow2 L" using rnd_pos_le_grid [of x "2 ^ nat (L - ulp_exp x)"] pL by simp
  moreover have qL: "pow2 L = of_int (2 ^ 52) * pow2 (ulp_exp y)"
    using y pow2_add [of 52 "L - 52"] by (simp add: pow2_int)
  moreover have "pow2 L \<le> y" using ilog2_bounds [of y] assms by (simp add: L_def)
  ultimately show ?thesis using rnd_pos_ge_grid [of "2 ^ 52" y] by simp
qed

lemma rnd_pos_grid:
  assumes "0 < z" and "z = of_int m * pow2 f" and "ulp_exp z \<le> f"
  shows "rnd_pos z = z"
proof -
  have "z / pow2 (ulp_exp z) = of_int (m * 2 ^ nat (f - ulp_exp z))"
    using assms pow2_add [of "f - ulp_exp z" "ulp_exp z"]
    by (simp add: pow2_int nonzero_divide_eq_eq less_imp_neq [symmetric])
  then show ?thesis
    unfolding rnd_pos_def using pow2_pos [of "ulp_exp z"]
    by (metis round_half_even_of_int nonzero_eq_divide_eq less_irrefl)
qed

lemma rnd_pos_bound: "0 < x \<Longrightarrow> rnd_pos x \<le> of_int (2 ^ 53) * pow2 (ulp_exp x)"
proof -
  assume x: "0 < x"
  have "x < pow2 (ilog2 x + 1)" using ilog2_bounds x by blast
  also have "\<dots> \<le> pow2 (53 + ulp_exp x)" by (intro pow2_mono) (simp add: ulp_exp_def)
  finally show ?thesis
    using rnd_pos_le_grid [of x "2 ^ 53"] by (simp add: pow2_add pow2_int)
qed

lemma rnd_pos_idem:
  assumes "0 < x" and "rnd_pos x \<noteq> 0"
  shows "rnd_pos (rnd_pos x) = rnd_pos x"
proof -
  define e where "e = ulp_exp x"
  define n where "n = round_half_even (x / pow2 e)"
  define z where "z = rnd_pos x"
  have z: "z = of_int n * pow2 e" by (simp add: z_def rnd_pos_def n_def e_def)
  have z0: "0 < z" using assms(2) rnd_pos_nonneg [OF assms(1)] unfolding z_def by simp
  have le: "z \<le> pow2 (53 + e)"
    using rnd_pos_bound [OF assms(1)] by (simp add: z_def e_def pow2_add pow2_int)
  have e: "- 1074 \<le> e" by (simp add: e_def ulp_exp_def)
  show ?thesis
  proof (cases "z < pow2 (53 + e)")
    case True
    then have "ulp_exp z \<le> e" using ilog2_less [OF z0] e by (force simp: ulp_exp_def)
    then show ?thesis using rnd_pos_grid [OF z0 z] by (simp add: z_def)
  next
    case False
    then have zz: "z = of_int 1 * pow2 (53 + e)" using le by simp
    have "z < pow2 (54 + e)" using zz pow2_add [of 1 "53 + e"] pow2_pos [of "53 + e"]
      by (simp add: pow2_def [of 1])
    then have "ulp_exp z \<le> 53 + e" using ilog2_less [OF z0] e by (force simp: ulp_exp_def)
    then show ?thesis using rnd_pos_grid [OF z0 zz] by (simp add: z_def)
  qed
qed

lemma round_half_even_double: "0 < t \<Longrightarrow> of_int (round_half_even t) \<le> 2 * t"
proof (cases "t < 1")
  case True
  assume "0 < t"
  with True have "\<lfloor>t\<rfloor> = 0" by (simp add: floor_eq_iff)
  with \<open>0 < t\<close> show ?thesis by (simp add: round_half_even_def)
next
  case False
  have "round_half_even t \<le> \<lfloor>t\<rfloor> + 1" by (simp add: round_half_even_def Let_def)
  then have "(of_int (round_half_even t) :: rat) \<le> of_int (\<lfloor>t\<rfloor> + 1)" by (simp only: of_int_le_iff)
  then show ?thesis using False of_int_floor_le [of t] by simp linarith
qed

lemma rnd_pos_twice: "0 < x \<Longrightarrow> rnd_pos x \<le> 2 * x"
  using round_half_even_double [of "x / pow2 (ulp_exp x)"]
  by (simp add: rnd_pos_def divide_simps)

lemma rnd64_neg: "rnd64 (- x) = - rnd64 x"
  by (simp add: rnd64_def)

lemma rnd64_nonneg: "0 \<le> x \<Longrightarrow> 0 \<le> rnd64 x"
  by (simp add: rnd64_def rnd_pos_nonneg)

lemma rnd64_mono: "x \<le> y \<Longrightarrow> rnd64 x \<le> rnd64 y"
proof -
  assume le: "x \<le> y"
  consider "0 < x" | "x \<le> 0" "0 \<le> y" | "y < 0" by linarith
  then show ?thesis
  proof cases
    case 1
    then show ?thesis using le by (simp add: rnd64_def rnd_pos_mono)
  next
    case 2
    then show ?thesis using rnd64_nonneg [of "- x"] rnd64_nonneg [of y] by (simp add: rnd64_neg)
  next
    case 3
    then show ?thesis using le rnd_pos_mono [of "- y" "- x"] by (simp add: rnd64_def)
  qed
qed

lemma rnd64_idem: "rnd64 (rnd64 x) = rnd64 x"
proof -
  have pos: "rnd64 (rnd64 x) = rnd64 x" if "0 < x" for x
  proof (cases "rnd_pos x = 0")
    case False
    with that have "0 < rnd_pos x" using rnd_pos_nonneg [OF that] by simp
    with that False show ?thesis by (simp add: rnd64_def rnd_pos_idem)
  qed (use that in \<open>simp add: rnd64_def\<close>)
  show ?thesis
  proof (cases "x < 0")
    case True
    then show ?thesis using pos [of "- x"] by (simp add: rnd64_neg)
  next
    case False
    then show ?thesis using pos [of x] by (cases "x = 0") (auto simp: rnd64_def)
  qed
qed

text \<open>Integers up to \<open>2 ^ 53\<close> are doubles.\<close>

lemma rnd64_int: "\<bar>n\<bar> < 2 ^ 53 \<Longrightarrow> rnd64 (of_int n) = of_int n"
proof -
  have pos: "rnd_pos (of_int k) = of_int k" if "0 < k" "k < 2 ^ 53" for k
  proof -
    have "(of_int k :: rat) < pow2 53" using that(2) by (simp add: pow2_def)
    then have "ulp_exp (of_int k) \<le> 0" using ilog2_less [of "of_int k" 53] that(1) by (simp add: ulp_exp_def)
    then show ?thesis using rnd_pos_grid [of "of_int k" k 0] that(1) by (simp add: pow2_def)
  qed
  assume "\<bar>n\<bar> < 2 ^ 53"
  then show ?thesis using pos [of n] pos [of "- n"] by (auto simp: rnd64_def)
qed

text \<open>Rounding moves a number by at most half of its last bit, that is by \<open>2 ^ -53\<close> of its size.\<close>

lemma round_half_even_near: "\<bar>of_int (round_half_even t) - t\<bar> \<le> 1 / 2"
proof -
  have "of_int \<lfloor>t\<rfloor> \<le> t" "t < of_int \<lfloor>t\<rfloor> + 1" by linarith+
  then show ?thesis by (simp add: round_half_even_def Let_def abs_le_iff)
qed

lemma rnd_pos_near:
  assumes "0 < x"
  shows "\<bar>rnd_pos x - x\<bar> \<le> max x 1 / 2 ^ 53"
proof -
  let ?u = "pow2 (ulp_exp x)"
  have "rnd_pos x - x = (of_int (round_half_even (x / ?u)) - x / ?u) * ?u"
    using less_imp_neq [OF pow2_pos [of "ulp_exp x"]] by (simp add: rnd_pos_def left_diff_distrib)
  then have "\<bar>rnd_pos x - x\<bar> \<le> 1 / 2 * ?u"
    using mult_right_mono [OF round_half_even_near [of "x / ?u"], of ?u] pow2_pos [of "ulp_exp x"]
    by (simp add: abs_mult less_imp_le)
  also have "1 / 2 * ?u = pow2 (ulp_exp x + 52) / 2 ^ 53"
    by (simp add: pow2_add pow2_int)
  also have "\<dots> \<le> max x 1 / 2 ^ 53"
  proof (intro divide_right_mono)
    have "ulp_exp x + 52 = ilog2 x \<or> ulp_exp x + 52 \<le> 0" unfolding ulp_exp_def by linarith
    then show "pow2 (ulp_exp x + 52) \<le> max x 1"
      using ilog2_bounds [OF assms] pow2_mono [of "ulp_exp x + 52" 0] by (auto simp: pow2_def [of 0])
  qed simp
  finally show ?thesis .
qed

lemma rnd64_near: "\<bar>rnd64 x - x\<bar> \<le> max \<bar>x\<bar> 1 / 2 ^ 53"
  using rnd_pos_near [of x] rnd_pos_near [of "- x"] by (auto simp: rnd64_def abs_minus_commute abs_if split: if_splits)

section \<open>What the statistics need of rounding\<close>

locale float_rounding =
  fixes rnd :: "rat \<Rightarrow> rat"
  assumes rnd_mono: "x \<le> y \<Longrightarrow> rnd x \<le> rnd y"
    and rnd_idem: "rnd (rnd x) = rnd x"
    and rnd_neg: "rnd (- x) = - rnd x"
    and rnd_twice: "0 \<le> x \<Longrightarrow> rnd x \<le> 2 * x"

text \<open>\<open>v += (x - v) / k\<close>, every operation rounded.\<close>

definition ewma :: "(rat \<Rightarrow> rat) \<Rightarrow> rat \<Rightarrow> rat \<Rightarrow> rat \<Rightarrow> rat" where
  "ewma rnd k v x = rnd (v + rnd (rnd (x - v) / k))"

context float_rounding
begin

lemma rnd_zero: "rnd 0 = 0"
  using rnd_neg [of 0] by simp

lemma rnd_nonneg: "0 \<le> x \<Longrightarrow> 0 \<le> rnd x"
  using rnd_mono [of 0 x] by (simp add: rnd_zero)

lemma ewma_room_up:
  assumes "4 \<le> k" and "v \<le> x"
  shows "v \<le> v + rnd (rnd (x - v) / k) \<and> v + rnd (rnd (x - v) / k) \<le> x"
proof -
  define t where "t = rnd (x - v)"
  have t: "0 \<le> t" "t \<le> 2 * (x - v)" using assms(2) rnd_twice [of "x - v"] by (auto simp: t_def rnd_nonneg)
  define q where "q = t / k"
  have "t / k \<le> t / 4" using t(1) assms(1) by (intro divide_left_mono) auto
  then have q: "0 \<le> q" "q \<le> t / 4" using t(1) assms(1) by (simp_all add: q_def)
  have u: "0 \<le> rnd q" "rnd q \<le> 2 * q" using q(1) rnd_nonneg rnd_twice [of q] by simp_all
  have "2 * q \<le> t / 2" and "t / 2 \<le> x - v" using q(2) t(2) by simp_all
  then have "rnd q \<le> x - v" using u(2) by (meson order_trans)
  then show ?thesis using u by (simp add: t_def q_def)
qed

lemma ewma_room:
  assumes "4 \<le> k" and "rnd v = v" and "rnd x = x"
  shows "min v x \<le> v + rnd (rnd (x - v) / k) \<and> v + rnd (rnd (x - v) / k) \<le> max v x"
proof (cases "v \<le> x")
  case True
  then show ?thesis using ewma_room_up [OF assms(1)] by auto
next
  case False
  have "rnd (- x - - v) = - rnd (x - v)" using rnd_neg [of "x - v"] by simp
  moreover have "rnd (- rnd (x - v) / k) = - rnd (rnd (x - v) / k)" using rnd_neg [of "rnd (x - v) / k"] by simp
  ultimately show ?thesis using ewma_room_up [OF assms(1), of "- v" "- x"] False by auto
qed

text \<open>The average moves towards the new sample and never past it.\<close>

lemma ewma_between:
  assumes "4 \<le> k" and "rnd v = v" and "rnd x = x"
  shows "min v x \<le> ewma rnd k v x \<and> ewma rnd k v x \<le> max v x"
proof -
  have "rnd (min v x) = min v x" "rnd (max v x) = max v x" using assms(2,3) by (simp_all add: min_def max_def)
  then show ?thesis using ewma_room [OF assms] rnd_mono unfolding ewma_def by metis
qed

lemma ewma_rounded: "rnd (ewma rnd k v x) = ewma rnd k v x"
  by (simp add: ewma_def rnd_idem)

end

interpretation binary64: float_rounding rnd64
proof
  show "rnd64 x \<le> 2 * x" if "0 \<le> x" for x
    using that rnd_pos_twice [of x] by (simp add: rnd64_def)
qed (simp_all add: rnd64_mono rnd64_idem rnd64_neg)

section \<open>How far a rounded average is from the exact one\<close>

text \<open>The average without rounding, after a list of samples.\<close>

fun exact_mean :: "rat \<Rightarrow> rat \<Rightarrow> rat list \<Rightarrow> rat" where
  "exact_mean k v [] = v"
| "exact_mean k v (x # xs) = exact_mean k (v + (x - v) / k) xs"

locale accurate_rounding = float_rounding +
  fixes u :: rat
  assumes rnd_near: "\<bar>rnd x - x\<bar> \<le> max \<bar>x\<bar> 1 * u"
begin

lemma u_nonneg: "0 \<le> u"
  using rnd_near [of 0] by (simp add: rnd_zero)

text \<open>Below a bound that is at least 1, one operation is off by at most \<open>u\<close> times the bound.\<close>

lemma rnd_near_bounded: "\<bar>x\<bar> \<le> G \<Longrightarrow> 1 \<le> G \<Longrightarrow> \<bar>rnd x - x\<bar> \<le> G * u"
  using rnd_near [of x] mult_right_mono [of "max \<bar>x\<bar> 1" G u] u_nonneg by simp

lemma ewma_error:
  assumes "4 \<le> k" and "rnd G = G" and "1 \<le> G" and "0 \<le> v" "v \<le> G" and "0 \<le> x" "x \<le> G"
    and "\<bar>v + rnd (rnd (x - v) / k)\<bar> \<le> G"
  shows "\<bar>ewma rnd k v x - (v + (x - v) / k)\<bar> \<le> (1 / k + 2) * (G * u)"
proof -
  define t where "t = rnd (x - v)"
  define q where "q = rnd (t / k)"
  have d: "\<bar>x - v\<bar> \<le> G" using assms(4-7) by (simp add: abs_le_iff)
  have t: "\<bar>t - (x - v)\<bar> \<le> G * u" using rnd_near_bounded [OF d assms(3)] by (simp add: t_def)
  have "rnd (x - v) \<le> rnd G" "rnd (- G) \<le> rnd (x - v)" using d by (intro rnd_mono; simp)+
  then have tG: "\<bar>t\<bar> \<le> G" using assms(2) rnd_neg [of G] by (simp add: t_def)
  have "\<bar>t / k\<bar> \<le> G / 1"
    using tG assms(1,3) unfolding abs_divide by (intro frac_le) auto
  then have q: "\<bar>q - t / k\<bar> \<le> G * u" using rnd_near_bounded [OF _ assms(3), of "t / k"] by (simp add: q_def)
  have r: "\<bar>rnd (v + q) - (v + q)\<bar> \<le> G * u"
    using rnd_near_bounded [OF assms(8,3)] by (simp add: q_def t_def)
  have "\<bar>(t - (x - v)) / k\<bar> \<le> G * u / k"
    using t assms(1) unfolding abs_divide by (intro frac_le) auto
  moreover have "(t - (x - v)) / k = t / k - (x - v) / k" by (simp add: diff_divide_distrib)
  moreover have "ewma rnd k v x = rnd (v + q)" by (simp add: ewma_def q_def t_def)
  ultimately have "\<bar>ewma rnd k v x - (v + (x - v) / k)\<bar> \<le> G * u + G * u + G * u / k"
    using q r by linarith
  then show ?thesis by (simp add: algebra_simps)
qed

lemma drift_sum: "k \<noteq> 0 \<Longrightarrow> (1 + 2 * k) * c * (1 - 1 / k) + (1 / k + 2) * c = (1 + 2 * k) * c" for k c :: rat
proof -
  assume k: "k \<noteq> 0"
  have "(1 + 2 * k) * c * (1 - 1 / k) = (1 + 2 * k) * c - (1 + 2 * k) / k * c" using k by (simp add: right_diff_distrib)
  moreover have "(1 + 2 * k) / k = 1 / k + 2" using k by (simp add: add_divide_distrib)
  ultimately show ?thesis by simp
qed

text \<open>The errors fade with the weights, so that they do not add up over the samples.\<close>

lemma ewma_drift:
  assumes k: "4 \<le> k" and G: "rnd G = G" "1 \<le> G" and v: "rnd v = v" "0 \<le> v" "v \<le> G" and x: "rnd x = x" "0 \<le> x" "x \<le> G"
    and near: "\<bar>v - e\<bar> \<le> (1 + 2 * k) * (G * u)"
  shows "\<bar>ewma rnd k v x - (e + (x - e) / k)\<bar> \<le> (1 + 2 * k) * (G * u)"
proof -
  have "0 \<le> v + rnd (rnd (x - v) / k) \<and> v + rnd (rnd (x - v) / k) \<le> G"
    using ewma_room [OF k v(1) x(1)] v(2,3) x(2,3) by (auto simp: min_def max_def split: if_splits)
  then have "\<bar>v + rnd (rnd (x - v) / k)\<bar> \<le> G" by simp
  then have one: "\<bar>ewma rnd k v x - (v + (x - v) / k)\<bar> \<le> (1 / k + 2) * (G * u)"
    by (rule ewma_error [OF k G v(2,3) x(2,3)])
  let ?b = "v + (x - v) / k" and ?c = "e + (x - e) / k" and ?E = "(1 + 2 * k) * (G * u)"
  have "?b - ?c = (v - e) * (1 - 1 / k)" by (simp add: diff_divide_distrib algebra_simps)
  moreover have "\<bar>(v - e) * (1 - 1 / k)\<bar> \<le> ?E * (1 - 1 / k)"
    using near k unfolding abs_mult by (intro mult_mono) (auto simp: divide_simps)
  ultimately have two: "\<bar>?b - ?c\<bar> \<le> ?E * (1 - 1 / k)" by simp
  have "\<bar>ewma rnd k v x - ?c\<bar> \<le> \<bar>ewma rnd k v x - ?b\<bar> + \<bar>?b - ?c\<bar>" 
    using abs_triangle_ineq [of "ewma rnd k v x - ?b" "?b - ?c"] by (simp only: add_diff_eq diff_add_cancel)
  also have "\<dots> \<le> (1 / k + 2) * (G * u) + ?E * (1 - 1 / k)" using one two by (rule add_mono)
  also have "\<dots> = ?E" using drift_sum [of k "G * u"] k by (simp only: add.commute)
  finally show ?thesis .
qed

end

interpretation binary64_acc: accurate_rounding rnd64 "1 / 2 ^ 53"
proof
  show "\<bar>rnd64 x - x\<bar> \<le> max \<bar>x\<bar> 1 * (1 / 2 ^ 53)" for x
    using rnd64_near [of x] by (simp only: times_divide_eq_right mult_1_right)
qed

end
