(* ===== verification/Rx_Stats.thy ===== *)
theory Rx_Stats
  imports Rx_Types Rx_Atomic Rx_Double
begin

text \<open>
  \<open>rx_stats.c\<close>: the counters, the jitter and gap averages, and the retrying read of
  \<open>rx_stats_snapshot\<close>. The clock is a parameter: \<open>now_us\<close> is what \<open>get_time_us\<close>
  returned. Signed 64-bit arithmetic that overflows is undefined in C and is \<open>None\<close> here.
\<close>

section \<open>The code\<close>

text \<open>
  The two bodies of \<open>get_time_us\<close>: from the performance counter and its frequency, and
  from the seconds and nanoseconds of \<open>CLOCK_MONOTONIC\<close>. A division by zero traps.
\<close>

definition get_time_us_win32 :: "u64 \<Rightarrow> u64 \<Rightarrow> u64 option" where
  "get_time_us_win32 count freq = (if freq = 0 then None else Some (count * 1000000 div freq))"

definition get_time_us_posix :: "u64 \<Rightarrow> u64 \<Rightarrow> u64" where
  "get_time_us_posix tv_sec tv_nsec = tv_sec * 1000000 + tv_nsec div 1000"

record rx_stats_state_t =
  frames_received :: u64
  frames_dropped :: u64
  packets_received :: u64
  packets_lost :: u64
  stat_seq :: u64
  jitter :: double
  avg_interpacket_gap_us :: double
  last_rtp_ts :: u32
  last_arrival_us :: u64
  has_prev :: bool

definition rx_stats_init :: rx_stats_state_t where
  "rx_stats_init = \<lparr>frames_received = 0, frames_dropped = 0, packets_received = 0, packets_lost = 0,
     stat_seq = 0, jitter = 0, avg_interpacket_gap_us = 0, last_rtp_ts = 0, last_arrival_us = 0,
     has_prev = False\<rparr>"

text \<open>A signed 64-bit result, if it is in range.\<close>

definition s64 :: "int \<Rightarrow> int option" where
  "s64 n = (if - (2 ^ 63) \<le> n \<and> n < 2 ^ 63 then Some n else None)"

definition rtp_ticks_to_us :: "u32 \<Rightarrow> int option" where
  "rtp_ticks_to_us d = do { prod \<leftarrow> s64 (uint d * 1000000); s64 (prod div 90000) }"

definition rx_stats_packet :: "u64 \<Rightarrow> u32 \<Rightarrow> rx_stats_state_t \<Rightarrow> rx_stats_state_t option" where
  "rx_stats_packet now_us rtp_timestamp s =
     do { let s = s\<lparr>packets_received := snd (rx_atomic64_add (packets_received s) 1)\<rparr>;
          s \<leftarrow> (if has_prev s then
                 do { let d_arrival = sint (now_us - last_arrival_us s);
                      d_rtp \<leftarrow> rtp_ticks_to_us (rtp_timestamp - last_rtp_ts s);
                      diff \<leftarrow> s64 (d_arrival - d_rtp);
                      diff \<leftarrow> (if diff < 0 then s64 (- diff) else Some diff);
                      let s = s\<lparr>stat_seq := snd (rx_atomic64_add (stat_seq s) 1)\<rparr>;
                      let s = s\<lparr>jitter := ewma rnd64 16 (jitter s) (rnd64 (of_int diff))\<rparr>;
                      let s = s\<lparr>avg_interpacket_gap_us :=
                                 ewma rnd64 256 (avg_interpacket_gap_us s) (rnd64 (of_int d_arrival))\<rparr>;
                      Some (s\<lparr>stat_seq := snd (rx_atomic64_add (stat_seq s) 1)\<rparr>) }
               else Some s);
          Some (s\<lparr>last_rtp_ts := rtp_timestamp, last_arrival_us := now_us, has_prev := True\<rparr>) }"

definition rx_stats_frame :: "bool \<Rightarrow> rx_stats_state_t \<Rightarrow> rx_stats_state_t" where
  "rx_stats_frame incomplete s =
     (let s = s\<lparr>frames_received := snd (rx_atomic64_add (frames_received s) 1)\<rparr>
      in if incomplete then s\<lparr>frames_dropped := snd (rx_atomic64_add (frames_dropped s) 1)\<rparr> else s)"

definition rx_stats_lost :: "u64 \<Rightarrow> rx_stats_state_t \<Rightarrow> rx_stats_state_t" where
  "rx_stats_lost count s = s\<lparr>packets_lost := snd (rx_atomic64_add (packets_lost s) count)\<rparr>"

record st2110rx_stats_t =
  st_frames_received :: u64
  st_frames_dropped :: u64
  st_packets_received :: u64
  st_packets_lost :: u64
  st_avg_interpacket_gap_us :: double
  st_jitter_us :: double

text \<open>
  The retry loop: \<open>view n\<close> is what the four loads of the attempt after \<open>n\<close> earlier ones
  returned, in the order of the code (sequence, jitter, gap, sequence).
\<close>

function snapshot_loop ::
    "(nat \<Rightarrow> u64 \<times> double \<times> double \<times> u64) \<Rightarrow> nat \<Rightarrow> double \<times> double \<times> nat" where
  "snapshot_loop view attempts =
     (let (seq1, j, g, seq2) = view attempts;
          attempts = attempts + 1
      in if attempts > 1000 then (j, g, attempts)
         else if seq1 \<noteq> seq2 \<or> seq1 AND 1 \<noteq> 0 then snapshot_loop view attempts
         else (j, g, attempts))"
  by pat_completeness auto
termination
  by (relation "measure (\<lambda>(view, n). 1001 - n)") auto

declare snapshot_loop.simps [simp del]

text \<open>\<open>counters\<close> are the four counter values as loaded before the loop.\<close>

definition rx_stats_snapshot ::
    "u64 \<times> u64 \<times> u64 \<times> u64 \<Rightarrow> (nat \<Rightarrow> u64 \<times> double \<times> double \<times> u64) \<Rightarrow> st2110rx_stats_t" where
  "rx_stats_snapshot counters view =
     (let (fr, fd, pr, pl) = counters; (j, g, attempts) = snapshot_loop view 0
      in \<lparr>st_frames_received = fr, st_frames_dropped = fd, st_packets_received = pr,
          st_packets_lost = pl, st_avg_interpacket_gap_us = g, st_jitter_us = j\<rparr>)"

text \<open>The snapshot while no packet is being processed: every load sees the state.\<close>

definition snapshot_of :: "rx_stats_state_t \<Rightarrow> st2110rx_stats_t" where
  "snapshot_of s = rx_stats_snapshot
     (fst (rx_atomic64_load (frames_received s)), fst (rx_atomic64_load (frames_dropped s)),
      fst (rx_atomic64_load (packets_received s)), fst (rx_atomic64_load (packets_lost s)))
     (\<lambda>_. (fst (rx_atomic64_load (stat_seq s)), jitter s, avg_interpacket_gap_us s,
           fst (rx_atomic64_load (stat_seq s))))"

section \<open>Arithmetic\<close>

lemma uint_u32_bounds: "0 \<le> uint (d :: u32) \<and> uint d < 4294967296"
  using uint_lt2p [of d] by simp

text \<open>The timestamp difference never overflows, and is below 13.3 hours.\<close>

lemma rtp_ticks_to_us_Some: "rtp_ticks_to_us d = Some (uint d * 1000000 div 90000)"
  "0 \<le> uint (d :: u32) * 1000000 div 90000" "uint d * 1000000 div 90000 < 47721858845"
proof -
  have "uint d * 1000000 div 90000 < 47721858845"
    using uint_u32_bounds [of d] zdiv_mono1 [of "uint d * 1000000" "4294967295 * 1000000" 90000] by simp
  moreover have "0 \<le> uint d * 1000000 div 90000"
    by (intro pos_imp_zdiv_nonneg_iff [THEN iffD2]) simp_all
  ultimately show "rtp_ticks_to_us d = Some (uint d * 1000000 div 90000)"
    "0 \<le> uint d * 1000000 div 90000" "uint d * 1000000 div 90000 < 47721858845"
    using uint_u32_bounds [of d] by (auto simp: rtp_ticks_to_us_def s64_def)
qed

text \<open>What the code computes of two arrivals and two timestamps.\<close>

definition arrival_us :: "u64 \<Rightarrow> rx_stats_state_t \<Rightarrow> int" where
  "arrival_us now_us s = sint (now_us - last_arrival_us s)"

definition transit_change_us :: "u64 \<Rightarrow> u32 \<Rightarrow> rx_stats_state_t \<Rightarrow> int" where
  "transit_change_us now_us ts s = \<bar>arrival_us now_us s - uint (ts - last_rtp_ts s) * 1000000 div 90000\<bar>"

text \<open>With a clock that does not run backwards, the signed difference is the elapsed time.\<close>

lemma arrival_us_monotone:
  assumes "last_arrival_us s \<le> now_us" and "uint now_us - uint (last_arrival_us s) < 2 ^ 63"
  shows "arrival_us now_us s = uint now_us - uint (last_arrival_us s)" "0 \<le> arrival_us now_us s"
proof -
  have "uint (now_us - last_arrival_us s) = uint now_us - uint (last_arrival_us s)"
    using assms(1) by (simp add: uint_sub_lem word_le_def)
  moreover from this have "sint (now_us - last_arrival_us s) = uint (now_us - last_arrival_us s)"
    using assms by (simp add: sint_uint signed_take_bit_int_eq_self word_le_def)
  ultimately show "arrival_us now_us s = uint now_us - uint (last_arrival_us s)"
    "0 \<le> arrival_us now_us s"
    using assms(1) by (auto simp: arrival_us_def word_le_def)
qed

section \<open>One packet\<close>

lemma abs_diff_s64:
  "do { diff \<leftarrow> s64 n; if diff < 0 then s64 (- diff) else Some diff } =
     (if - (2 ^ 63) < n \<and> n < 2 ^ 63 then Some \<bar>n\<bar> else None)"
  by (auto simp: s64_def)

text \<open>The counters and timestamps, and the averages when there is a packet to compare with.\<close>

definition stats_step :: "u64 \<Rightarrow> u32 \<Rightarrow> rx_stats_state_t \<Rightarrow> rx_stats_state_t" where
  "stats_step now_us ts s =
     (if has_prev s
      then s\<lparr>stat_seq := stat_seq s + 2,
             jitter := ewma rnd64 16 (jitter s) (rnd64 (of_int (transit_change_us now_us ts s))),
             avg_interpacket_gap_us :=
               ewma rnd64 256 (avg_interpacket_gap_us s) (rnd64 (of_int (arrival_us now_us s)))\<rparr>
      else s)\<lparr>packets_received := packets_received s + 1, last_rtp_ts := ts,
               last_arrival_us := now_us, has_prev := True\<rparr>"

lemma arrival_us_range: "- (2 ^ 63) \<le> arrival_us now_us s" "arrival_us now_us s < 2 ^ 63"
  using sint_greater_eq [of "now_us - last_arrival_us s"] sint_less [of "now_us - last_arrival_us s"]
  by (simp_all add: arrival_us_def)

text \<open>
  The only undefined behaviour: a clock that jumped back so far that the difference is
  out of the signed range.
\<close>

lemma rx_stats_packet_eq:
  "rx_stats_packet now_us ts s =
     (if has_prev s \<longrightarrow> - (2 ^ 63) < arrival_us now_us s - uint (ts - last_rtp_ts s) * 1000000 div 90000
      then Some (stats_step now_us ts s) else None)"
proof (cases "has_prev s")
  case False
  then show ?thesis by (simp add: rx_stats_packet_def stats_step_def)
next
  case True
  let ?s = "s\<lparr>packets_received := packets_received s + 1\<rparr>"
  let ?n = "arrival_us now_us s - uint (ts - last_rtp_ts s) * 1000000 div 90000"
  have "?n < 2 ^ 63"
    using arrival_us_range(2) [of now_us s] rtp_ticks_to_us_Some(2) [of "ts - last_rtp_ts s"] by linarith
  then have chk: "do { diff \<leftarrow> s64 ?n; if diff < 0 then s64 (- diff) else Some diff }
      = (if - (2 ^ 63) < ?n then Some (transit_change_us now_us ts s) else None)"
    by (simp add: abs_diff_s64 transit_change_us_def)
  have "rx_stats_packet now_us ts s =
    do { diff \<leftarrow> do { diff \<leftarrow> s64 ?n; if diff < 0 then s64 (- diff) else Some diff };
         Some (?s\<lparr>jitter := ewma rnd64 16 (jitter s) (rnd64 (of_int diff)),
             avg_interpacket_gap_us :=
               ewma rnd64 256 (avg_interpacket_gap_us s) (rnd64 (of_int (arrival_us now_us s))),
             stat_seq := stat_seq s + 1 + 1, last_rtp_ts := ts, last_arrival_us := now_us, has_prev := True\<rparr>) }"
    using True by (simp add: rx_stats_packet_def rtp_ticks_to_us_Some(1) arrival_us_def Let_def
        split: option.splits)
  then show ?thesis
    unfolding chk using True by (simp add: stats_step_def)
qed

section \<open>The invariant\<close>

definition stats_ok :: "rx_stats_state_t \<Rightarrow> bool" where
  "stats_ok s \<longleftrightarrow> rnd64 (jitter s) = jitter s \<and> rnd64 (avg_interpacket_gap_us s) = avg_interpacket_gap_us s
     \<and> 0 \<le> jitter s \<and> even (stat_seq s)"

lemma stats_ok_init: "stats_ok rx_stats_init"
  by (simp add: stats_ok_def rx_stats_init_def binary64.rnd_zero)

lemma transit_change_nonneg: "0 \<le> transit_change_us now_us ts s"
  by (simp add: transit_change_us_def)

lemma stats_ok_step: "stats_ok s \<Longrightarrow> stats_ok (stats_step now_us ts s)"
  using binary64.ewma_between [of 16 "jitter s" "rnd64 (of_int (transit_change_us now_us ts s))"]
    binary64.rnd_nonneg [of "of_int (transit_change_us now_us ts s)"] transit_change_nonneg [of now_us ts s]
  by (auto simp: stats_ok_def stats_step_def binary64.ewma_rounded binary64.rnd_idem)

lemma stats_ok_frame: "stats_ok (rx_stats_frame b s) = stats_ok s"
  by (simp add: stats_ok_def rx_stats_frame_def Let_def)

lemma stats_ok_lost: "stats_ok (rx_stats_lost n s) = stats_ok s"
  by (simp add: stats_ok_def rx_stats_lost_def)

section \<open>Snapshots\<close>

lemma snapshot_loop_step:
  "view n = (q, j, g, q') \<Longrightarrow> snapshot_loop view n =
     (if n + 1 > 1000 \<or> (q = q' \<and> q AND 1 = 0) then (j, g, n + 1) else snapshot_loop view (n + 1))"
  by (subst snapshot_loop.simps) auto

text \<open>
  At most 1001 attempts; and if the loop did not give up, the values are those of the last
  attempt, whose two sequence loads agreed on an even number.
\<close>

lemma snapshot_loop_result:
  assumes "attempts \<le> 1000" and "snapshot_loop view attempts = (j, g, n)"
  shows "attempts < n \<and> n \<le> 1001 \<and> fst (snd (view (n - 1))) = j \<and> fst (snd (snd (view (n - 1)))) = g
     \<and> (n \<le> 1000 \<longrightarrow> fst (view (n - 1)) = snd (snd (snd (view (n - 1)))) \<and> fst (view (n - 1)) AND 1 = 0)"
  using assms
proof (induction "1001 - attempts" arbitrary: attempts rule: less_induct)
  case less
  obtain q j' g' q' where v: "view attempts = (q, j', g', q')" by (cases "view attempts") auto
  show ?case
  proof (cases "attempts + 1 > 1000 \<or> (q = q' \<and> q AND 1 = 0)")
    case True
    then have "n = attempts + 1" "j' = j" "g' = g"
      using less.prems(2) snapshot_loop_step [of view attempts, OF v] by auto
    then show ?thesis using True less.prems(1) v by auto
  next
    case False
    have "snapshot_loop view (attempts + 1) = (j, g, n)"
      using less.prems(2) unfolding snapshot_loop_step [of view attempts, OF v] if_not_P [OF False] .
    moreover have "1001 - (attempts + 1) < 1001 - attempts" "attempts + 1 \<le> 1000"
      using False by auto
    ultimately have "attempts + 1 < n \<and> n \<le> 1001 \<and> fst (snd (view (n - 1))) = j
        \<and> fst (snd (snd (view (n - 1)))) = g
        \<and> (n \<le> 1000 \<longrightarrow> fst (view (n - 1)) = snd (snd (snd (view (n - 1)))) \<and> fst (view (n - 1)) AND 1 = 0)"
      by (intro less.hyps)
    then show ?thesis by (meson add_lessD1)
  qed
qed

lemma even_and_one: "even (w :: u64) \<longleftrightarrow> w AND 1 = 0"
  by (simp add: even_iff_mod_2_eq_zero and_one_eq)

text \<open>With no update in progress, the first attempt succeeds.\<close>

lemma snapshot_of_quiet:
  assumes "stats_ok s"
  shows "snapshot_of s = \<lparr>st_frames_received = frames_received s, st_frames_dropped = frames_dropped s,
    st_packets_received = packets_received s, st_packets_lost = packets_lost s,
    st_avg_interpacket_gap_us = avg_interpacket_gap_us s, st_jitter_us = jitter s\<rparr>"
  using assms
  by (simp add: snapshot_of_def rx_stats_snapshot_def snapshot_loop_step stats_ok_def even_and_one)

section \<open>A stream of packets\<close>

text \<open>Each element is the clock reading and the RTP timestamp of one packet.\<close>

fun stats_run :: "(u64 \<times> u32) list \<Rightarrow> rx_stats_state_t \<Rightarrow> rx_stats_state_t option" where
  "stats_run [] s = Some s"
| "stats_run ((now_us, ts) # es) s = do { s \<leftarrow> rx_stats_packet now_us ts s; stats_run es s }"

text \<open>A clock that does not run backwards, with at most \<open>B\<close> microseconds between packets.\<close>

fun steady_clock :: "u64 \<Rightarrow> int \<Rightarrow> u64 list \<Rightarrow> bool" where
  "steady_clock t0 B [] = True"
| "steady_clock t0 B (t # ts) = (t0 \<le> t \<and> uint t - uint t0 \<le> B \<and> steady_clock t B ts)"

definition stats_within :: "int \<Rightarrow> rx_stats_state_t \<Rightarrow> bool" where
  "stats_within B s \<longleftrightarrow> stats_ok s \<and> jitter s \<le> of_int B
     \<and> 0 \<le> avg_interpacket_gap_us s \<and> avg_interpacket_gap_us s \<le> of_int B"

lemma stats_packet_within:
  assumes s: "stats_within B s" and B: "47721858845 \<le> B" "B < 2 ^ 53"
    and clock: "has_prev s \<longrightarrow> last_arrival_us s \<le> now_us \<and> uint now_us - uint (last_arrival_us s) \<le> B"
  shows "rx_stats_packet now_us ts s = Some (stats_step now_us ts s)"
    and "stats_within B (stats_step now_us ts s)"
proof -
  let ?a = "arrival_us now_us s" and ?x = "transit_change_us now_us ts s"
  note r = rtp_ticks_to_us_Some(2,3) [of "ts - last_rtp_ts s"]
  have a: "0 \<le> ?a" "?a \<le> B" if "has_prev s"
    using clock that arrival_us_monotone [of s now_us] B(2) by auto
  then show "rx_stats_packet now_us ts s = Some (stats_step now_us ts s)"
    unfolding rx_stats_packet_eq using r by (intro if_P impI) force
  have x: "0 \<le> ?x" "?x \<le> B" if "has_prev s"
    using a [OF that] r B(1) by (auto simp: transit_change_us_def abs_le_iff)
  have exact: "rnd64 (of_int ?a) = of_int ?a" "rnd64 (of_int ?x) = of_int ?x" if "has_prev s"
    using a [OF that] x [OF that] B(2) by (intro rnd64_int; simp)+
  show "stats_within B (stats_step now_us ts s)"
  proof (cases "has_prev s")
    case False
    then show ?thesis using s stats_ok_step [of s now_us ts] by (simp add: stats_within_def stats_step_def)
  next
    case True
    have "min (jitter s) (of_int ?x) \<le> ewma rnd64 16 (jitter s) (of_int ?x)
        \<and> ewma rnd64 16 (jitter s) (of_int ?x) \<le> max (jitter s) (of_int ?x)"
      using s exact(2) [OF True] by (intro binary64.ewma_between) (simp_all add: stats_within_def stats_ok_def)
    moreover have "min (avg_interpacket_gap_us s) (of_int ?a) \<le> ewma rnd64 256 (avg_interpacket_gap_us s) (of_int ?a)
        \<and> ewma rnd64 256 (avg_interpacket_gap_us s) (of_int ?a) \<le> max (avg_interpacket_gap_us s) (of_int ?a)"
      using s exact(1) [OF True] by (intro binary64.ewma_between) (simp_all add: stats_within_def stats_ok_def)
    moreover have "(of_int ?x :: rat) \<le> of_int B" "(of_int ?a :: rat) \<le> of_int B" "(0 :: rat) \<le> of_int ?a"
      using a [OF True] x [OF True] by simp_all
    moreover have "max (jitter s) (of_int ?x) \<le> of_int B"
      "max (avg_interpacket_gap_us s) (of_int ?a) \<le> of_int B"
      "0 \<le> min (avg_interpacket_gap_us s) (of_int ?a)"
      using s calculation(3-5) by (simp_all add: stats_within_def)
    ultimately show ?thesis
      using s True exact stats_ok_step [of s now_us ts]
      by (auto simp: stats_within_def stats_step_def intro: order_trans)
  qed
qed

lemma stats_run_within:
  assumes "stats_within B s" and "47721858845 \<le> B" and "B < 2 ^ 53"
    and "has_prev s \<longrightarrow> last_arrival_us s = t0" and "steady_clock t0 B (map fst es)"
  shows "\<exists>s'. stats_run es s = Some s' \<and> stats_within B s'
           \<and> packets_received s' = packets_received s + of_nat (length es)
           \<and> frames_received s' = frames_received s \<and> packets_lost s' = packets_lost s"
  using assms(1,4,5)
proof (induction es arbitrary: s t0)
  case Nil
  then show ?case by simp
next
  case (Cons e es)
  obtain now_us ts where e: "e = (now_us, ts)" by (cases e)
  let ?s = "stats_step now_us ts s"
  have clock: "has_prev s \<longrightarrow> last_arrival_us s \<le> now_us \<and> uint now_us - uint (last_arrival_us s) \<le> B"
    using Cons.prems(2,3) e by auto
  note p = stats_packet_within [OF Cons.prems(1) assms(2,3) clock, of ts]
  have f: "last_arrival_us ?s = now_us" "packets_received ?s = packets_received s + 1"
      "frames_received ?s = frames_received s" "packets_lost ?s = packets_lost s"
    by (simp_all add: stats_step_def)
  have "\<exists>s'. stats_run es ?s = Some s' \<and> stats_within B s'
         \<and> packets_received s' = packets_received ?s + of_nat (length es)
         \<and> frames_received s' = frames_received ?s \<and> packets_lost s' = packets_lost ?s"
    using Cons.prems(3) e p(2) f(1) by (intro Cons.IH [of ?s now_us]) auto
  then show ?case using p(1) f e by (simp add: algebra_simps)
qed

end
