(* ===== verification/Rx_Averages.thy ===== *)
theory Rx_Averages
  imports Rx_Stats
begin

text \<open>
  How good the averages of \<open>rx_stats.c\<close> are: the jitter and the mean gap, updated in double
  arithmetic, against the exact weighted means of what they average.
\<close>

section \<open>The samples\<close>

text \<open>
  For each packet after the first, the time since the last one, and by how much that
  differs from the time between the two timestamps (both in microseconds).
\<close>

fun spacings :: "u64 \<times> u32 \<Rightarrow> (u64 \<times> u32) list \<Rightarrow> (int \<times> int) list" where
  "spacings p [] = []"
| "spacings (t0, r0) ((t, r) # es) =
     (let d = uint t - uint t0 in (d, \<bar>d - uint (r - r0) * 1000000 div 90000\<bar>) # spacings (t, r) es)"

text \<open>A sample as the state gives it.\<close>

lemma spacing_of_state:
  assumes "last_arrival_us s = t0" and "last_rtp_ts s = r0" and "0 \<le> uint t - uint t0" "uint t - uint t0 < 2 ^ 53"
  shows "arrival_us t s = uint t - uint t0"
    and "transit_change_us t r s = \<bar>uint t - uint t0 - uint (r - r0) * 1000000 div 90000\<bar>"
proof -
  show a: "arrival_us t s = uint t - uint t0"
    using assms arrival_us_monotone [of s t] by (simp add: word_le_def)
  then show "transit_change_us t r s = \<bar>uint t - uint t0 - uint (r - r0) * 1000000 div 90000\<bar>"
    using assms(2) by (simp add: transit_change_us_def)
qed

section \<open>One average\<close>

text \<open>An average that is a double, within its bound, and near the exact one.\<close>

definition tracks :: "rat \<Rightarrow> int \<Rightarrow> rat \<Rightarrow> double \<Rightarrow> bool" where
  "tracks k B e v \<longleftrightarrow> rnd64 v = v \<and> 0 \<le> v \<and> v \<le> of_int B \<and> \<bar>v - e\<bar> \<le> (1 + 2 * k) * of_int B / 2 ^ 53"

lemma tracks_zero: "0 \<le> B \<Longrightarrow> 0 \<le> k \<Longrightarrow> tracks k B 0 0"
  by (simp add: tracks_def binary64.rnd_zero)

lemma tracks_step:
  assumes v: "tracks k B e v" and k: "4 \<le> k" and B: "1 \<le> B" "B < 2 ^ 53" and x: "0 \<le> x" "x \<le> B"
  shows "tracks k B (e + (of_int x - e) / k) (ewma rnd64 k v (rnd64 (of_int x)))"
proof -
  have r: "rnd64 (of_int x) = of_int x" "rnd64 (of_int B) = of_int B" using x B by (intro rnd64_int; simp)+
  have b: "(0 :: rat) \<le> of_int x" "of_int x \<le> (of_int B :: rat)" "1 \<le> (of_int B :: rat)" using x B by simp_all
  note t = v [unfolded tracks_def]
  have drift: "\<bar>ewma rnd64 k v (of_int x) - (e + (of_int x - e) / k)\<bar> \<le> (1 + 2 * k) * (of_int B * (1 / 2 ^ 53))"
    using t b by (intro binary64_acc.ewma_drift [OF k r(2)] r(1)) (simp_all add: mult.assoc)
  have "min v (of_int x) \<le> ewma rnd64 k v (of_int x) \<and> ewma rnd64 k v (of_int x) \<le> max v (of_int x)"
    using t by (intro binary64.ewma_between [OF k] r(1)) simp
  then have "0 \<le> ewma rnd64 k v (of_int x)" "ewma rnd64 k v (of_int x) \<le> of_int B"
    using t b(1,2) by (auto simp: min_def max_def split: if_splits)
  then show ?thesis using drift by (simp add: tracks_def r(1) binary64.ewma_rounded mult.assoc)
qed

section \<open>A stream\<close>

lemma stats_run_tracks:
  assumes "has_prev s" and "last_arrival_us s = t0" and "last_rtp_ts s = r0"
    and J: "1 \<le> J" "J < 2 ^ 53" and G: "1 \<le> G" "G < 2 ^ 53"
    and "\<forall>(d, x) \<in> set (spacings (t0, r0) es). 0 \<le> d \<and> d \<le> G \<and> x \<le> J"
    and "tracks 16 J ej (jitter s)" and "tracks 256 G eg (avg_interpacket_gap_us s)"
  shows "\<exists>s'. stats_run es s = Some s'
    \<and> tracks 16 J (exact_mean 16 ej (map (of_int \<circ> snd) (spacings (t0, r0) es))) (jitter s')
    \<and> tracks 256 G (exact_mean 256 eg (map (of_int \<circ> fst) (spacings (t0, r0) es))) (avg_interpacket_gap_us s')
    \<and> packets_received s' = packets_received s + of_nat (length es)
    \<and> frames_received s' = frames_received s \<and> packets_lost s' = packets_lost s"
  using assms(1-3,8-10)
proof (induction es arbitrary: s t0 r0 ej eg)
  case Nil
  then show ?case by simp
next
  case (Cons e es)
  obtain t r where e: "e = (t, r)" by (cases e)
  let ?d = "uint t - uint t0" and ?x = "\<bar>uint t - uint t0 - uint (r - r0) * 1000000 div 90000\<bar>"
  let ?s = "stats_step t r s"
  have b: "0 \<le> ?d" "?d \<le> G" "?x \<le> J" and rest: "\<forall>(d, x) \<in> set (spacings (t, r) es). 0 \<le> d \<and> d \<le> G \<and> x \<le> J"
    using Cons.prems(4) e by (simp_all add: Let_def)
  have a: "arrival_us t s = ?d" "transit_change_us t r s = ?x"
    using spacing_of_state [OF Cons.prems(2,3) b(1)] b(2) G(2) by auto
  have step: "rx_stats_packet t r s = Some ?s"
    unfolding rx_stats_packet_eq using b(1) a(1) rtp_ticks_to_us_Some(3) [of "r - last_rtp_ts s"]
    by (intro if_P impI) simp
  have f: "has_prev ?s" "last_arrival_us ?s = t" "last_rtp_ts ?s = r" "packets_received ?s = packets_received s + 1"
      "frames_received ?s = frames_received s" "packets_lost ?s = packets_lost s"
      "jitter ?s = ewma rnd64 16 (jitter s) (rnd64 (of_int ?x))"
      "avg_interpacket_gap_us ?s = ewma rnd64 256 (avg_interpacket_gap_us s) (rnd64 (of_int ?d))"
    using Cons.prems(1) a by (simp_all add: stats_step_def)
  have t: "tracks 16 J (ej + (of_int ?x - ej) / 16) (jitter ?s)"
      "tracks 256 G (eg + (of_int ?d - eg) / 256) (avg_interpacket_gap_us ?s)"
    unfolding f(7,8) using Cons.prems(5,6) J G b by (intro tracks_step; simp)+
  have run: "stats_run (e # es) s = stats_run es ?s" using step e by simp
  have sp: "spacings (t0, r0) (e # es) = (?d, ?x) # spacings (t, r) es" by (simp add: e Let_def)
  show ?case unfolding run sp using Cons.IH [OF f(1-3) rest t] f(4-6) by (simp add: add.commute add.left_commute)
qed

text \<open>From a fresh state, the first packet only sets the reference.\<close>

lemma stats_run_fresh:
  "stats_run ((t0, r0) # es) rx_stats_init
     = stats_run es (rx_stats_init\<lparr>packets_received := 1, last_rtp_ts := r0, last_arrival_us := t0, has_prev := True\<rparr>)"
  by (simp add: rx_stats_packet_eq stats_step_def rx_stats_init_def)

end
