(* ===== verification/Rx_Seqlock.thy ===== *)
theory Rx_Seqlock
  imports Rx_Stats
begin

text \<open>
  \<open>rx_stats_packet\<close> and \<open>rx_stats_snapshot\<close> running at the same time: the receive thread
  updates the two averages between two increments of the sequence counter, and another
  thread reads them in the retry loop. Each shared access is one step, in any
  interleaving (sequentially consistent memory; the C code's plain accesses to the two
  doubles are a data race in the C11 model, which this abstracts from).

  The fields after \<open>r_attempts\<close> are history, read by no step: the pairs published so
  far, the number of increments, and that number at the reader's first load.
\<close>

datatype writer_pc =
    WIdle
  | WBegun double double      \<comment> \<open>sequence odd, about to store the jitter\<close>
  | WJitter double double     \<comment> \<open>jitter stored, about to store the gap\<close>
  | WGap double double        \<comment> \<open>both stored, about to increment again\<close>

datatype reader_pc =
    RLoad1
  | RLoadJitter u64
  | RLoadGap u64 double
  | RLoad2 u64 double double
  | RDone double double       \<comment> \<open>left the loop by its condition\<close>
  | RGaveUp double double     \<comment> \<open>left it by the \<open>break\<close>\<close>

record seqlock =
  m_seq :: u64
  m_jitter :: double
  m_gap :: double
  w_pc :: writer_pc
  r_pc :: reader_pc
  r_attempts :: nat
  published :: "(double \<times> double) list"
  ticks :: nat
  r_ticks :: nat

inductive writer_step :: "seqlock \<Rightarrow> seqlock \<Rightarrow> bool" where
  begin_update: "w_pc s = WIdle \<Longrightarrow>
     writer_step s (s\<lparr>m_seq := snd (rx_atomic64_add (m_seq s) 1), ticks := Suc (ticks s), w_pc := WBegun j g\<rparr>)"
| store_jitter: "w_pc s = WBegun j g \<Longrightarrow>
     writer_step s (s\<lparr>m_jitter := j, w_pc := WJitter j g\<rparr>)"
| store_gap: "w_pc s = WJitter j g \<Longrightarrow>
     writer_step s (s\<lparr>m_gap := g, w_pc := WGap j g\<rparr>)"
| end_update: "w_pc s = WGap j g \<Longrightarrow>
     writer_step s (s\<lparr>m_seq := snd (rx_atomic64_add (m_seq s) 1), ticks := Suc (ticks s), w_pc := WIdle,
                      published := published s @ [(j, g)]\<rparr>)"

inductive reader_step :: "seqlock \<Rightarrow> seqlock \<Rightarrow> bool" where
  load_seq1: "r_pc s = RLoad1 \<Longrightarrow>
     reader_step s (s\<lparr>r_pc := RLoadJitter (fst (rx_atomic64_load (m_seq s))), r_ticks := ticks s\<rparr>)"
| load_jitter: "r_pc s = RLoadJitter q \<Longrightarrow>
     reader_step s (s\<lparr>r_pc := RLoadGap q (m_jitter s)\<rparr>)"
| load_gap: "r_pc s = RLoadGap q j \<Longrightarrow>
     reader_step s (s\<lparr>r_pc := RLoad2 q j (m_gap s)\<rparr>)"
| load_seq2: "r_pc s = RLoad2 q j g \<Longrightarrow>
     reader_step s (s\<lparr>r_attempts := Suc (r_attempts s),
       r_pc := (if Suc (r_attempts s) > 1000 then RGaveUp j g
                else if q \<noteq> fst (rx_atomic64_load (m_seq s)) \<or> q AND 1 \<noteq> 0 then RLoad1
                else RDone j g)\<rparr>)"

inductive_cases writer_stepE [elim]: "writer_step s t"
inductive_cases reader_stepE [elim]: "reader_step s t"

inductive seqlock_step :: "seqlock \<Rightarrow> seqlock \<Rightarrow> bool" where
  writer: "writer_step s t \<Longrightarrow> seqlock_step s t"
| reader: "reader_step s t \<Longrightarrow> seqlock_step s t"

definition seqlock_init :: "double \<Rightarrow> double \<Rightarrow> seqlock" where
  "seqlock_init j g = \<lparr>m_seq = 0, m_jitter = j, m_gap = g, w_pc = WIdle, r_pc = RLoad1,
     r_attempts = 0, published = [(j, g)], ticks = 0, r_ticks = 0\<rparr>"

inductive seqlock_reach :: "double \<Rightarrow> double \<Rightarrow> seqlock \<Rightarrow> bool" for j0 g0 where
  start: "seqlock_reach j0 g0 (seqlock_init j0 g0)"
| step: "seqlock_reach j0 g0 s \<Longrightarrow> seqlock_step s t \<Longrightarrow> seqlock_reach j0 g0 t"

section \<open>The invariant\<close>

text \<open>The counter is even exactly between updates, and then memory holds the last pair.\<close>

definition writer_inv :: "seqlock \<Rightarrow> bool" where
  "writer_inv s \<longleftrightarrow> m_seq s = of_nat (ticks s) \<and> length (published s) = ticks s div 2 + 1
     \<and> (case w_pc s of
          WIdle \<Rightarrow> even (ticks s) \<and> (m_jitter s, m_gap s) = last (published s)
        | WBegun j g \<Rightarrow> odd (ticks s)
        | WJitter j g \<Rightarrow> odd (ticks s) \<and> m_jitter s = j
        | WGap j g \<Rightarrow> odd (ticks s) \<and> m_jitter s = j \<and> m_gap s = g)"

text \<open>
  What the reader holds is right as long as the counter has not moved since its first load.
\<close>

definition undisturbed :: "seqlock \<Rightarrow> bool" where
  "undisturbed s \<longleftrightarrow> even (r_ticks s) \<and> ticks s = r_ticks s"

definition reader_inv :: "seqlock \<Rightarrow> bool" where
  "reader_inv s \<longleftrightarrow> r_ticks s \<le> ticks s \<and> r_attempts s \<le> 1001
     \<and> (case r_pc s of
          RLoad1 \<Rightarrow> r_attempts s \<le> 1000
        | RLoadJitter q \<Rightarrow> r_attempts s \<le> 1000 \<and> q = of_nat (r_ticks s)
        | RLoadGap q j \<Rightarrow> r_attempts s \<le> 1000 \<and> q = of_nat (r_ticks s)
            \<and> (undisturbed s \<longrightarrow> j = fst (last (published s)))
        | RLoad2 q j g \<Rightarrow> r_attempts s \<le> 1000 \<and> q = of_nat (r_ticks s)
            \<and> (undisturbed s \<longrightarrow> (j, g) = last (published s))
        | RDone j g \<Rightarrow> ticks s < 2 ^ 64 \<longrightarrow> (j, g) \<in> set (published s)
        | RGaveUp j g \<Rightarrow> r_attempts s = 1001)"

text \<open>An even counter means no update is in progress.\<close>

lemma even_ticks_idle:
  assumes "writer_inv s" and "even (ticks s)"
  shows "(m_jitter s, m_gap s) = last (published s)"
  using assms by (auto simp: writer_inv_def split: writer_pc.splits)

lemma even_of_nat_u64: "even (of_nat n :: u64) \<longleftrightarrow> even n"
  by simp

lemma of_nat_u64_inj: "(of_nat m :: u64) = of_nat n \<Longrightarrow> m < 2 ^ 64 \<Longrightarrow> n < 2 ^ 64 \<Longrightarrow> m = n"
  by (simp add: word_of_nat_eq_iff take_bit_eq_mod)

lemma writer_inv_step: "seqlock_step s t \<Longrightarrow> writer_inv s \<Longrightarrow> writer_inv t"
proof (induction rule: seqlock_step.induct)
  case (writer s t)
  then show ?case
    by (elim writer_stepE) (auto simp: writer_inv_def)
next
  case (reader s t)
  then show ?case
    by (elim reader_stepE) (simp_all add: writer_inv_def split: writer_pc.splits)
qed

text \<open>An increment by the writer disturbs every read in progress; a store changes nothing the reader holds.\<close>

lemma reader_inv_writer_step: "writer_step s t \<Longrightarrow> reader_inv s \<Longrightarrow> reader_inv t"
  by (elim writer_stepE) (auto simp: reader_inv_def undisturbed_def split: reader_pc.splits)

lemma reader_inv_reader_step:
  assumes "reader_step s t" and "reader_inv s" and w: "writer_inv s"
  shows "reader_inv t"
  using assms(1)
proof (cases rule: reader_step.cases)
  case load_seq1
  then show ?thesis using assms(2) w by (simp add: reader_inv_def writer_inv_def)
next
  case (load_jitter q)
  then show ?thesis using assms(2) even_ticks_idle [OF w]
    by (auto simp: reader_inv_def undisturbed_def prod_eq_iff)
next
  case (load_gap q j)
  then show ?thesis using assms(2) even_ticks_idle [OF w]
    by (auto simp: reader_inv_def undisturbed_def prod_eq_iff)
next
  case (load_seq2 q j g)
  have "(j, g) \<in> set (published s)" if "q = m_seq s" "q AND 1 = 0" "ticks s < 2 ^ 64"
  proof -
    have q: "q = of_nat (r_ticks s)" "r_ticks s \<le> ticks s" "undisturbed s \<longrightarrow> (j, g) = last (published s)"
      using assms(2) load_seq2 by (simp_all add: reader_inv_def)
    have "even (r_ticks s)" using that(2) q(1) even_of_nat_u64 even_and_one by metis
    moreover have "r_ticks s = ticks s"
      using that q w by (intro of_nat_u64_inj) (auto simp: writer_inv_def)
    ultimately have "(j, g) = last (published s)" using q(3) by (simp add: undisturbed_def)
    moreover have "published s \<noteq> []" using w by (auto simp: writer_inv_def)
    ultimately show ?thesis by simp
  qed
  then show ?thesis using assms(2) load_seq2 by (auto simp: reader_inv_def)
qed

lemma seqlock_reach_inv: "seqlock_reach j0 g0 s \<Longrightarrow> writer_inv s \<and> reader_inv s"
proof (induction rule: seqlock_reach.induct)
  case start
  then show ?case by (simp add: writer_inv_def reader_inv_def seqlock_init_def)
next
  case (step s t)
  then have "writer_inv t" using writer_inv_step by blast
  moreover have "reader_inv t"
    using step by (auto elim!: seqlock_step.cases intro: reader_inv_writer_step reader_inv_reader_step)
  ultimately show ?case by simp
qed

text \<open>The reader never waits: whatever the writer does, it has at most \<open>reader_fuel\<close> steps left.\<close>

definition reader_fuel :: "seqlock \<Rightarrow> nat" where
  "reader_fuel s =
     (case r_pc s of
        RLoad1 \<Rightarrow> 4 * (1001 - r_attempts s)
      | RLoadJitter q \<Rightarrow> 4 * (1001 - r_attempts s) - 1
      | RLoadGap q j \<Rightarrow> 4 * (1001 - r_attempts s) - 2
      | RLoad2 q j g \<Rightarrow> 4 * (1001 - r_attempts s) - 3
      | _ \<Rightarrow> 0)"

lemma reader_fuel_step: "reader_step s t \<Longrightarrow> reader_inv s \<Longrightarrow> reader_fuel t < reader_fuel s"
  by (elim reader_stepE) (auto simp: reader_fuel_def reader_inv_def)

lemma reader_fuel_writer: "writer_step s t \<Longrightarrow> reader_fuel t = reader_fuel s"
  by (elim writer_stepE) (auto simp: reader_fuel_def split: reader_pc.splits)

lemma reader_progress: "0 < reader_fuel s \<Longrightarrow> \<exists>t. reader_step s t"
  by (cases "r_pc s") (auto simp: reader_fuel_def intro: reader_step.intros)

end
