(* ===== verification/Rx_Convert.thy ===== *)
theory Rx_Convert
  imports Rx_Types
begin

text \<open>
  \<open>rx_convert.c\<close>: from the big-endian 10-bit wire packing (5 bytes for the samples
  Cb, Y0, Cr, Y1 of two pixels) to 8-bit UYVY (4 bytes for the same samples).
\<close>

section \<open>The code\<close>

definition unpack_cb :: "byte \<Rightarrow> byte \<Rightarrow> u16" where
  "unpack_cb b0 b1 = push_bit 2 (ucast b0) OR drop_bit 6 (ucast b1)"

definition unpack_y0 :: "byte \<Rightarrow> byte \<Rightarrow> u16" where
  "unpack_y0 b1 b2 = push_bit 4 (ucast b1 AND 0x3F) OR drop_bit 4 (ucast b2)"

definition unpack_cr :: "byte \<Rightarrow> byte \<Rightarrow> u16" where
  "unpack_cr b2 b3 = push_bit 6 (ucast b2 AND 0x0F) OR drop_bit 2 (ucast b3)"

definition unpack_y1 :: "byte \<Rightarrow> byte \<Rightarrow> u16" where
  "unpack_y1 b3 b4 = push_bit 8 (ucast b3 AND 0x03) OR ucast b4"

text \<open>The four bytes stored for one group.\<close>

definition uyvy_of_group :: "byte \<Rightarrow> byte \<Rightarrow> byte \<Rightarrow> byte \<Rightarrow> byte \<Rightarrow> byte list" where
  "uyvy_of_group b0 b1 b2 b3 b4 =
     [ucast (drop_bit 2 (unpack_cb b0 b1)), ucast (drop_bit 2 (unpack_y0 b1 b2)),
      ucast (drop_bit 2 (unpack_cr b2 b3)), ucast (drop_bit 2 (unpack_y1 b3 b4))]"

text \<open>The inner loop over the groups of a line: \<open>sp\<close> and \<open>dp\<close> are offsets into the blocks.\<close>

fun convert_line ::
    "'z heap_scheme \<Rightarrow> ptr \<Rightarrow> nat \<Rightarrow> ptr \<Rightarrow> nat \<Rightarrow> nat \<Rightarrow> 'z heap_scheme option" where
  "convert_line h src sp dst dp 0 = Some h"
| "convert_line h src sp dst dp (Suc g) =
     do { b0 \<leftarrow> load h src sp;
          b1 \<leftarrow> load h src (sp + 1);
          b2 \<leftarrow> load h src (sp + 2);
          b3 \<leftarrow> load h src (sp + 3);
          b4 \<leftarrow> load h src (sp + 4);
          h' \<leftarrow> store h dst dp (uyvy_of_group b0 b1 b2 b3 b4);
          convert_line h' src (sp + 5) dst (dp + 4) g }"

text \<open>The outer loop: \<open>n\<close> lines are left, the next one is \<open>y\<close>.\<close>

fun convert_lines ::
    "'z heap_scheme \<Rightarrow> ptr \<Rightarrow> nat \<Rightarrow> ptr \<Rightarrow> nat \<Rightarrow> nat \<Rightarrow> nat \<Rightarrow> nat \<Rightarrow> 'z heap_scheme option" where
  "convert_lines h src src_stride dst dst_stride pgroups y 0 = Some h"
| "convert_lines h src src_stride dst dst_stride pgroups y (Suc n) =
     do { h' \<leftarrow> convert_line h src (y * src_stride) dst (y * dst_stride) pgroups;
          convert_lines h' src src_stride dst dst_stride pgroups (Suc y) n }"

definition rx_convert_be10_to_uyvy ::
    "'z heap_scheme \<Rightarrow> ptr \<Rightarrow> u32 \<Rightarrow> ptr \<Rightarrow> u32 \<Rightarrow> u32 \<Rightarrow> u32 \<Rightarrow> 'z heap_scheme option" where
  "rx_convert_be10_to_uyvy h src src_stride dst dst_stride width height =
     convert_lines h src (unat src_stride) dst (unat dst_stride) (unat (width div 2)) 0 (unat height)"

section \<open>What it computes\<close>

text \<open>The same conversion on a list: \<open>g\<close> groups of 5 bytes become \<open>g\<close> groups of 4.\<close>

fun uyvy_line :: "nat \<Rightarrow> byte list \<Rightarrow> byte list" where
  "uyvy_line 0 bs = []"
| "uyvy_line (Suc g) bs =
     uyvy_of_group (bs ! 0) (bs ! 1) (bs ! 2) (bs ! 3) (bs ! 4) @ uyvy_line g (drop 5 bs)"

text \<open>A picture of \<open>n\<close> lines, each of \<open>5 * g\<close> bytes with no padding.\<close>

definition uyvy_picture :: "nat \<Rightarrow> nat \<Rightarrow> byte list \<Rightarrow> byte list" where
  "uyvy_picture g n bs = concat (map (\<lambda>y. uyvy_line g (drop (y * (5 * g)) bs)) [0..<n])"

lemma length_uyvy_of_group [simp]: "length (uyvy_of_group b0 b1 b2 b3 b4) = 4"
  by (simp add: uyvy_of_group_def)

lemma length_uyvy_line [simp]: "length (uyvy_line g bs) = 4 * g"
  by (induction g bs rule: uyvy_line.induct) auto

lemma length_uyvy_picture [simp]: "length (uyvy_picture g n bs) = n * (4 * g)"
  by (simp add: uyvy_picture_def length_concat comp_def sum_list_triv)

lemma uyvy_line_nth:
  assumes "k < g" and "j < 4" and "5 * g \<le> length bs"
  shows "uyvy_line g bs ! (4 * k + j) =
           uyvy_of_group (bs ! (5 * k)) (bs ! (5 * k + 1)) (bs ! (5 * k + 2))
             (bs ! (5 * k + 3)) (bs ! (5 * k + 4)) ! j"
  using assms
proof (induction g bs arbitrary: k rule: uyvy_line.induct)
  case (1 bs)
  then show ?case by simp
next
  case (2 g bs)
  show ?case
  proof (cases k)
    case 0
    then show ?thesis using "2.prems"(2) by (simp add: nth_append numeral_2_eq_2)
  next
    case (Suc m)
    have "uyvy_line (Suc g) bs ! (4 * k + j) = uyvy_line g (drop 5 bs) ! (4 * m + j)"
      using Suc by (simp add: nth_append)
    then show ?thesis
      using "2.IH" [of m] "2.prems" Suc by (simp add: add.commute)
  qed
qed

lemma convert_line_obtain:
  assumes "contents h src = Some sb" and "contents h dst = Some db" and "src \<noteq> dst"
    and "sp + 5 * g \<le> length sb" and "dp + 4 * g \<le> length db"
  obtains h' where "convert_line h src sp dst dp g = Some h'"
    and "contents h' dst = Some (blit db dp (uyvy_line g (drop sp sb)))"
    and "\<And>q. q \<noteq> dst \<Longrightarrow> contents h' q = contents h q"
proof -
  have "\<exists>h'. convert_line h src sp dst dp g = Some h'
          \<and> contents h' dst = Some (blit db dp (uyvy_line g (drop sp sb)))
          \<and> (\<forall>q. q \<noteq> dst \<longrightarrow> contents h' q = contents h q)"
    using assms
  proof (induction h src sp dst dp g arbitrary: db rule: convert_line.induct)
    case (1 h src sp dst dp)
    then show ?case by simp
  next
    case (2 h src sp dst dp g)
    let ?grp = "uyvy_of_group (sb ! sp) (sb ! (sp + 1)) (sb ! (sp + 2)) (sb ! (sp + 3)) (sb ! (sp + 4))"
    obtain h1 where h1: "store h dst dp ?grp = Some h1" "contents h1 dst = Some (blit db dp ?grp)"
        "\<And>q. q \<noteq> dst \<Longrightarrow> contents h1 q = contents h q"
      using "2.prems"(2,5) heap_mem.poke_obtain [of h dst db dp ?grp] by auto
    have step: "convert_line h src sp dst dp (Suc g) = convert_line h1 src (sp + 5) dst (dp + 4) g"
      using "2.prems"(1,4) h1(1) by (simp add: mem_simps)
    have "\<exists>h'. convert_line h1 src (sp + 5) dst (dp + 4) g = Some h'
          \<and> contents h' dst = Some (blit (blit db dp ?grp) (dp + 4) (uyvy_line g (drop (sp + 5) sb)))
          \<and> (\<forall>q. q \<noteq> dst \<longrightarrow> contents h' q = contents h1 q)"
      using "2.prems" h1 by (intro "2.IH") (auto simp: mem_simps)
    moreover have "blit (blit db dp ?grp) (dp + 4) (uyvy_line g (drop (sp + 5) sb))
        = blit db dp (uyvy_line (Suc g) (drop sp sb))"
      using "2.prems"(4,5) blit_blit_append [of dp ?grp "uyvy_line g (drop (sp + 5) sb)" db]
      by (simp add: add.commute)
    ultimately show ?case using h1(3) by (simp add: step del: uyvy_line.simps convert_line.simps)
  qed
  then show ?thesis using that by blast
qed

text \<open>Whole pictures with no padding between lines, as the receiver uses them.\<close>

lemma convert_lines_tight_obtain:
  assumes "contents h src = Some sb" and "contents h dst = Some db" and "src \<noteq> dst"
    and "(y + n) * (5 * g) \<le> length sb" and "(y + n) * (4 * g) \<le> length db"
  obtains h' where "convert_lines h src (5 * g) dst (4 * g) g y n = Some h'"
    and "contents h' dst = Some (blit db (y * (4 * g))
           (concat (map (\<lambda>y. uyvy_line g (drop (y * (5 * g)) sb)) [y..<y + n])))"
    and "\<And>q. q \<noteq> dst \<Longrightarrow> contents h' q = contents h q"
proof -
  let ?ln = "\<lambda>y. uyvy_line g (drop (y * (5 * g)) sb)"
  have "\<exists>h'. convert_lines h src (5 * g) dst (4 * g) g y n = Some h'
          \<and> contents h' dst = Some (blit db (y * (4 * g)) (concat (map ?ln [y..<y + n])))
          \<and> (\<forall>q. q \<noteq> dst \<longrightarrow> contents h' q = contents h q)"
    using assms
  proof (induction n arbitrary: h y db)
    case 0
    then show ?case by simp
  next
    case (Suc n)
    have fits: "y * (5 * g) + 5 * g \<le> length sb" "y * (4 * g) + 4 * g \<le> length db"
      using Suc.prems(4,5) by (auto simp: algebra_simps)
    obtain h1 where h1: "convert_line h src (y * (5 * g)) dst (y * (4 * g)) g = Some h1"
        "contents h1 dst = Some (blit db (y * (4 * g)) (?ln y))"
        "\<And>q. q \<noteq> dst \<Longrightarrow> contents h1 q = contents h q"
      using convert_line_obtain [OF Suc.prems(1-3) fits] by blast
    have "\<exists>h'. convert_lines h1 src (5 * g) dst (4 * g) g (Suc y) n = Some h'
          \<and> contents h' dst = Some (blit (blit db (y * (4 * g)) (?ln y)) (Suc y * (4 * g))
               (concat (map ?ln [Suc y..<Suc y + n])))
          \<and> (\<forall>q. q \<noteq> dst \<longrightarrow> contents h' q = contents h1 q)"
      using Suc.prems h1 fits by (intro Suc.IH) (auto simp: mem_simps)
    moreover have "blit (blit db (y * (4 * g)) (?ln y)) (Suc y * (4 * g))
          (concat (map ?ln [Suc y..<Suc y + n]))
        = blit db (y * (4 * g)) (concat (map ?ln [y..<y + Suc n]))"
      using Suc.prems(5) blit_blit_append [of "y * (4 * g)" "?ln y" "concat (map ?ln [Suc y..<Suc y + n])" db]
      by (simp add: upt_conv_Cons length_concat comp_def sum_list_triv algebra_simps del: upt_Suc)
    ultimately show ?case using h1 by simp
  qed
  then show ?thesis using that by blast
qed

text \<open>Any strides: each line is converted in place, and nothing between the lines is touched.\<close>

definition in_line :: "nat \<Rightarrow> nat \<Rightarrow> nat \<Rightarrow> nat \<Rightarrow> bool" where
  "in_line ds g y k \<longleftrightarrow> y * ds \<le> k \<and> k < y * ds + 4 * g"

lemma in_line_unique:
  assumes "4 * g \<le> ds" and "in_line ds g y k" and "in_line ds g y' k"
  shows "y = y'"
proof (rule ccontr)
  assume "y \<noteq> y'"
  moreover have False if "in_line ds g a k" "in_line ds g b k" "a < b" for a b
  proof -
    have "Suc a * ds \<le> b * ds" using that(3) by (intro mult_le_mono) auto
    then show False using that(1,2) assms(1) by (simp add: in_line_def)
  qed
  ultimately show False using assms(2,3) by (metis nat_neq_iff)
qed

lemma convert_lines_strided_obtain:
  assumes "contents h src = Some sb" and "contents h dst = Some db" and "src \<noteq> dst"
    and "4 * g \<le> ds"
    and "\<And>z. y \<le> z \<Longrightarrow> z < y + n \<Longrightarrow> z * ss + 5 * g \<le> length sb \<and> z * ds + 4 * g \<le> length db"
  obtains h' out where "convert_lines h src ss dst ds g y n = Some h'"
    and "contents h' dst = Some out" and "length out = length db"
    and "\<And>z j. y \<le> z \<Longrightarrow> z < y + n \<Longrightarrow> j < 4 * g \<Longrightarrow>
           out ! (z * ds + j) = uyvy_line g (drop (z * ss) sb) ! j"
    and "\<And>k. k < length db \<Longrightarrow> (\<And>z. y \<le> z \<Longrightarrow> z < y + n \<Longrightarrow> \<not> in_line ds g z k) \<Longrightarrow> out ! k = db ! k"
    and "\<And>q. q \<noteq> dst \<Longrightarrow> contents h' q = contents h q"
proof -
  let ?ln = "\<lambda>z. uyvy_line g (drop (z * ss) sb)"
  let ?done = "\<lambda>h y n db h' out. contents h' dst = Some out \<and> length out = length db
    \<and> (\<forall>z j. y \<le> z \<and> z < y + n \<and> j < 4 * g \<longrightarrow> out ! (z * ds + j) = ?ln z ! j)
    \<and> (\<forall>k. k < length db \<and> (\<forall>z. y \<le> z \<and> z < y + n \<longrightarrow> \<not> in_line ds g z k) \<longrightarrow> out ! k = db ! k)
    \<and> (\<forall>q. q \<noteq> dst \<longrightarrow> contents h' q = contents h q)"
  have "\<exists>h' out. convert_lines h src ss dst ds g y n = Some h' \<and> ?done h y n db h' out"
    using assms
  proof (induction n arbitrary: h y db)
    case 0
    then show ?case by auto
  next
    case (Suc n)
    note fits = Suc.prems(5) [of y, simplified]
    obtain h1 where h1: "convert_line h src (y * ss) dst (y * ds) g = Some h1"
        "contents h1 dst = Some (blit db (y * ds) (?ln y))"
        "\<And>q. q \<noteq> dst \<Longrightarrow> contents h1 q = contents h q"
      using convert_line_obtain [OF Suc.prems(1-3)] fits by blast
    have len: "length (blit db (y * ds) (?ln y)) = length db" using fits by (simp add: mem_simps)
    have "\<exists>h' out. convert_lines h1 src ss dst ds g (Suc y) n = Some h'
        \<and> ?done h1 (Suc y) n (blit db (y * ds) (?ln y)) h' out"
      using Suc.prems h1 len by (intro Suc.IH) auto
    then obtain h' out where rest: "convert_lines h1 src ss dst ds g (Suc y) n = Some h'"
      "?done h1 (Suc y) n (blit db (y * ds) (?ln y)) h' out" by blast
    have old: "out ! k = blit db (y * ds) (?ln y) ! k"
      if "k < length db" "\<And>z. Suc y \<le> z \<Longrightarrow> z < Suc y + n \<Longrightarrow> \<not> in_line ds g z k" for k
      using rest(2) that len by auto
    have first: "out ! (y * ds + j) = ?ln y ! j" if "j < 4 * g" for j
    proof -
      have "in_line ds g y (y * ds + j)" using that by (simp add: in_line_def)
      then have "\<not> in_line ds g z (y * ds + j)" if "Suc y \<le> z" for z
        using in_line_unique [OF Suc.prems(4)] that by fastforce
      then show ?thesis using that fits by (subst old) (auto simp: nth_blit)
    qed
    have kept: "out ! k = db ! k"
      if "k < length db" "\<forall>z. y \<le> z \<and> z < y + Suc n \<longrightarrow> \<not> in_line ds g z k" for k
      using that fits by (subst old) (auto simp: nth_blit in_line_def)
    have lines: "out ! (z * ds + j) = ?ln z ! j" if "y \<le> z" "z < y + Suc n" "j < 4 * g" for z j
      using that first rest(2) by (cases "z = y") auto
    have "?done h y (Suc n) db h' out"
      using rest(2) len h1(3) lines kept by auto
    then show ?case using h1(1) rest(1) by auto
  qed
  then show ?thesis using that by blast
qed

text \<open>Whatever every store into the destination keeps, the conversion keeps.\<close>

lemma convert_line_invariant:
  assumes "\<And>h i ys h'. P h \<Longrightarrow> store h dst i ys = Some h' \<Longrightarrow> P h'"
    and "convert_line h src sp dst dp g = Some h'" and "P h"
  shows "P h'"
  using assms(2,3)
proof (induction g arbitrary: h sp dp)
  case (Suc g)
  then obtain b0 b1 b2 b3 b4 h1 where "store h dst dp (uyvy_of_group b0 b1 b2 b3 b4) = Some h1"
      "convert_line h1 src (sp + 5) dst (dp + 4) g = Some h'"
    by (auto split: bind_splits)
  then show ?case using Suc.IH Suc.prems(2) assms(1) by blast
qed simp

lemma rx_convert_invariant:
  assumes "\<And>h i ys h'. P h \<Longrightarrow> store h dst i ys = Some h' \<Longrightarrow> P h'"
    and "rx_convert_be10_to_uyvy h src ss dst ds w hgt = Some h'" and "P h"
  shows "P h'"
proof -
  have "convert_lines h src a dst b g y n = Some h' \<Longrightarrow> P h \<Longrightarrow> P h'" for h a b g y n
  proof (induction n arbitrary: h y)
    case (Suc n)
    then obtain h1 where "convert_line h src (y * a) dst (y * b) g = Some h1"
        "convert_lines h1 src a dst b g (Suc y) n = Some h'"
      by (auto split: bind_splits)
    moreover have "P h1"
      by (rule convert_line_invariant [where P = P, rotated, OF calculation(1) Suc.prems(2)])
        (rule assms(1))
    ultimately show ?case using Suc.IH by blast
  qed simp
  then show ?thesis using assms(2,3) by (simp add: rx_convert_be10_to_uyvy_def)
qed

section \<open>Samples\<close>

text \<open>A stored byte is the top eight bits of the 10-bit sample.\<close>

lemma sample_masks:
  "(0x3F :: 'a::len word) = mask 6" "(0x0F :: 'a::len word) = mask 4" "(0x03 :: 'a::len word) = mask 2"
  by (simp_all add: mask_eq_exp_minus_1)

lemmas unpack_defs = unpack_cb_def unpack_y0_def unpack_cr_def unpack_y1_def

lemma byte_bits_eqI:
  assumes "\<And>n. n < 8 \<Longrightarrow> bit (a :: byte) n = bit b n"
  shows "a = b"
  using assms by (intro bit_word_eqI) simp

lemma uyvy_of_group_bytes:
  "uyvy_of_group b0 b1 b2 b3 b4 =
     [b0, push_bit 2 b1 OR drop_bit 6 b2, push_bit 4 b2 OR drop_bit 4 b3, push_bit 6 b3 OR drop_bit 2 b4]"
proof -
  have "ucast (drop_bit 2 (unpack_cb b0 b1)) = b0"
    by (rule byte_bits_eqI) (auto simp: unpack_cb_def bit_simps dest: bit_imp_le_length)
  moreover have "ucast (drop_bit 2 (unpack_y0 b1 b2)) = push_bit 2 b1 OR drop_bit 6 (b2 :: byte)"
    by (rule byte_bits_eqI) (auto simp: unpack_y0_def bit_simps sample_masks dest: bit_imp_le_length)
  moreover have "ucast (drop_bit 2 (unpack_cr b2 b3)) = push_bit 4 b2 OR drop_bit 4 (b3 :: byte)"
    by (rule byte_bits_eqI) (auto simp: unpack_cr_def bit_simps sample_masks dest: bit_imp_le_length)
  moreover have "ucast (drop_bit 2 (unpack_y1 b3 b4)) = push_bit 6 b3 OR drop_bit 2 (b4 :: byte)"
    by (rule byte_bits_eqI) (auto simp: unpack_y1_def bit_simps sample_masks dest: bit_imp_le_length)
  ultimately show ?thesis by (simp add: uyvy_of_group_def)
qed

lemma take_bit_unat_less:
  assumes "take_bit 10 (x :: u16) = x"
  shows "unat x < 1024"
proof -
  have "take_bit 10 (unat x) = unat x"
    using assms by (metis unsigned_take_bit_eq)
  then show ?thesis using take_bit_nat_less_exp [of 10 "unat x"] by simp
qed

lemma unpack_bounds:
  "unat (unpack_cb b0 b1) < 1024" "unat (unpack_y0 b1 b2) < 1024"
  "unat (unpack_cr b2 b3) < 1024" "unat (unpack_y1 b3 b4) < 1024"
  by (rule take_bit_unat_less, rule bit_word_eqI,
      auto simp: unpack_defs bit_simps sample_masks dest: bit_imp_le_length)+

end
