(* ===== verification/Stats_Props.thy ===== *)
theory Stats_Props
  imports Rx_Averages Rx_Seqlock Rx_Convert
begin

text \<open>
  What \<open>rx_stats.c\<close> and \<open>rx_convert.c\<close> guarantee: where the statistics are defined and
  how large they get, what a concurrent snapshot can return, and where every byte of a
  converted picture comes from.
\<close>

section \<open>Statistics\<close>

text \<open>\<open>rx_stats_packet\<close> has no undefined behaviour except on a clock that jumped back by
  almost \<open>2^63\<close> microseconds: the signed difference of the two intervals, and its
  negation, stay in range otherwise. Then the counter, the two averages (only from the
  second packet on) and the remembered times are updated as \<open>stats_step\<close> says.\<close>

lemma stats_packet_defined:
  assumes "has_prev s \<Longrightarrow> - (2 ^ 63) + 47721858845 < arrival_us now_us s"
  shows "rx_stats_packet now_us ts s = Some (stats_step now_us ts s)"
proof -
  have "- (2 ^ 63) < arrival_us now_us s - uint (ts - last_rtp_ts s) * 1000000 div 90000" if "has_prev s"
    using assms [OF that] rtp_ticks_to_us_Some(3) [of "ts - last_rtp_ts s"] by linarith
  then show ?thesis by (simp add: rx_stats_packet_eq)
qed

lemma stats_packet_defined_witness:
  "\<exists>s. rx_stats_packet 2000 5000 (rx_stats_init\<lparr>has_prev := True, last_arrival_us := 1000\<rparr>) = Some s
    \<and> packets_received s = 1"
  by (subst stats_packet_defined)
    (simp_all add: arrival_us_def stats_step_def rx_stats_init_def)

text \<open>
  The Windows clock multiplies before it divides: it is exact until the counter reaches
  \<open>2^64 / 10^6\<close> (with a frequency of 10 MHz, after 21 days), and then starts again from 0.
\<close>

lemma win32_clock_exact:
  assumes "unat count * 1000000 < 2 ^ 64" and "freq \<noteq> 0"
  shows "get_time_us_win32 count freq = Some (of_nat (unat count * 1000000 div unat freq))"
proof -
  have "unat (count * 1000000) = unat count * 1000000"
    using assms(1) unat_mult_lem [of count "1000000 :: u64"] by simp
  then have "unat (count * 1000000 div freq) = unat count * 1000000 div unat freq" by (simp only: unat_div_distrib)
  then have "count * 1000000 div freq = of_nat (unat count * 1000000 div unat freq)" by (metis of_nat_unat ucast_id)
  then show ?thesis using assms(2) by (simp add: get_time_us_win32_def)
qed

lemma win32_clock_wraps:
  "get_time_us_win32 18446744073709 10000000 = Some 1844674407370"
  "get_time_us_win32 18446744073710 10000000 = Some 0"
  by (simp_all add: get_time_us_win32_def)

text \<open>C30: over any stream of packets from a fresh state with a clock that does not run
  backwards, the jitter is the running mean of the spacing errors with weight 1/16 and the
  mean gap that of the gaps with weight 1/256, up to the rounding of the double arithmetic,
  which never adds up to more than 33 and 513 parts in \<open>2^53\<close> of the largest spacing error
  \<open>J\<close> and the largest gap \<open>G\<close> of the stream; and they stay between 0 and \<open>J\<close>, and 0 and \<open>G\<close>.
  The packet counter counts the packets, the frame and loss counters stay.\<close>

lemma averages_accurate:
  assumes "\<forall>(d, x) \<in> set (spacings p es). 0 \<le> d \<and> d \<le> G \<and> x \<le> J"
    and "1 \<le> G" and "G < 2 ^ 53" and "1 \<le> J" and "J < 2 ^ 53"
  shows "\<exists>s. stats_run (p # es) rx_stats_init = Some s
    \<and> 0 \<le> jitter s \<and> jitter s \<le> of_int J
    \<and> \<bar>jitter s - exact_mean 16 0 (map (of_int \<circ> snd) (spacings p es))\<bar> \<le> 33 * of_int J / 2 ^ 53
    \<and> 0 \<le> avg_interpacket_gap_us s \<and> avg_interpacket_gap_us s \<le> of_int G
    \<and> \<bar>avg_interpacket_gap_us s - exact_mean 256 0 (map (of_int \<circ> fst) (spacings p es))\<bar> \<le> 513 * of_int G / 2 ^ 53
    \<and> packets_received s = of_nat (Suc (length es)) \<and> frames_received s = 0 \<and> packets_lost s = 0"
proof -
  obtain t0 r0 where p: "p = (t0, r0)" by (cases p)
  let ?s = "rx_stats_init\<lparr>packets_received := 1, last_rtp_ts := r0, last_arrival_us := t0, has_prev := True\<rparr>"
  have f: "has_prev ?s" "last_arrival_us ?s = t0" "last_rtp_ts ?s = r0" by simp_all
  have zero: "tracks 16 J 0 (jitter ?s)" "tracks 256 G 0 (avg_interpacket_gap_us ?s)"
    using assms(2,4) by (simp_all add: rx_stats_init_def tracks_zero)
  show ?thesis
    using stats_run_tracks [OF f assms(4,5,2,3) assms(1) [unfolded p] zero]
    unfolding p stats_run_fresh by (auto simp: tracks_def) (simp_all add: rx_stats_init_def)
qed

text \<open>Packets every 200 and 400 microseconds, all stamped 200 microseconds apart.\<close>

lemma averages_accurate_witness:
  "\<exists>s. stats_run [(1000, 0), (1200, 18), (1600, 36)] rx_stats_init = Some s \<and> packets_received s = 3
    \<and> \<bar>jitter s - 25 / 2\<bar> \<le> 33 * 200 / 2 ^ 53
    \<and> \<bar>avg_interpacket_gap_us s - (200 / 256 + (400 - 200 / 256) / 256)\<bar> \<le> 513 * 400 / 2 ^ 53"
  using averages_accurate [of "(1000, 0)" "[(1200, 18), (1600, 36)]" 400 200] by (auto simp: Let_def)

text \<open>With no update in progress a snapshot returns the six statistics as they are, each
  under its own name, after one attempt.\<close>

lemma snapshot_quiet:
  assumes "even (stat_seq s)"
  shows "snapshot_of s = \<lparr>st_frames_received = frames_received s, st_frames_dropped = frames_dropped s,
       st_packets_received = packets_received s, st_packets_lost = packets_lost s,
       st_avg_interpacket_gap_us = avg_interpacket_gap_us s, st_jitter_us = jitter s\<rparr>"
  using assms by (simp add: snapshot_of_def rx_stats_snapshot_def snapshot_loop_step even_and_one)

lemma snapshot_quiet_witness: "st_packets_lost (snapshot_of (rx_stats_lost 3 rx_stats_init)) = 3"
  by (subst snapshot_quiet) (simp_all add: rx_stats_lost_def rx_stats_init_def)

section \<open>A snapshot while packets arrive\<close>

text \<open>C20: in any interleaving of the receive thread with a reader, a snapshot that leaves the
  retry loop by its condition holds a jitter and a mean gap of the same update, one that
  was published: never a torn pair (up to \<open>2^64\<close> updates of the counter).\<close>

lemma seqlock_consistent:
  assumes "seqlock_reach j0 g0 s" and "r_pc s = RDone j g" and "ticks s < 2 ^ 64"
  shows "(j, g) \<in> set (published s)"
  using seqlock_reach_inv [OF assms(1)] assms(2,3) by (simp add: reader_inv_def)

lemma quiet_read: "\<exists>s. seqlock_reach j g s \<and> r_pc s = RDone j g \<and> ticks s = 0 \<and> published s = [(j, g)]"
proof -
  let ?s0 = "seqlock_init j g"
  let ?s1 = "?s0\<lparr>r_pc := RLoadJitter 0, r_ticks := 0\<rparr>"
  let ?s2 = "?s1\<lparr>r_pc := RLoadGap 0 j\<rparr>"
  let ?s3 = "?s2\<lparr>r_pc := RLoad2 0 j g\<rparr>"
  let ?s4 = "?s3\<lparr>r_attempts := 1, r_pc := RDone j g\<rparr>"
  have "reader_step ?s0 ?s1" using load_seq1 [of ?s0] by (simp add: seqlock_init_def)
  moreover have "reader_step ?s1 ?s2" using load_jitter [of ?s1 0] by (simp add: seqlock_init_def)
  moreover have "reader_step ?s2 ?s3" using load_gap [of ?s2 0 j] by (simp add: seqlock_init_def)
  moreover have "reader_step ?s3 ?s4" using load_seq2 [of ?s3 0 j g] by (simp add: seqlock_init_def)
  ultimately have "seqlock_reach j g ?s4"
    by (meson seqlock_reach.intros seqlock_step.reader)
  then show ?thesis by (intro exI [where x = ?s4]) (simp add: seqlock_init_def)
qed

lemma seqlock_consistent_witness:
  "\<exists>s. seqlock_reach 1 2 s \<and> r_pc s = RDone 1 2 \<and> (1, 2) \<in> set (published s)"
proof -
  obtain s where s: "seqlock_reach 1 2 s" "r_pc s = RDone 1 2" "ticks s = 0" using quiet_read by blast
  then have "(1, 2) \<in> set (published s)" by (intro seqlock_consistent) simp_all
  with s show ?thesis by blast
qed

text \<open>The steps of a run, counting those of the reader.\<close>

inductive seqlock_run :: "double \<Rightarrow> double \<Rightarrow> nat \<Rightarrow> seqlock \<Rightarrow> bool" for j0 g0 where
  run_start: "seqlock_run j0 g0 0 (seqlock_init j0 g0)"
| run_writer: "seqlock_run j0 g0 n s \<Longrightarrow> writer_step s t \<Longrightarrow> seqlock_run j0 g0 n t"
| run_reader: "seqlock_run j0 g0 n s \<Longrightarrow> reader_step s t \<Longrightarrow> seqlock_run j0 g0 (Suc n) t"

lemma seqlock_run_reach: "seqlock_run j0 g0 n s \<Longrightarrow> seqlock_reach j0 g0 s"
  by (induction rule: seqlock_run.induct) (blast intro: seqlock_reach.intros seqlock_step.intros)+

text \<open>C21: whatever the writer does, and however often, a snapshot ends within 4004 steps of
  the reader (1001 attempts of four loads), and until it has ended the reader can step:
  it never waits for the writer.\<close>

lemma snapshot_wait_free:
  assumes "seqlock_run j0 g0 n s"
  shows "n \<le> 4004 \<and> ((\<exists>j g. r_pc s = RDone j g \<or> r_pc s = RGaveUp j g) \<or> (\<exists>t. reader_step s t))"
proof -
  have "n + reader_fuel s \<le> 4004"
    using assms
  proof (induction rule: seqlock_run.induct)
    case run_start
    then show ?case by (simp add: reader_fuel_def seqlock_init_def)
  next
    case (run_writer n s t)
    then show ?case by (simp add: reader_fuel_writer)
  next
    case (run_reader n s t)
    then show ?case
      using reader_fuel_step [OF run_reader(2)] seqlock_reach_inv [OF seqlock_run_reach [OF run_reader(1)]] by simp
  qed
  moreover have "0 < reader_fuel s \<or> (\<exists>j g. r_pc s = RDone j g \<or> r_pc s = RGaveUp j g)"
    using seqlock_reach_inv [OF seqlock_run_reach [OF assms]]
    by (auto simp: reader_fuel_def reader_inv_def split: reader_pc.splits)
  ultimately show ?thesis using reader_progress by auto
qed

lemma snapshot_wait_free_witness: "\<exists>t. reader_step (seqlock_init 0 0) t"
  using snapshot_wait_free [OF run_start [of 0 0]] by (simp add: seqlock_init_def)

section \<open>Conversion\<close>

text \<open>C22: \<open>rx_convert_be10_to_uyvy\<close> on any strides that hold a line stays inside both
  buffers; byte \<open>j\<close> of group \<open>i\<close> of line \<open>z\<close> comes from the five source bytes of the same
  group, and no other byte of the destination, nor of any other block, is written.\<close>

lemma convert_every_byte:
  assumes "contents h src = Some sb" and "contents h dst = Some db" and "src \<noteq> dst"
    and "4 * unat (width div 2) \<le> unat ds"
    and "\<And>z. z < unat height \<Longrightarrow> z * unat ss + 5 * unat (width div 2) \<le> length sb
           \<and> z * unat ds + 4 * unat (width div 2) \<le> length db"
  shows "\<exists>h' out. rx_convert_be10_to_uyvy h src ss dst ds width height = Some h'
    \<and> contents h' dst = Some out \<and> length out = length db
    \<and> (\<forall>z i j. z < unat height \<and> i < unat (width div 2) \<and> j < 4 \<longrightarrow>
         out ! (z * unat ds + (4 * i + j)) =
           (let s = z * unat ss + 5 * i in uyvy_of_group (sb ! s) (sb ! (s + 1)) (sb ! (s + 2)) (sb ! (s + 3)) (sb ! (s + 4)) ! j))
    \<and> (\<forall>k < length db. (\<forall>z < unat height. \<not> in_line (unat ds) (unat (width div 2)) z k) \<longrightarrow> out ! k = db ! k)
    \<and> (\<forall>q. q \<noteq> dst \<longrightarrow> contents h' q = contents h q)"
proof -
  let ?g = "unat (width div 2)"
  obtain h' out where c: "convert_lines h src (unat ss) dst (unat ds) ?g 0 (unat height) = Some h'"
      "contents h' dst = Some out" "length out = length db"
      "\<And>z j. z < unat height \<Longrightarrow> j < 4 * ?g \<Longrightarrow> out ! (z * unat ds + j) = uyvy_line ?g (drop (z * unat ss) sb) ! j"
      "\<And>k. k < length db \<Longrightarrow> (\<And>z. z < unat height \<Longrightarrow> \<not> in_line (unat ds) ?g z k) \<Longrightarrow> out ! k = db ! k"
      "\<And>q. q \<noteq> dst \<Longrightarrow> contents h' q = contents h q"
    using convert_lines_strided_obtain [OF assms(1-4), of 0 "unat height" "unat ss"] assms(5) by (metis add_0 le0)
  have "out ! (z * unat ds + (4 * i + j)) =
      (let s = z * unat ss + 5 * i in uyvy_of_group (sb ! s) (sb ! (s + 1)) (sb ! (s + 2)) (sb ! (s + 3)) (sb ! (s + 4)) ! j)"
    if "z < unat height" "i < ?g" "j < 4" for z i j
  proof -
    have "z * unat ss + 5 * ?g \<le> length sb" using assms(5) [OF that(1)] by simp
    then show ?thesis
      using c(4) [OF that(1), of "4 * i + j"] that(2,3) uyvy_line_nth [of i ?g j "drop (z * unat ss) sb"]
      by (simp add: add.assoc Let_def)
  qed
  then show ?thesis
    using c(1-3,5,6) by (auto simp: rx_convert_be10_to_uyvy_def)
qed

lemma convert_every_byte_witness:
  "\<exists>h' out. rx_convert_be10_to_uyvy
      \<lparr>blocks = [0 \<mapsto> [0xFF, 1, 2, 3, 4], 1 \<mapsto> replicate 4 0], next_blk = 2, oom = (\<lambda>_. False), junk = (\<lambda>_ _. 0)\<rparr>
      (Some 0) 5 (Some 1) 4 2 1 = Some h' \<and> contents h' (Some 1) = Some out \<and> out ! 0 = 0xFF"
proof -
  let ?h = "\<lparr>blocks = [0 \<mapsto> [0xFF, 1, 2, 3, 4], 1 \<mapsto> replicate 4 0], next_blk = 2, oom = (\<lambda>_. False), junk = (\<lambda>_ _. 0)\<rparr>"
  have "contents ?h (Some 0) = Some [0xFF, 1, 2, 3, 4]" "contents ?h (Some 1) = Some (replicate 4 0)"
    by (simp_all add: contents_def)
  from convert_every_byte [OF this, where width = 2 and height = 1 and ds = 4 and ss = 5]
  obtain h' out where r: "rx_convert_be10_to_uyvy ?h (Some 0) 5 (Some 1) 4 2 1 = Some h'" "contents h' (Some 1) = Some out"
      "\<forall>z i j. z < unat (1 :: u32) \<and> i < unat (2 div 2 :: u32) \<and> j < 4 \<longrightarrow>
         out ! (z * unat (4 :: u32) + (4 * i + j)) =
           (let s = z * unat (5 :: u32) + 5 * i; sb = [0xFF, 1, 2, 3, 4] in
             uyvy_of_group (sb ! s) (sb ! (s + 1)) (sb ! (s + 2)) (sb ! (s + 3)) (sb ! (s + 4)) ! j)"
    by (auto simp: Let_def)
  have "out ! 0 = 0xFF"
    using r(3) [rule_format, of 0 0 0] by (simp add: uyvy_of_group_bytes Let_def)
  with r show ?thesis by blast
qed

end
