(* ===== verification/Rx_Os.thy ===== *)
theory Rx_Os
  imports Rx_Types "HOL-Library.Multiset"
begin

text \<open>
  \<open>rx_platform.h\<close>: the calls the library makes to the operating system, on the two
  platforms it is built for. Every call is an event of a trace, and what it answers comes
  from an environment that is asked with the number of events so far, so that an answer
  may change from call to call. The monitor reads a trace back as the multiset of the
  resources it leaves held; a call on something that is not held is a misuse, \<open>None\<close>.
\<close>

datatype platform = POSIX | WIN32

type_synonym rx_socket_t = int
type_synonym handle = nat
type_synonym ip_mreq = "u32 \<times> u32"     \<comment> \<open>group and interface\<close>

definition RX_INVALID_SOCKET :: rx_socket_t where "RX_INVALID_SOCKET = -1"
definition INADDR_NONE :: u32 where "INADDR_NONE = 0xFFFFFFFF"
definition INADDR_ANY :: u32 where "INADDR_ANY = 0"

text \<open>The messages handed to the log callback, by format string, with their arguments.\<close>

datatype log_msg =
    Msg_socket_failed int
  | Msg_rcvbuf_clamped int int
  | Msg_bind_failed int
  | Msg_invalid_multicast string
  | Msg_invalid_interface string
  | Msg_membership_failed int
  | Msg_socket_init_failed
  | Msg_iocp_alloc_failed
  | Msg_iocp_create_failed int
  | Msg_prime_failed int

datatype thread_priority = THREAD_PRIORITY_TIME_CRITICAL | SCHED_FIFO_MAX

datatype os_event =
    Sys_startup bool                          \<comment> \<open>\<open>WSAStartup\<close>, and whether it succeeded\<close>
  | Sys_cleanup
  | Sys_socket rx_socket_t
  | Sys_reuseaddr rx_socket_t
  | Sys_set_rcvbuf rx_socket_t int
  | Sys_get_rcvbuf rx_socket_t "int option"   \<comment> \<open>\<open>None\<close>: the call failed\<close>
  | Sys_bind rx_socket_t u16 bool
  | Sys_add_membership rx_socket_t ip_mreq bool
  | Sys_drop_membership rx_socket_t ip_mreq
  | Sys_close rx_socket_t
  | Sys_iocp_create rx_socket_t "handle option"
  | Sys_iocp_wake handle
  | Sys_close_handle handle
  | Sys_thread_create "handle option"
  | Sys_thread_join handle                    \<comment> \<open>\<open>pthread_join\<close>\<close>
  | Sys_thread_wait handle                    \<comment> \<open>\<open>WaitForSingleObject\<close>\<close>
  | Sys_close_thread handle
  | Sys_set_priority thread_priority          \<comment> \<open>of the calling thread\<close>
  | Sys_multicast_if rx_socket_t u32 bool     \<comment> \<open>from here on: the sending tool\<close>
  | Sys_sendto rx_socket_t "u32 \<times> u16" "byte list" bool   \<comment> \<open>to an address and port\<close>
  | Sys_rand nat
  | Sys_now_ms u64                            \<comment> \<open>a reading of the millisecond clock\<close>
  | Sys_sleep u32                             \<comment> \<open>the argument of \<open>usleep\<close> or \<open>Sleep\<close>\<close>
  | Log_call st2110rx_log_level_t log_msg

record world = heap +
  trace :: "os_event list"

record os_env =
  e_startup :: "nat \<Rightarrow> bool"
  e_socket :: "nat \<Rightarrow> int"
  e_rcvbuf :: "nat \<Rightarrow> int option"
  e_bind :: "nat \<Rightarrow> bool"
  e_join_group :: "nat \<Rightarrow> bool"
  e_iocp :: "nat \<Rightarrow> handle option"
  e_thread :: "nat \<Rightarrow> handle option"
  e_errno :: "nat \<Rightarrow> int"
  e_multicast_if :: "nat \<Rightarrow> bool"
  e_send :: "nat \<Rightarrow> bool"
  e_rand :: "nat \<Rightarrow> nat"
  e_monotonic :: "nat \<Rightarrow> u64 \<times> u64"     \<comment> \<open>seconds and nanoseconds\<close>
  e_tick_count :: "nat \<Rightarrow> u64"
  e_inet_addr :: "string \<Rightarrow> u32"
  e_sizeof_rx :: nat
  e_sizeof_iocp_buffer :: nat

definition emit :: "os_event \<Rightarrow> 'z world_scheme \<Rightarrow> 'z world_scheme" where
  "emit e w = w\<lparr>trace := trace w @ [e]\<rparr>"

abbreviation now :: "'z world_scheme \<Rightarrow> nat" where "now w \<equiv> length (trace w)"

text \<open>\<open>rx_log\<close> of \<open>rx_core.c\<close> and of \<open>rx_socket.c\<close>\<close>

definition rx_log ::
    "st2110rx_config_t \<Rightarrow> st2110rx_log_level_t \<Rightarrow> log_msg \<Rightarrow> 'z world_scheme \<Rightarrow> 'z world_scheme" where
  "rx_log config level msg w = (if c_has_log_cb config then emit (Log_call level msg) w else w)"

text \<open>Where the two platforms differ, each has its definition.\<close>

definition rx_socket_init_win32 :: "os_env \<Rightarrow> 'z world_scheme \<Rightarrow> int \<times> 'z world_scheme" where
  "rx_socket_init_win32 env w =
     (let ok = e_startup env (now w) in (if ok then 0 else 1, emit (Sys_startup ok) w))"

definition rx_socket_init_posix :: "'z world_scheme \<Rightarrow> int \<times> 'z world_scheme" where
  "rx_socket_init_posix w = (0, w)"

definition rx_socket_cleanup_win32 :: "'z world_scheme \<Rightarrow> 'z world_scheme" where
  "rx_socket_cleanup_win32 w = emit Sys_cleanup w"

definition rx_socket_cleanup_posix :: "'z world_scheme \<Rightarrow> 'z world_scheme" where
  "rx_socket_cleanup_posix w = w"

definition rx_socket_init :: "os_env \<Rightarrow> platform \<Rightarrow> 'z world_scheme \<Rightarrow> int \<times> 'z world_scheme" where
  "rx_socket_init env pf w = (case pf of POSIX \<Rightarrow> rx_socket_init_posix w | WIN32 \<Rightarrow> rx_socket_init_win32 env w)"

definition rx_socket_cleanup :: "platform \<Rightarrow> 'z world_scheme \<Rightarrow> 'z world_scheme" where
  "rx_socket_cleanup pf w = (case pf of POSIX \<Rightarrow> rx_socket_cleanup_posix w | WIN32 \<Rightarrow> rx_socket_cleanup_win32 w)"

definition rx_socket_close :: "rx_socket_t \<Rightarrow> 'z world_scheme \<Rightarrow> 'z world_scheme" where
  "rx_socket_close s w = emit (Sys_close s) w"

definition rx_socket_error :: "os_env \<Rightarrow> 'z world_scheme \<Rightarrow> int" where
  "rx_socket_error env w = e_errno env (now w)"

definition rx_thread_create ::
    "os_env \<Rightarrow> 'z world_scheme \<Rightarrow> int \<times> handle option \<times> 'z world_scheme" where
  "rx_thread_create env w =
     (let t = e_thread env (now w) in (if t = None then -1 else 0, t, emit (Sys_thread_create t) w))"

definition rx_thread_join_win32 :: "handle \<Rightarrow> 'z world_scheme \<Rightarrow> 'z world_scheme" where
  "rx_thread_join_win32 t w = emit (Sys_close_thread t) (emit (Sys_thread_wait t) w)"

definition rx_thread_join_posix :: "handle \<Rightarrow> 'z world_scheme \<Rightarrow> 'z world_scheme" where
  "rx_thread_join_posix t w = emit (Sys_thread_join t) w"

definition rx_thread_join :: "platform \<Rightarrow> handle \<Rightarrow> 'z world_scheme \<Rightarrow> 'z world_scheme" where
  "rx_thread_join pf t w = (case pf of POSIX \<Rightarrow> rx_thread_join_posix t w | WIN32 \<Rightarrow> rx_thread_join_win32 t w)"

text \<open>A refusal of the priority is ignored on both platforms.\<close>

definition rx_thread_set_high_priority_win32 :: "'z world_scheme \<Rightarrow> 'z world_scheme" where
  "rx_thread_set_high_priority_win32 w = emit (Sys_set_priority THREAD_PRIORITY_TIME_CRITICAL) w"

definition rx_thread_set_high_priority_posix :: "'z world_scheme \<Rightarrow> 'z world_scheme" where
  "rx_thread_set_high_priority_posix w = emit (Sys_set_priority SCHED_FIFO_MAX) w"

definition rx_thread_set_high_priority :: "platform \<Rightarrow> 'z world_scheme \<Rightarrow> 'z world_scheme" where
  "rx_thread_set_high_priority pf w =
     (case pf of POSIX \<Rightarrow> rx_thread_set_high_priority_posix w | WIN32 \<Rightarrow> rx_thread_set_high_priority_win32 w)"

lemmas platform_variants [simp] =
  rx_socket_init_win32_def rx_socket_init_posix_def rx_socket_cleanup_win32_def rx_socket_cleanup_posix_def
  rx_thread_join_win32_def rx_thread_join_posix_def
  rx_thread_set_high_priority_win32_def rx_thread_set_high_priority_posix_def

text \<open>Setting the priority is one event.\<close>

lemma set_high_priority_emit: "\<exists>c. rx_thread_set_high_priority pf w = emit (Sys_set_priority c) w"
  by (cases pf) (auto simp: rx_thread_set_high_priority_def)

text \<open>None of these touches memory.\<close>

lemma emit_simps [simp]:
  "blocks (emit e w) = blocks w" "next_blk (emit e w) = next_blk w" "oom (emit e w) = oom w"
  "junk (emit e w) = junk w" "trace (emit e w) = trace w @ [e]" "world.more (emit e w) = world.more w"
  "contents (emit e w) p = contents w p"
  by (simp_all add: emit_def contents_def split: option.splits)

section \<open>What a trace leaves held\<close>

datatype resource =
    R_startup
  | R_socket rx_socket_t
  | R_member rx_socket_t ip_mreq
  | R_iocp handle
  | R_thread handle

definition release :: "resource \<Rightarrow> resource multiset \<Rightarrow> resource multiset option" where
  "release r R = (if r \<in># R then Some (R - {#r#}) else None)"

definition require :: "resource \<Rightarrow> resource multiset \<Rightarrow> resource multiset \<Rightarrow> resource multiset option" where
  "require r new R = (if r \<in># R then Some (R + new) else None)"

fun monitor :: "os_event \<Rightarrow> resource multiset \<Rightarrow> resource multiset option" where
  "monitor (Sys_startup ok) R = Some (if ok then add_mset R_startup R else R)"
| "monitor Sys_cleanup R = release R_startup R"
| "monitor (Sys_socket s) R = Some (if s = RX_INVALID_SOCKET then R else add_mset (R_socket s) R)"
| "monitor (Sys_reuseaddr s) R = require (R_socket s) {#} R"
| "monitor (Sys_set_rcvbuf s n) R = require (R_socket s) {#} R"
| "monitor (Sys_get_rcvbuf s n) R = require (R_socket s) {#} R"
| "monitor (Sys_bind s p ok) R = require (R_socket s) {#} R"
| "monitor (Sys_add_membership s m ok) R = require (R_socket s) (if ok then {#R_member s m#} else {#}) R"
| "monitor (Sys_drop_membership s m) R =
     (if R_socket s \<in># R then release (R_member s m) R else None)"
| "monitor (Sys_close s) R = release (R_socket s) R"
| "monitor (Sys_iocp_create s p) R =
     require (R_socket s) (case p of None \<Rightarrow> {#} | Some x \<Rightarrow> {#R_iocp x#}) R"
| "monitor (Sys_iocp_wake p) R = require (R_iocp p) {#} R"
| "monitor (Sys_close_handle p) R = release (R_iocp p) R"
| "monitor (Sys_thread_create t) R = Some (case t of None \<Rightarrow> R | Some x \<Rightarrow> add_mset (R_thread x) R)"
| "monitor (Sys_thread_join t) R = release (R_thread t) R"
| "monitor (Sys_thread_wait t) R = require (R_thread t) {#} R"
| "monitor (Sys_close_thread t) R = release (R_thread t) R"
| "monitor (Sys_set_priority c) R = Some R"
| "monitor (Sys_multicast_if s a ok) R = require (R_socket s) {#} R"
| "monitor (Sys_sendto s dst bs ok) R = require (R_socket s) {#} R"
| "monitor (Sys_rand n) R = Some R"
| "monitor (Sys_now_ms t) R = Some R"
| "monitor (Sys_sleep n) R = Some R"
| "monitor (Log_call l m) R = Some R"

fun monitor_run :: "os_event list \<Rightarrow> resource multiset \<Rightarrow> resource multiset option" where
  "monitor_run [] R = Some R"
| "monitor_run (e # es) R = do { R \<leftarrow> monitor e R; monitor_run es R }"

definition resources_of :: "os_event list \<Rightarrow> resource multiset option" where
  "resources_of es = monitor_run es {#}"

lemma monitor_run_append: "monitor_run (es @ fs) R = do { R \<leftarrow> monitor_run es R; monitor_run fs R }"
  by (induction es arbitrary: R) (auto simp: bind_assoc split: bind_splits)

lemma resources_of_snoc: "resources_of (es @ [e]) = do { R \<leftarrow> resources_of es; monitor e R }"
  by (simp add: resources_of_def monitor_run_append split: bind_splits)

lemma release_add [simp]: "release r (add_mset r R) = Some R"
  by (simp add: release_def)

text \<open>The world in which exactly \<open>R\<close> is held, with no misuse so far.\<close>

definition holding :: "'z world_scheme \<Rightarrow> resource multiset \<Rightarrow> bool" where
  "holding w R \<longleftrightarrow> resources_of (trace w) = Some R"

lemma holding_emit: "holding w R \<Longrightarrow> monitor e R = Some S \<Longrightarrow> holding (emit e w) S"
  by (simp add: holding_def resources_of_snoc)

lemma holding_log [simp]: "holding (rx_log config l m w) R = holding w R"
  by (auto simp: rx_log_def holding_def resources_of_snoc split: bind_splits)

lemma holding_priority [simp]: "holding (rx_thread_set_high_priority pf w) R = holding w R"
  by (auto simp: rx_thread_set_high_priority_def holding_def resources_of_snoc split: bind_splits platform.split)

lemma rx_thread_join_holding:
  assumes "holding w (add_mset (R_thread t) R)"
  shows "holding (rx_thread_join pf t w) R"
proof (cases pf)
  case POSIX
  then show ?thesis using holding_emit [OF assms] by (simp add: rx_thread_join_def)
next
  case WIN32
  have "holding (emit (Sys_thread_wait t) w) (add_mset (R_thread t) R)"
    by (rule holding_emit [OF assms]) (simp add: require_def)
  then show ?thesis using holding_emit WIN32 by (fastforce simp: rx_thread_join_def)
qed

lemma holding_blocks [simp]: "holding (w\<lparr>blocks := b\<rparr>) R = holding w R"
  by (simp add: holding_def)

lemma rx_log_simps [simp]:
  "blocks (rx_log c l m w) = blocks w" "next_blk (rx_log c l m w) = next_blk w"
  "oom (rx_log c l m w) = oom w" "junk (rx_log c l m w) = junk w"
  "world.more (rx_log c l m w) = world.more w" "contents (rx_log c l m w) p = contents w p"
  by (simp_all add: rx_log_def)

section \<open>Start-up of the socket library\<close>

text \<open>The heap part of the world, unchanged by a call.\<close>

definition same_heap :: "'z world_scheme \<Rightarrow> 'z world_scheme \<Rightarrow> bool" where
  "same_heap w w' \<longleftrightarrow> blocks w' = blocks w \<and> next_blk w' = next_blk w \<and> oom w' = oom w \<and> junk w' = junk w
     \<and> world.more w' = world.more w"

lemma same_heap_refl [simp]: "same_heap w w"
  by (simp add: same_heap_def)

lemma same_heap_simps [simp]:
  "same_heap w (emit e w') = same_heap w w'" "same_heap w (rx_log c l m w') = same_heap w w'"
  "same_heap w (rx_socket_cleanup pf w') = same_heap w w'"
  by (simp_all add: same_heap_def rx_socket_cleanup_def split: platform.split)

lemma same_heap_trans: "same_heap w w' \<Longrightarrow> same_heap w' w'' \<Longrightarrow> same_heap w w''"
  by (simp add: same_heap_def)

definition startup_held :: "platform \<Rightarrow> resource multiset" where
  "startup_held pf = (if pf = WIN32 then {#R_startup#} else {#})"

lemma rx_socket_init_holding:
  assumes "holding w R" and "rx_socket_init env pf w = (rc, w')"
  shows "holding w' (if rc = 0 then startup_held pf + R else R)" and "same_heap w w'"
  using assms
  by (auto simp: rx_socket_init_def startup_held_def Let_def split: platform.splits if_splits
      intro: holding_emit)

lemma rx_socket_cleanup_holding:
  "holding w (startup_held pf + R) \<Longrightarrow> holding (rx_socket_cleanup pf w) R"
  by (cases pf) (auto simp: rx_socket_cleanup_def startup_held_def intro: holding_emit)

end
