(* ===== verification/Rx_Socket.thy ===== *)
theory Rx_Socket
  imports Rx_Os
begin

text \<open>
  \<open>rx_socket.c\<close>: opening the multicast socket and closing it. The caller always gives a
  configuration and a place for the membership (\<open>&rx->config\<close> and \<open>&rx->mreq\<close>); the
  membership is written only on success.
\<close>

section \<open>The code\<close>

text \<open>\<open>(int)socket_buffer_size\<close>, or the default when it is 0\<close>

definition requested_rcvbuf :: "st2110rx_config_t \<Rightarrow> int" where
  "requested_rcvbuf config =
     (if c_socket_buffer_size config \<noteq> 0 then sint (c_socket_buffer_size config)
      else ST2110RX_DEFAULT_SOCKET_BUF)"

text \<open>The receive buffer is asked for, and a smaller one than asked for is reported.\<close>

definition set_rcvbuf ::
    "os_env \<Rightarrow> st2110rx_config_t \<Rightarrow> rx_socket_t \<Rightarrow> 'z world_scheme \<Rightarrow> 'z world_scheme" where
  "set_rcvbuf env config sock w =
     (let buf_size = requested_rcvbuf config;
          w = emit (Sys_set_rcvbuf sock buf_size) w;
          got = e_rcvbuf env (now w);
          w = emit (Sys_get_rcvbuf sock got) w
      in case got of
           None \<Rightarrow> w
         | Some actual \<Rightarrow>
             if actual < buf_size
             then rx_log config ST2110RX_LOG_WARN (Msg_rcvbuf_clamped buf_size actual) w else w)"

text \<open>The interface address: \<open>None\<close> when a given one does not parse.\<close>

definition interface_ip :: "os_env \<Rightarrow> st2110rx_config_t \<Rightarrow> u32 option" where
  "interface_ip env config =
     (case c_interface_addr config of
        None \<Rightarrow> Some INADDR_ANY
      | Some [] \<Rightarrow> Some INADDR_ANY
      | Some addr \<Rightarrow> if e_inet_addr env addr = INADDR_NONE then None else Some (e_inet_addr env addr))"

definition fail_closed ::
    "st2110rx_config_t \<Rightarrow> log_msg \<Rightarrow> rx_socket_t \<Rightarrow> ip_mreq \<Rightarrow> 'z world_scheme
       \<Rightarrow> rx_socket_t \<times> ip_mreq \<times> 'z world_scheme" where
  "fail_closed config msg sock mreq w =
     (RX_INVALID_SOCKET, mreq, rx_socket_close sock (rx_log config ST2110RX_LOG_ERROR msg w))"

text \<open>From the address checks to the end: the group is joined, or the socket closed.\<close>

definition join_group ::
    "os_env \<Rightarrow> st2110rx_config_t \<Rightarrow> string \<Rightarrow> rx_socket_t \<Rightarrow> ip_mreq \<Rightarrow> 'z world_scheme
       \<Rightarrow> rx_socket_t \<times> ip_mreq \<times> 'z world_scheme" where
  "join_group env config addr sock mreq_out w =
     (if e_inet_addr env addr = INADDR_NONE
      then fail_closed config (Msg_invalid_multicast addr) sock mreq_out w
      else case interface_ip env config of
        None \<Rightarrow> fail_closed config (Msg_invalid_interface (the (c_interface_addr config))) sock mreq_out w
      | Some iface_ip \<Rightarrow>
          (let mreq = (e_inet_addr env addr, iface_ip);
               joined = e_join_group env (now w);
               w = emit (Sys_add_membership sock mreq joined) w
           in if \<not> joined
              then fail_closed config (Msg_membership_failed (rx_socket_error env w)) sock mreq_out w
              else (sock, mreq, w)))"

definition rx_udp_create ::
    "os_env \<Rightarrow> st2110rx_config_t \<Rightarrow> ip_mreq \<Rightarrow> 'z world_scheme
       \<Rightarrow> rx_socket_t \<times> ip_mreq \<times> 'z world_scheme" where
  "rx_udp_create env config mreq_out w =
     (case c_multicast_addr config of
        None \<Rightarrow> (RX_INVALID_SOCKET, mreq_out, w)
      | Some addr \<Rightarrow>
         (let sock = e_socket env (now w); w = emit (Sys_socket sock) w
          in if sock = RX_INVALID_SOCKET
             then (RX_INVALID_SOCKET, mreq_out,
                   rx_log config ST2110RX_LOG_ERROR (Msg_socket_failed (rx_socket_error env w)) w)
             else
               let w = emit (Sys_reuseaddr sock) w;
                   w = set_rcvbuf env config sock w;
                   port = (if c_port config \<noteq> 0 then c_port config else ST2110RX_DEFAULT_PORT);
                   bound = e_bind env (now w);
                   w = emit (Sys_bind sock port bound) w
               in if \<not> bound then fail_closed config (Msg_bind_failed (rx_socket_error env w)) sock mreq_out w
                  else join_group env config addr sock mreq_out w))"

definition rx_udp_destroy ::
    "rx_socket_t \<Rightarrow> ip_mreq \<Rightarrow> 'z world_scheme \<Rightarrow> 'z world_scheme" where
  "rx_udp_destroy sock mreq w =
     (if sock = RX_INVALID_SOCKET then w
      else rx_socket_close sock (emit (Sys_drop_membership sock mreq) w))"

section \<open>What it holds\<close>

text \<open>The socket and its membership, or nothing.\<close>

definition joined_socket :: "rx_socket_t \<Rightarrow> ip_mreq \<Rightarrow> resource multiset" where
  "joined_socket sock mreq =
     (if sock = RX_INVALID_SOCKET then {#} else {#R_socket sock, R_member sock mreq#})"

definition holds_joined :: "resource multiset \<Rightarrow> rx_socket_t \<times> ip_mreq \<times> 'z world_scheme \<Rightarrow> bool" where
  "holds_joined R r = (case r of (sock, mreq, w) \<Rightarrow> holding w (joined_socket sock mreq + R))"

text \<open>A call that only needs the socket.\<close>

lemma holding_use:
  "holding w R \<Longrightarrow> R_socket s \<in># R \<Longrightarrow> monitor e R = require (R_socket s) {#} R \<Longrightarrow> holding (emit e w) R"
  by (rule holding_emit [of w R]) (simp_all add: require_def)

lemma holding_set_rcvbuf:
  "holding w R \<Longrightarrow> R_socket sock \<in># R \<Longrightarrow> holding (set_rcvbuf env config sock w) R"
  by (auto simp: set_rcvbuf_def Let_def intro!: holding_use [where s = sock] split: option.splits)

lemma memory_set_rcvbuf [simp]:
  "blocks (set_rcvbuf env c s w) = blocks w" "next_blk (set_rcvbuf env c s w) = next_blk w"
  "oom (set_rcvbuf env c s w) = oom w" "junk (set_rcvbuf env c s w) = junk w"
  "world.more (set_rcvbuf env c s w) = world.more w"
  by (simp_all add: set_rcvbuf_def Let_def split: option.splits)

lemma fail_closed_holds:
  "holding w (add_mset (R_socket s) R) \<Longrightarrow> holds_joined R (fail_closed c m s mreq w)"
  by (auto simp: fail_closed_def holds_joined_def joined_socket_def rx_socket_close_def
      intro!: holding_emit [where R = "add_mset (R_socket s) R"])

lemma join_group_holds:
  assumes "holding w (add_mset (R_socket s) R)" and "s \<noteq> RX_INVALID_SOCKET"
  shows "holds_joined R (join_group env config addr s mreq w)"
proof -
  have "holding (emit (Sys_add_membership s m ok) w)
      (if ok then add_mset (R_member s m) (add_mset (R_socket s) R) else add_mset (R_socket s) R)" for m ok
    by (rule holding_emit [OF assms(1)]) (simp add: require_def)
  from this [where ok = True] this [where ok = False]
  have "holds_joined R (s, m, emit (Sys_add_membership s m True) w)"
    and "holding (emit (Sys_add_membership s m False) w) (add_mset (R_socket s) R)" for m
    using assms(2) by (simp_all add: holds_joined_def joined_socket_def add_mset_commute)
  then show ?thesis
    using assms(1) by (simp add: join_group_def Let_def fail_closed_holds split: option.split)
qed

text \<open>
  Opening: either the socket is open and joined to the group, or nothing is left open,
  whichever call fails.
\<close>

lemma rx_udp_create_holds:
  assumes "holding w R"
  shows "holds_joined R (rx_udp_create env config mreq w)"
proof (cases "c_multicast_addr config")
  case None
  then show ?thesis using assms by (simp add: rx_udp_create_def holds_joined_def joined_socket_def)
next
  case (Some addr)
  let ?s = "e_socket env (now w)" and ?w1 = "emit (Sys_socket (e_socket env (now w))) w"
  show ?thesis
  proof (cases "?s = RX_INVALID_SOCKET")
    case True
    then have "holding ?w1 R" using assms by (intro holding_emit [of w R]) simp_all
    then show ?thesis using Some True
      by (simp add: rx_udp_create_def holds_joined_def joined_socket_def Let_def)
  next
    case False
    let ?R = "add_mset (R_socket ?s) R"
    have "holding ?w1 ?R" using assms False by (intro holding_emit [of w R]) simp_all
    then have "holding (emit (Sys_reuseaddr ?s) ?w1) ?R"
      by (rule holding_use [where s = ?s]) simp_all
    then have "holding (set_rcvbuf env config ?s (emit (Sys_reuseaddr ?s) ?w1)) ?R"
      by (rule holding_set_rcvbuf) simp
    then have "holding (emit (Sys_bind ?s p b) (set_rcvbuf env config ?s (emit (Sys_reuseaddr ?s) ?w1))) ?R" for p b
      by (rule holding_use [where s = ?s]) simp_all
    then show ?thesis using Some False
      by (simp add: rx_udp_create_def Let_def fail_closed_holds join_group_holds)
  qed
qed

lemma rx_udp_destroy_holding:
  assumes "holding w (joined_socket sock mreq + R)"
  shows "holding (rx_udp_destroy sock mreq w) R"
proof (cases "sock = RX_INVALID_SOCKET")
  case False
  then have "holding w (add_mset (R_member sock mreq) (add_mset (R_socket sock) R))"
    using assms by (simp add: joined_socket_def add_mset_commute)
  then have "holding (emit (Sys_drop_membership sock mreq) w) (add_mset (R_socket sock) R)"
    by (rule holding_emit) simp
  then show ?thesis
    using False by (auto simp: rx_udp_destroy_def rx_socket_close_def intro: holding_emit)
qed (use assms in \<open>simp add: rx_udp_destroy_def joined_socket_def\<close>)

section \<open>Memory is not touched\<close>

lemma fail_closed_memory [simp]:
  "fail_closed c m s mreq w = (s', mreq', w') \<Longrightarrow>
     blocks w' = blocks w \<and> next_blk w' = next_blk w \<and> oom w' = oom w \<and> junk w' = junk w
       \<and> world.more w' = world.more w"
  by (auto simp: fail_closed_def rx_socket_close_def)

lemma rx_udp_create_memory:
  "rx_udp_create env config mreq w = (s, mreq', w') \<Longrightarrow>
     blocks w' = blocks w \<and> next_blk w' = next_blk w \<and> oom w' = oom w \<and> junk w' = junk w
       \<and> world.more w' = world.more w"
  by (auto simp: rx_udp_create_def join_group_def Let_def dest!: fail_closed_memory
      split: option.splits if_splits)

lemma rx_udp_destroy_memory [simp]:
  "blocks (rx_udp_destroy s m w) = blocks w" "next_blk (rx_udp_destroy s m w) = next_blk w"
  "oom (rx_udp_destroy s m w) = oom w" "junk (rx_udp_destroy s m w) = junk w"
  "world.more (rx_udp_destroy s m w) = world.more w"
  by (simp_all add: rx_udp_destroy_def rx_socket_close_def)

end
