(* ===== verification/Rx_Core.thy ===== *)
theory Rx_Core
  imports Rx_Socket Rx_Stats Rx_Convert Rx_Assembler
begin

text \<open>
  \<open>rx_core.c\<close>: the receiver object and its operations, composed of the assembler, the
  statistics, the converter and the socket. The platform (\<open>_WIN32\<close> or not) is an
  argument where the source has \<open>#ifdef\<close>s. The user's frame callback is a parameter; it
  may call \<open>st2110rx_get_stats\<close>, so it is given the statistics as they are at the call.
\<close>

section \<open>The receiver\<close>

record st2110rx =
  r_self :: ptr                      \<comment> \<open>the block of the object itself\<close>
  r_config :: st2110rx_config_t
  r_sock :: rx_socket_t
  r_mreq :: ip_mreq
  r_thread :: "handle option"
  r_running :: bool
  r_thread_started :: bool
  r_sockets_initialized :: bool
  r_assembler :: rx_frame_assembler_t
  r_stats :: rx_stats_state_t
  r_pkt_buf :: ptr
  r_pkt_buf_size :: nat
  r_convert_buf :: ptr
  r_convert_stride :: u32
  r_iocp :: "handle option"          \<comment> \<open>\<open>iocp\<close> and \<open>iocp_buffers\<close>: Windows only\<close>
  r_iocp_buffers :: ptr

definition RX_IOCP_NUM_BUFFERS :: nat where "RX_IOCP_NUM_BUFFERS = 64"
definition RX_IOCP_BUFFER_SIZE :: nat where "RX_IOCP_BUFFER_SIZE = 9200"

text \<open>\<open>calloc(1, sizeof( *rx))\<close>: every field 0.\<close>

definition zero_rx :: "ptr \<Rightarrow> st2110rx_config_t \<Rightarrow> st2110rx" where
  "zero_rx self config = \<lparr>r_self = self, r_config = config, r_sock = 0, r_mreq = (0, 0), r_thread = None,
     r_running = False, r_thread_started = False, r_sockets_initialized = False,
     r_assembler = zero_assembler, r_stats = rx_stats_init, r_pkt_buf = None, r_pkt_buf_size = 0,
     r_convert_buf = None, r_convert_stride = 0, r_iocp = None, r_iocp_buffers = None\<rparr>"

section \<open>Frames and packets\<close>

definition rx_internal_frame_cb :: "'z frame_cb \<Rightarrow> st2110rx \<Rightarrow> 'z frame_cb" where
  "rx_internal_frame_cb frame_cb rx frame h =
     (if \<not> c_has_frame_cb (r_config rx) then Some h
      else
        let out = zero_frame\<lparr>f_width := f_width frame, f_height := f_height frame,
                    f_timestamp_ns := f_timestamp_ns frame, f_frame_number := f_frame_number frame,
                    f_incomplete := f_incomplete frame\<rparr>
        in if c_output_fmt (r_config rx) = ST2110RX_FMT_UYVY then
             if f_format frame = ST2110RX_FMT_UYVY then
               frame_cb (out\<lparr>f_data := (f_data out)[0 := f_data frame ! 0],
                             f_linesize := (f_linesize out)[0 := f_linesize frame ! 0],
                             f_format := ST2110RX_FMT_UYVY\<rparr>) h
             else if f_format frame = ST2110RX_FMT_YCBCR422_10BIT then
               do { h \<leftarrow> rx_convert_be10_to_uyvy h (f_data frame ! 0) (f_linesize frame ! 0)
                         (r_convert_buf rx) (r_convert_stride rx) (f_width frame) (f_height frame);
                    frame_cb (out\<lparr>f_data := (f_data out)[0 := r_convert_buf rx],
                                  f_linesize := (f_linesize out)[0 := r_convert_stride rx],
                                  f_format := ST2110RX_FMT_UYVY\<rparr>) h }
             else Some h
           else frame_cb (out\<lparr>f_data := (f_data out)[0 := f_data frame ! 0],
                              f_linesize := (f_linesize out)[0 := f_linesize frame ! 0],
                              f_format := f_format frame\<rparr>) h)"

type_synonym 'z user_cb = "rx_stats_state_t \<Rightarrow> 'z frame_cb"

text \<open>\<open>now_us\<close> is the reading of \<open>get_time_us\<close> for this packet.\<close>

definition rx_process_packet ::
    "'z user_cb \<Rightarrow> u64 \<Rightarrow> byte list \<Rightarrow> st2110rx \<Rightarrow> 'z heap_scheme
       \<Rightarrow> (st2110rx \<times> 'z heap_scheme) option" where
  "rx_process_packet user_cb now_us pkt rx h =
     do { ts \<leftarrow> rx_extract_rtp_timestamp pkt;
          stats \<leftarrow> rx_stats_packet now_us ts (r_stats rx);
          let rx = rx\<lparr>r_stats := stats\<rparr>;
          (completed, a, h, lost) \<leftarrow> rx_assembler_process_packet
             (rx_internal_frame_cb (user_cb stats) rx) (c_input_fmt (r_config rx)) pkt (r_assembler rx) h (Some 0);
          let rx = rx\<lparr>r_assembler := a\<rparr>;
          let rx = (case lost of
                      None \<Rightarrow> rx
                    | Some n \<Rightarrow> if n \<noteq> 0 then rx\<lparr>r_stats := rx_stats_lost n (r_stats rx)\<rparr> else rx);
          let rx = (if completed > 0
                    then rx\<lparr>r_stats := rx_stats_frame (delivered_incomplete a \<noteq> 0) (r_stats rx)\<rparr> else rx);
          Some (rx, h) }"

section \<open>Creation\<close>

definition st2110rx_create ::
    "os_env \<Rightarrow> st2110rx_config_t option \<Rightarrow> 'z heap_scheme \<Rightarrow> (st2110rx option \<times> 'z heap_scheme) option" where
  "st2110rx_create env config h =
     (case config of None \<Rightarrow> Some (None, h)
      | Some config \<Rightarrow>
         if c_multicast_addr config = None \<or> \<not> c_has_frame_cb config
            \<or> c_width config = 0 \<or> c_height config = 0 then Some (None, h)
         else if c_width config mod 2 \<noteq> 0 then Some (None, h)
         else
           let (self, h) = calloc (e_sizeof_rx env) h
           in if self = None then Some (None, h)
              else
                let rx = (zero_rx self config)\<lparr>r_sock := RX_INVALID_SOCKET,
                            r_pkt_buf_size := (if c_enable_jumbo config then 9200 else 1500)\<rparr>;
                    (pkt_buf, h) = malloc (r_pkt_buf_size rx) h;
                    rx = rx\<lparr>r_pkt_buf := pkt_buf\<rparr>
                in if pkt_buf = None then do { h \<leftarrow> free_blk self h; Some (None, h) }
                   else
                     let rx = rx\<lparr>r_convert_stride := c_width config * 2\<rparr>;
                         convert_size = unat (r_convert_stride rx) * unat (c_height config);
                         (convert_buf, h) = malloc convert_size h;
                         rx = rx\<lparr>r_convert_buf := convert_buf\<rparr>
                     in if convert_buf = None
                        then do { h \<leftarrow> free_blk pkt_buf h; h \<leftarrow> free_blk self h; Some (None, h) }
                        else
                          do { (rc, a, h) \<leftarrow> rx_assembler_init (r_assembler rx) (c_width config)
                                               (c_height config) (c_input_fmt config) h;
                               let rx = rx\<lparr>r_assembler := a\<rparr>;
                               if rc \<noteq> 0
                               then do { h \<leftarrow> free_blk convert_buf h; h \<leftarrow> free_blk pkt_buf h;
                                         h \<leftarrow> free_blk self h; Some (None, h) }
                               else Some (Some (rx\<lparr>r_stats := rx_stats_init\<rparr>), h) })"

section \<open>Start and stop\<close>

text \<open>\<open>if (rx->sockets_initialized) { rx_socket_cleanup(); ... }\<close>\<close>

definition cleanup_sockets ::
    "platform \<Rightarrow> st2110rx \<Rightarrow> 'z world_scheme \<Rightarrow> st2110rx \<times> 'z world_scheme" where
  "cleanup_sockets pf rx w =
     (if r_sockets_initialized rx
      then (rx\<lparr>r_sockets_initialized := False\<rparr>, rx_socket_cleanup pf w) else (rx, w))"

definition close_socket :: "st2110rx \<Rightarrow> 'z world_scheme \<Rightarrow> st2110rx \<times> 'z world_scheme" where
  "close_socket rx w = (rx\<lparr>r_sock := RX_INVALID_SOCKET\<rparr>, rx_udp_destroy (r_sock rx) (r_mreq rx) w)"

text \<open>Closing the completion port and freeing its buffers, as \<open>stop\<close> and a failed start do.\<close>

definition close_iocp ::
    "platform \<Rightarrow> st2110rx \<Rightarrow> 'z world_scheme \<Rightarrow> (st2110rx \<times> 'z world_scheme) option" where
  "close_iocp pf rx w =
     (case pf of
        POSIX \<Rightarrow> Some (rx, w)
      | WIN32 \<Rightarrow>
         (let (rx, w) = (case r_iocp rx of
                           None \<Rightarrow> (rx, w)
                         | Some p \<Rightarrow> (rx\<lparr>r_iocp := None\<rparr>, emit (Sys_close_handle p) w))
          in do { w \<leftarrow> free_blk (r_iocp_buffers rx) w; Some (rx\<lparr>r_iocp_buffers := None\<rparr>, w) }))"

text \<open>
  The Windows part of \<open>st2110rx_start\<close>: the buffer pool and the completion port. \<open>Inl\<close> is
  an error code, with everything acquired so far given back.
\<close>

definition open_iocp ::
    "os_env \<Rightarrow> platform \<Rightarrow> st2110rx \<Rightarrow> 'z world_scheme \<Rightarrow> (int option \<times> st2110rx \<times> 'z world_scheme) option" where
  "open_iocp env pf rx w =
     (case pf of
        POSIX \<Rightarrow> Some (None, rx, w)
      | WIN32 \<Rightarrow>
         (let (bufs, w) = calloc (RX_IOCP_NUM_BUFFERS * e_sizeof_iocp_buffer env) w;
              rx = rx\<lparr>r_iocp_buffers := bufs\<rparr>
          in if bufs = None then
               let w = rx_log (r_config rx) ST2110RX_LOG_ERROR Msg_iocp_alloc_failed w;
                   (rx, w) = close_socket rx w;
                   w = rx_socket_cleanup pf w
               in Some (Some ST2110RX_ERR_ALLOC, rx\<lparr>r_sockets_initialized := False\<rparr>, w)
             else
               let port = e_iocp env (now w);
                   w = emit (Sys_iocp_create (r_sock rx) port) w;
                   rx = rx\<lparr>r_iocp := port\<rparr>
               in if port = None then
                    let w = rx_log (r_config rx) ST2110RX_LOG_ERROR
                              (Msg_iocp_create_failed (rx_socket_error env w)) w
                    in do { w \<leftarrow> free_blk (r_iocp_buffers rx) w;
                            let (rx, w) = close_socket (rx\<lparr>r_iocp_buffers := None\<rparr>) w;
                            let w = rx_socket_cleanup pf w;
                            Some (Some ST2110RX_ERR_SOCKET, rx\<lparr>r_sockets_initialized := False\<rparr>, w) }
                  else Some (None, rx, w)))"

definition launch_thread ::
    "os_env \<Rightarrow> platform \<Rightarrow> st2110rx \<Rightarrow> 'z world_scheme \<Rightarrow> (int \<times> st2110rx \<times> 'z world_scheme) option" where
  "launch_thread env pf rx w =
     (let rx = rx\<lparr>r_running := True\<rparr>;
          (rc, t, w) = rx_thread_create env w;
          rx = rx\<lparr>r_thread := t\<rparr>
      in if rc \<noteq> 0 then
           do { (rx, w) \<leftarrow> close_iocp pf (rx\<lparr>r_running := False\<rparr>) w;
                let (rx, w) = close_socket rx w;
                let (rx, w) = cleanup_sockets pf rx w;
                Some (ST2110RX_ERR_THREAD, rx, w) }
         else Some (ST2110RX_OK, rx\<lparr>r_thread_started := True\<rparr>, w))"

definition st2110rx_start ::
    "os_env \<Rightarrow> platform \<Rightarrow> st2110rx option \<Rightarrow> 'z world_scheme
       \<Rightarrow> (int \<times> st2110rx option \<times> 'z world_scheme) option" where
  "st2110rx_start env pf rx w =
     (case rx of None \<Rightarrow> Some (ST2110RX_ERR_INVALID, None, w)
      | Some rx \<Rightarrow>
         if r_running rx then Some (ST2110RX_OK, Some rx, w)
         else
           let (rc, w) = rx_socket_init env pf w
           in if rc \<noteq> 0 then
                Some (ST2110RX_ERR_SOCKET, Some rx, rx_log (r_config rx) ST2110RX_LOG_ERROR Msg_socket_init_failed w)
              else
                let rx = rx\<lparr>r_sockets_initialized := True\<rparr>;
                    (sock, mreq, w) = rx_udp_create env (r_config rx) (r_mreq rx) w;
                    rx = rx\<lparr>r_sock := sock, r_mreq := mreq\<rparr>
                in if sock = RX_INVALID_SOCKET then
                     let (rx, w) = cleanup_sockets pf rx w in Some (ST2110RX_ERR_BIND, Some rx, w)
                   else
                     do { (err, rx, w) \<leftarrow> open_iocp env pf rx w;
                          case err of
                            Some e \<Rightarrow> Some (e, Some rx, w)
                          | None \<Rightarrow> do { (rc, rx, w) \<leftarrow> launch_thread env pf rx w; Some (rc, Some rx, w) } })"

text \<open>
  The wakeup of the thread, and the wait for its end. Joining no thread is a misuse. The
  thread may use the receiver, its buffers and the completion port up to the moment it has
  been joined, so it is a misuse too to come to the join with one of them gone.
\<close>

definition thread_memory :: "platform \<Rightarrow> st2110rx \<Rightarrow> 'z heap_scheme \<Rightarrow> bool" where
  "thread_memory pf rx w \<longleftrightarrow>
     (\<forall>p \<in> set [r_self rx, r_pkt_buf rx, r_convert_buf rx, fill_buf (r_assembler rx), deliver_buf (r_assembler rx)].
        contents w p \<noteq> None)
     \<and> (pf = WIN32 \<longrightarrow> r_iocp rx \<noteq> None \<and> contents w (r_iocp_buffers rx) \<noteq> None)"

definition wake_thread :: "platform \<Rightarrow> st2110rx \<Rightarrow> 'z world_scheme \<Rightarrow> 'z world_scheme" where
  "wake_thread pf rx w =
     (case pf of POSIX \<Rightarrow> w
      | WIN32 \<Rightarrow> (case r_iocp rx of None \<Rightarrow> w | Some p \<Rightarrow> emit (Sys_iocp_wake p) w))"

definition join_thread :: "platform \<Rightarrow> st2110rx \<Rightarrow> 'z world_scheme \<Rightarrow> (st2110rx \<times> 'z world_scheme) option" where
  "join_thread pf rx w =
     (if r_thread_started rx then
        case r_thread rx of
          None \<Rightarrow> None
        | Some t \<Rightarrow> if thread_memory pf rx w then Some (rx\<lparr>r_thread_started := False\<rparr>, rx_thread_join pf t w)
                    else None
      else Some (rx, w))"

definition st2110rx_stop ::
    "platform \<Rightarrow> st2110rx option \<Rightarrow> 'z world_scheme \<Rightarrow> (st2110rx option \<times> 'z world_scheme) option" where
  "st2110rx_stop pf rx w =
     (case rx of None \<Rightarrow> Some (None, w)
      | Some rx \<Rightarrow>
         (let rx = rx\<lparr>r_running := False\<rparr>;
              w = wake_thread pf rx w;
              (rx, w) = (if r_sock rx \<noteq> RX_INVALID_SOCKET then close_socket rx w else (rx, w))
          in do { (rx, w) \<leftarrow> join_thread pf rx w;
                  (rx, w) \<leftarrow> close_iocp pf rx w;
                  let (rx, w) = cleanup_sockets pf rx w;
                  Some (Some rx, w) }))"

definition st2110rx_destroy ::
    "platform \<Rightarrow> st2110rx option \<Rightarrow> 'z world_scheme \<Rightarrow> 'z world_scheme option" where
  "st2110rx_destroy pf rx w =
     (case rx of None \<Rightarrow> Some w
      | Some _ \<Rightarrow>
         do { (rx, w) \<leftarrow> st2110rx_stop pf rx w;
              case rx of None \<Rightarrow> None
              | Some rx \<Rightarrow>
                 do { (a, w) \<leftarrow> rx_assembler_free (r_assembler rx) w;
                      w \<leftarrow> free_blk (r_convert_buf rx) w;
                      w \<leftarrow> free_blk (r_pkt_buf rx) w;
                      free_blk (r_self rx) w } })"

text \<open>
  The snapshot while the receive thread is not in the middle of an update; \<open>out\<close> says
  whether the caller gave a structure to fill in.
\<close>

definition st2110rx_get_stats :: "st2110rx option \<Rightarrow> bool \<Rightarrow> int \<times> st2110rx_stats_t option" where
  "st2110rx_get_stats rx out =
     (case rx of None \<Rightarrow> (ST2110RX_ERR_INVALID, None)
      | Some rx \<Rightarrow> if \<not> out then (ST2110RX_ERR_INVALID, None)
                   else (ST2110RX_OK, Some (snapshot_of (r_stats rx))))"

end
