(* ===== verification/Rx_Core_Frames.thy ===== *)
theory Rx_Core_Frames
  imports Rx_Core Rx_Assembler_Run
begin

text \<open>
  The path of a packet through the receiver: \<open>rx_internal_frame_cb\<close> meets the contract
  the assembler asks of its callback whenever the user's callback does, so the refinement
  of the assembler carries over to the receiver, with the frames converted.
\<close>

section \<open>The frame handed on\<close>

definition converts :: "st2110rx \<Rightarrow> st2110rx_pixfmt_t \<Rightarrow> bool" where
  "converts rx fmt \<longleftrightarrow> c_output_fmt (r_config rx) = ST2110RX_FMT_UYVY \<and> fmt = ST2110RX_FMT_YCBCR422_10BIT"

text \<open>Frames that are dropped: no callback, or UYVY asked for and neither input fits.\<close>

definition passes :: "st2110rx \<Rightarrow> st2110rx_pixfmt_t \<Rightarrow> bool" where
  "passes rx fmt \<longleftrightarrow> c_has_frame_cb (r_config rx)
     \<and> (c_output_fmt (r_config rx) = ST2110RX_FMT_UYVY \<longrightarrow>
          fmt \<in> {ST2110RX_FMT_UYVY, ST2110RX_FMT_YCBCR422_10BIT})"

definition out_frame :: "st2110rx \<Rightarrow> st2110rx_frame_t \<Rightarrow> st2110rx_frame_t" where
  "out_frame rx f = f\<lparr>f_data := (f_data zero_frame)[0 := if converts rx (f_format f) then r_convert_buf rx else f_data f ! 0],
     f_linesize := (f_linesize zero_frame)[0 := if converts rx (f_format f) then r_convert_stride rx else f_linesize f ! 0],
     f_format := (if converts rx (f_format f) then ST2110RX_FMT_UYVY else f_format f)\<rparr>"

lemma out_frame_simps [simp]:
  "f_data (out_frame rx f) ! 0 = (if converts rx (f_format f) then r_convert_buf rx else f_data f ! 0)"
  "f_linesize (out_frame rx f) ! 0 = (if converts rx (f_format f) then r_convert_stride rx else f_linesize f ! 0)"
  "f_width (out_frame rx f) = f_width f" "f_height (out_frame rx f) = f_height f"
  "f_format (out_frame rx f) = (if converts rx (f_format f) then ST2110RX_FMT_UYVY else f_format f)"
  "f_timestamp_ns (out_frame rx f) = f_timestamp_ns f"
  "f_frame_number (out_frame rx f) = f_frame_number f" "f_incomplete (out_frame rx f) = f_incomplete f"
  by (simp_all add: out_frame_def zero_frame_def)

lemma rx_internal_frame_cb_eq:
  "rx_internal_frame_cb cb rx f h =
     (if \<not> passes rx (f_format f) then Some h
      else if converts rx (f_format f) then
        do { h \<leftarrow> rx_convert_be10_to_uyvy h (f_data f ! 0) (f_linesize f ! 0)
                  (r_convert_buf rx) (r_convert_stride rx) (f_width f) (f_height f);
             cb (out_frame rx f) h }
      else cb (out_frame rx f) h)"
  by (cases f) (auto simp: rx_internal_frame_cb_def passes_def converts_def out_frame_def zero_frame_def Let_def)

text \<open>What the user sees of an assembled frame.\<close>

definition out_view :: "st2110rx \<Rightarrow> seen_frame \<Rightarrow> seen_frame" where
  "out_view rx v =
     (if converts rx (s_format v)
      then v\<lparr>s_bytes := uyvy_picture (unat (s_width v div 2)) (unat (s_height v)) (s_bytes v),
             s_linesize := r_convert_stride rx, s_format := ST2110RX_FMT_UYVY\<rparr>
      else v)"

definition out_views :: "st2110rx \<Rightarrow> seen_frame \<Rightarrow> seen_frame list" where
  "out_views rx v = (if passes rx (s_format v) then [out_view rx v] else [])"

section \<open>The convert buffer\<close>

definition convert_ready :: "st2110rx \<Rightarrow> 'z heap_scheme \<Rightarrow> bool" where
  "convert_ready rx h \<longleftrightarrow>
     map_option length (contents h (r_convert_buf rx)) = Some (unat (r_convert_stride rx) * unat (c_height (r_config rx)))"

text \<open>A frame of the geometry the receiver was created for.\<close>

definition fits :: "st2110rx \<Rightarrow> st2110rx_frame_t \<Rightarrow> bool" where
  "fits rx f \<longleftrightarrow> f_height f = c_height (r_config rx) \<and> f_width f mod 2 = 0 \<and> f_width f \<le> 8192
     \<and> r_convert_stride rx = f_width f * 2
     \<and> (f_format f = ST2110RX_FMT_YCBCR422_10BIT \<longrightarrow> f_linesize f ! 0 = (f_width f div 2) * 5)"

lemma fits_strides:
  assumes "fits rx f" and "f_format f = ST2110RX_FMT_YCBCR422_10BIT"
  shows "unat (f_linesize f ! 0) = 5 * unat (f_width f div 2)"
    and "unat (r_convert_stride rx) = 4 * unat (f_width f div 2)"
proof -
  let ?g = "f_width f div 2"
  have w: "f_width f mod 2 = 0" "f_width f \<le> 8192" using assms(1) by (simp_all add: fits_def)
  have small: "unat (f_width f) \<le> 8192" using w(2) by (simp add: word_le_nat_alt)
  have g: "unat ?g \<le> 4096" using small by (simp add: unat_div)
  have "r_convert_stride rx = f_width f * 2" using assms(1) by (simp add: fits_def)
  also have "f_width f = ?g * 2" using w(1) word_mod_div_equality [of "f_width f" 2] by simp
  finally have "r_convert_stride rx = ?g * 4" by simp
  then show "unat (r_convert_stride rx) = 4 * unat ?g" using g by (simp add: unat_mult_lem [THEN iffD1])
  have "f_linesize f ! 0 = ?g * 5" using assms by (simp add: fits_def)
  then show "unat (f_linesize f ! 0) = 5 * unat ?g" using g by (simp add: unat_mult_lem [THEN iffD1])
qed

lemma fits_height: "fits rx f \<Longrightarrow> f_height f = c_height (r_config rx)"
  by (simp add: fits_def)

text \<open>Whatever the stores into the convert buffer keep holds when the user's callback is called.\<close>

lemma internal_before_user:
  assumes "rx_internal_frame_cb cb rx f h = Some h'" and "P h"
    and "\<And>g i ys g'. P g \<Longrightarrow> store g (r_convert_buf rx) i ys = Some g' \<Longrightarrow> P g'"
  obtains (drop) "h' = h" | (call) h1 where "P h1" and "cb (out_frame rx f) h1 = Some h'"
proof (cases "passes rx (f_format f)")
  case True
  show ?thesis
  proof (cases "converts rx (f_format f)")
    case conv: True
    obtain h1 where h1: "rx_convert_be10_to_uyvy h (f_data f ! 0) (f_linesize f ! 0)
        (r_convert_buf rx) (r_convert_stride rx) (f_width f) (f_height f) = Some h1"
      and "cb (out_frame rx f) h1 = Some h'"
      using assms(1) True conv by (auto simp: rx_internal_frame_cb_eq split: bind_splits)
    moreover have "P h1"
      by (rule rx_convert_invariant [where P = P, rotated, OF h1 assms(2)]) (rule assms(3))
    ultimately show ?thesis using call by blast
  qed (use assms(1,2) True call in \<open>simp add: rx_internal_frame_cb_eq\<close>)
qed (use assms(1) drop in \<open>simp add: rx_internal_frame_cb_eq\<close>)

lemma convert_ready_store: "store g p i ys = Some g' \<Longrightarrow> convert_ready rx g' = convert_ready rx g"
  by (simp add: convert_ready_def heap_mem.poke_length)

lemma convert_frame_obtain:
  assumes "fits rx f" and "f_format f = ST2110RX_FMT_YCBCR422_10BIT" and "convert_ready rx h"
    and "contents h (f_data f ! 0) = Some bs" and "frame_data_ok f h" and "f_data f ! 0 \<noteq> r_convert_buf rx"
  obtains h' where "rx_convert_be10_to_uyvy h (f_data f ! 0) (f_linesize f ! 0)
        (r_convert_buf rx) (r_convert_stride rx) (f_width f) (f_height f) = Some h'"
    and "contents h' (r_convert_buf rx) = Some (uyvy_picture (unat (f_width f div 2)) (unat (f_height f)) bs)"
    and "\<And>q. q \<noteq> r_convert_buf rx \<Longrightarrow> contents h' q = contents h q"
proof -
  let ?g = "unat (f_width f div 2)" and ?n = "unat (f_height f)"
  note st = fits_strides [OF assms(1,2)]
  obtain db where db: "contents h (r_convert_buf rx) = Some db" "length db = ?n * (4 * ?g)"
    using assms(1,3) st(2) by (auto simp: convert_ready_def fits_def)
  have "length bs = ?n * (5 * ?g)" using assms(4,5) st(1) by (simp add: frame_data_ok_def)
  then obtain h' where h': "convert_lines h (f_data f ! 0) (5 * ?g) (r_convert_buf rx) (4 * ?g) ?g 0 ?n = Some h'"
      "contents h' (r_convert_buf rx) = Some (blit db (0 * (4 * ?g))
         (concat (map (\<lambda>y. uyvy_line ?g (drop (y * (5 * ?g)) bs)) [0..<0 + ?n])))"
      "\<And>q. q \<noteq> r_convert_buf rx \<Longrightarrow> contents h' q = contents h q"
    using convert_lines_tight_obtain [OF assms(4) db(1) assms(6), of 0 ?n ?g] db(2) by auto
  then have "contents h' (r_convert_buf rx) = Some (uyvy_picture ?g ?n bs)"
    using db(2) blit_all [of "uyvy_picture ?g ?n bs" db] by (simp add: uyvy_picture_def [symmetric])
  then show ?thesis
    using that [of h'] h' st by (simp add: rx_convert_be10_to_uyvy_def)
qed

section \<open>The contract\<close>

text \<open>
  A user callback that meets the contract, and a receiver whose convert buffer it does not
  own: then \<open>rx_internal_frame_cb\<close> meets the contract, owning the convert buffer as well.
\<close>

locale receiver_client = user: frame_log cb ok own accepts seen_by observe
  for cb :: "'a frame_cb" and ok and own and accepts and seen_by :: "'a heap_scheme \<Rightarrow> 'o list" and observe +
  fixes rx :: st2110rx
  assumes convert_private: "r_convert_buf rx \<notin> own"
begin

lemma internal_cases:
  assumes "ok h" and "convert_ready rx h" and "fits rx f" and "accepts (out_frame rx f)"
    and "contents h (f_data f ! 0) = Some bs" and "frame_data_ok f h"
    and "f_data f ! 0 \<notin> insert (r_convert_buf rx) own"
  obtains (drop) "rx_internal_frame_cb cb rx f h = Some h" and "\<not> passes rx (f_format f)"
  | (deliver) h1 bs' where "rx_internal_frame_cb cb rx f h = cb (out_frame rx f) h1"
      and "passes rx (f_format f)" and "ok h1" and "convert_ready rx h1"
      and "contents h1 (f_data (out_frame rx f) ! 0) = Some bs'"
      and "frame_data_ok (out_frame rx f) h1"
      and "view_frame (out_frame rx f) bs' = out_view rx (view_frame f bs)"
      and "seen_by h1 = seen_by h"
      and "\<And>p. p \<notin> insert (r_convert_buf rx) own \<Longrightarrow> contents h1 p = contents h p"
proof (cases "passes rx (f_format f)")
  case False
  then show ?thesis by (intro drop) (simp_all add: rx_internal_frame_cb_eq)
next
  case True
  show ?thesis
  proof (cases "converts rx (f_format f)")
    case False
    show ?thesis
      by (rule deliver [of h bs])
         (use assms True False in \<open>simp_all add: rx_internal_frame_cb_eq frame_data_ok_def out_view_def view_frame_def\<close>)
  next
    case conv: True
    then have fmt: "f_format f = ST2110RX_FMT_YCBCR422_10BIT" by (simp add: converts_def)
    obtain h1 where h1: "rx_convert_be10_to_uyvy h (f_data f ! 0) (f_linesize f ! 0)
        (r_convert_buf rx) (r_convert_stride rx) (f_width f) (f_height f) = Some h1"
      and out: "contents h1 (r_convert_buf rx)
        = Some (uyvy_picture (unat (f_width f div 2)) (unat (f_height f)) bs)"
      and rest: "\<And>q. q \<noteq> r_convert_buf rx \<Longrightarrow> contents h1 q = contents h q"
      by (rule convert_frame_obtain [OF assms(3) fmt assms(2,5,6)]) (use assms(7) in blast)+
    have ok1: "ok h1"
      by (rule rx_convert_invariant [where P = ok, rotated, OF h1 assms(1)])
         (rule user.sink_store [OF _ convert_private])
    have seen1: "seen_by h1 = seen_by h"
      by (rule rx_convert_invariant [where P = "\<lambda>g. seen_by g = seen_by h", rotated, OF h1 refl])
         (simp add: user.log_store [OF convert_private])
    have sz: "unat (r_convert_stride rx) * unat (f_height f)
        = unat (f_height f) * (4 * unat (f_width f div 2))"
      using fits_strides(2) [OF assms(3) fmt] by simp
    show ?thesis
    proof (rule deliver [of h1 "uyvy_picture (unat (f_width f div 2)) (unat (f_height f)) bs"])
      show "rx_internal_frame_cb cb rx f h = cb (out_frame rx f) h1"
        using True conv h1 by (simp add: rx_internal_frame_cb_eq)
      show "convert_ready rx h1" "frame_data_ok (out_frame rx f) h1"
        using fits_height [OF assms(3)] out sz conv by (auto simp: convert_ready_def frame_data_ok_def)
      show "view_frame (out_frame rx f) (uyvy_picture (unat (f_width f div 2)) (unat (f_height f)) bs)
          = out_view rx (view_frame f bs)"
        using conv fmt by (simp add: view_frame_def out_view_def)
    qed (use True conv out ok1 seen1 rest in simp_all)
  qed
qed

lemma out_data_private:
  "f_data f ! 0 \<notin> insert (r_convert_buf rx) own \<Longrightarrow> f_data (out_frame rx f) ! 0 \<notin> own"
  using convert_private by simp

end

sublocale receiver_client \<subseteq> internal: frame_log "rx_internal_frame_cb cb rx"
  "\<lambda>h. ok h \<and> convert_ready rx h" "insert (r_convert_buf rx) own"
  "\<lambda>f. fits rx f \<and> accepts (out_frame rx f)" seen_by "\<lambda>v. concat (map observe (out_views rx v))"
proof (unfold_locales, goal_cases)
  case (1 h f)
  then obtain bs where bs: "contents h (f_data f ! 0) = Some bs" by (auto simp: frame_data_ok_def)
  from 1 show ?case
    by (cases rule: internal_cases [OF _ _ _ _ bs]) (auto dest: user.sink_total [OF _ _ _ out_data_private])
next
  case (2 h f h')
  show ?case
  proof (rule internal_before_user [OF 2(3), where P = "\<lambda>h. ok h \<and> convert_ready rx h"])
    show "ok h' \<and> convert_ready rx h'" if "ok h1 \<and> convert_ready rx h1" "cb (out_frame rx f) h1 = Some h'" for h1
      using that 2(2) user.sink_ok user.sink_frame [OF _ _ _ convert_private] by (auto simp: convert_ready_def)
  qed (use 2(1) in \<open>auto simp: convert_ready_store intro: user.sink_store [OF _ convert_private]\<close>)
next
  case (3 h f h' p)
  show ?case
  proof (rule internal_before_user [OF 3(3), where P = "\<lambda>g. ok g \<and> contents g p = contents h p"])
    show "contents h' p = contents h p" if "ok h1 \<and> contents h1 p = contents h p" "cb (out_frame rx f) h1 = Some h'" for h1
      using that 3(2,4) user.sink_frame by auto
  qed (use 3(1,4) in \<open>auto intro: user.sink_store [OF _ convert_private] dest: heap_mem.poke_other\<close>)
next
  case (4 h p i ys h')
  then show ?case by (auto intro: user.sink_store simp: convert_ready_store)
next
  case (5 h f bs h')
  from 5 show ?case
    by (cases rule: internal_cases [OF _ _ _ _ 5(3)])
       (auto simp: out_views_def view_frame_def dest: user.log_cb [OF _ _ _ out_data_private])
next
  case (6 p h i ys h')
  then show ?case by (auto intro: user.log_store)
qed

context receiver_client
begin

lemma internal_log:
  "frame_log (rx_internal_frame_cb cb rx) (\<lambda>h. ok h \<and> convert_ready rx h) (insert (r_convert_buf rx) own)
     (\<lambda>f. fits rx f \<and> accepts (out_frame rx f)) seen_by (\<lambda>v. concat (map observe (out_views rx v)))"
  by (rule internal.frame_log_axioms)

end

end
