(* ===== verification/Rx_Core_Packets.thy ===== *)
theory Rx_Core_Packets
  imports Rx_Core_Frames Rx_Assembler_Init
begin

text \<open>
  \<open>rx_process_packet\<close>, one packet and a stream of them: the receiver's invariant, the
  frames the user's callback is given, and the counters.
\<close>

section \<open>What depends on the receiver\<close>

lemma client_view_cong [simp]:
  "converts (rx\<lparr>r_stats := s\<rparr>) = converts rx" "converts (rx\<lparr>r_assembler := a\<rparr>) = converts rx"
  "passes (rx\<lparr>r_stats := s\<rparr>) = passes rx" "passes (rx\<lparr>r_assembler := a\<rparr>) = passes rx"
  "fits (rx\<lparr>r_stats := s\<rparr>) = fits rx" "fits (rx\<lparr>r_assembler := a\<rparr>) = fits rx"
  "out_frame (rx\<lparr>r_stats := s\<rparr>) = out_frame rx" "out_frame (rx\<lparr>r_assembler := a\<rparr>) = out_frame rx"
  "out_views (rx\<lparr>r_stats := s\<rparr>) = out_views rx" "out_views (rx\<lparr>r_assembler := a\<rparr>) = out_views rx"
  "convert_ready (rx\<lparr>r_stats := s\<rparr>) h = convert_ready rx h"
  "convert_ready (rx\<lparr>r_assembler := a\<rparr>) h = convert_ready rx h"
  by (simp_all add: fun_eq_iff converts_def passes_def fits_def out_frame_def out_views_def out_view_def
      convert_ready_def)

lemma rx_internal_frame_cb_stats [simp]:
  "rx_internal_frame_cb cb (rx\<lparr>r_stats := s\<rparr>) = rx_internal_frame_cb cb rx"
  by (simp add: fun_eq_iff rx_internal_frame_cb_eq)

text \<open>A packet only ever swaps the two buffers.\<close>

lemma deliver_frame_buffers:
  "deliver_frame cb fmt ts a h = Some (a', h') \<Longrightarrow> {fill_buf a', deliver_buf a'} = {fill_buf a, deliver_buf a}"
  by (auto simp: deliver_frame_def Let_def split: bind_splits)

lemma end_unmarked_frame_buffers:
  "end_unmarked_frame cb fmt ts m a h = Some (n, a', h') \<Longrightarrow> {fill_buf a', deliver_buf a'} = {fill_buf a, deliver_buf a}"
  by (auto simp: end_unmarked_frame_def split: bind_splits if_splits dest!: deliver_frame_buffers)

lemma account_gap_buffers:
  "account_gap a seq lost = (a', lost') \<Longrightarrow> fill_buf a' = fill_buf a \<and> deliver_buf a' = deliver_buf a"
  by (auto simp: account_gap_def Let_def split: if_splits)

lemma process_packet_buffers:
  assumes "rx_assembler_process_packet cb fmt pkt a h lost = Some (n, a', h', lost')"
  shows "{fill_buf a', deliver_buf a'} = {fill_buf a, deliver_buf a}"
  using assms
  by (auto simp: rx_assembler_process_packet_def Let_def split: bind_splits option.splits if_splits prod.splits
      dest!: deliver_frame_buffers end_unmarked_frame_buffers account_gap_buffers)

text \<open>The assembler's invariant with the receiver as its client.\<close>

definition packet_inv ::
    "('z heap_scheme \<Rightarrow> bool) \<Rightarrow> ptr set \<Rightarrow> (st2110rx_frame_t \<Rightarrow> bool) \<Rightarrow> st2110rx \<Rightarrow> 'z heap_scheme \<Rightarrow> bool" where
  "packet_inv ok own accepts rx h \<longleftrightarrow>
     sink_inv (\<lambda>h. ok h \<and> convert_ready rx h) (insert (r_convert_buf rx) own)
       (\<lambda>f. fits rx f \<and> accepts (out_frame rx f)) (c_input_fmt (r_config rx)) (r_assembler rx) h"

text \<open>The counters after a packet with gap \<open>g\<close> that completed the frames \<open>fs\<close>.\<close>

definition note_packet :: "u16 \<Rightarrow> seen_frame list \<Rightarrow> rx_stats_state_t \<Rightarrow> rx_stats_state_t" where
  "note_packet g fs s =
     (let s = (if g \<noteq> 0 then rx_stats_lost (ucast g) s else s)
      in if fs \<noteq> [] then rx_stats_frame (s_incomplete (last fs)) s else s)"

definition packet_stats :: "u64 \<Rightarrow> byte list \<Rightarrow> rx_stats_state_t \<Rightarrow> rx_stats_state_t option" where
  "packet_stats now_us pkt s = do { ts \<leftarrow> rx_extract_rtp_timestamp pkt; rx_stats_packet now_us ts s }"

text \<open>The frames a packet completes for the user, with the format of the receiver.\<close>

definition packet_frames :: "st2110rx \<Rightarrow> byte list \<Rightarrow> 'z heap_scheme \<Rightarrow> seen_frame list" where
  "packet_frames rx pkt h = fst (spec_packet (layout_of (r_assembler rx)) (c_input_fmt (r_config rx)) pkt
     (asm_abs (r_assembler rx) h))"

lemma last_bad_spec_packet:
  "fst (spec_packet l fmt pkt s) \<noteq> [] \<Longrightarrow>
     last_bad (snd (spec_packet l fmt pkt s)) = s_incomplete (last (fst (spec_packet l fmt pkt s)))"
  by (cases "decode_packet l pkt") (auto simp: spec_packet_def last_bad_spec_step)

lemma ucast_u16_u64_0 [simp]: "(ucast (g :: u16) :: u64) = 0 \<longleftrightarrow> g = 0"
  proof
  assume "(ucast g :: u64) = 0"
  then have "unat (ucast g :: u64) = 0" by simp
  then have "take_bit 64 (unat g) = 0" by (simp add: unsigned_ucast_eq)
  then have "unat g = 0" using unat_u16_less [of g] by (simp add: take_bit_nat_eq_self)
  then show "g = 0" by (simp add: unat_eq_0)
qed simp

lemma concat_map_concat: "concat (map (\<lambda>v. concat (map f (g v))) xs) = concat (map f (concat (map g xs)))"
  by (induction xs) simp_all

lemma rx_process_packet_spec:
  fixes user_cb :: "'z user_cb"
  assumes client: "receiver_client (user_cb st) ok own accepts seen_by observe rx"
    and inv: "packet_inv ok own accepts rx h"
    and st: "packet_stats now_us pkt (r_stats rx) = Some st"
  obtains a' h' where "rx_process_packet user_cb now_us pkt rx h =
        Some (rx\<lparr>r_stats := note_packet (packet_gap (layout_of (r_assembler rx)) pkt (asm_abs (r_assembler rx) h))
                   (packet_frames rx pkt h) st, r_assembler := a'\<rparr>, h')"
    and "packet_inv ok own accepts (rx\<lparr>r_assembler := a'\<rparr>) h'"
    and "layout_of a' = layout_of (r_assembler rx)"
    and "{fill_buf a', deliver_buf a'} = {fill_buf (r_assembler rx), deliver_buf (r_assembler rx)}"
    and "asm_abs a' h' = snd (spec_packet (layout_of (r_assembler rx)) (c_input_fmt (r_config rx)) pkt
           (asm_abs (r_assembler rx) h))"
    and "seen_by h' = seen_by h @ concat (map observe (concat (map (out_views rx) (packet_frames rx pkt h))))"
proof -
  let ?a = "r_assembler rx" and ?fmt = "c_input_fmt (r_config rx)"
  let ?l = "layout_of (r_assembler rx)" and ?fs = "packet_frames rx pkt h"
  have log: "frame_log (rx_internal_frame_cb (user_cb st) rx) (\<lambda>h. ok h \<and> convert_ready rx h)
      (insert (r_convert_buf rx) own) (\<lambda>f. fits rx f \<and> accepts (out_frame rx f)) seen_by
      (\<lambda>v. concat (map observe (out_views rx v)))"
    by (rule receiver_client.internal_log [OF client])
  obtain a' h' where run: "rx_assembler_process_packet (rx_internal_frame_cb (user_cb st) rx) ?fmt pkt ?a h (Some 0)
        = Some (length ?fs, a', h', Some (0 + ucast (packet_gap ?l pkt (asm_abs ?a h))))"
      and inv': "sink_inv (\<lambda>h. ok h \<and> convert_ready rx h) (insert (r_convert_buf rx) own)
        (\<lambda>f. fits rx f \<and> accepts (out_frame rx f)) ?fmt a' h'"
      and lay: "layout_of a' = ?l"
      and ab: "asm_abs a' h' = snd (spec_packet ?l ?fmt pkt (asm_abs ?a h))"
      and seen: "seen_by h' = seen_by h @ concat (map (\<lambda>v. concat (map observe (out_views rx v))) ?fs)"
    using frame_log.process_packet_spec [OF log inv [unfolded packet_inv_def], of pkt "Some 0"]
    unfolding packet_frames_def by auto
  have bad: "delivered_incomplete a' \<noteq> 0 \<longleftrightarrow> s_incomplete (last ?fs)" if "?fs \<noteq> []"
    using last_bad_spec_packet [of ?l ?fmt pkt "asm_abs ?a h"] that
    unfolding packet_frames_def ab [symmetric] by (simp add: asm_abs_def)
  obtain ts where ts: "rx_extract_rtp_timestamp pkt = Some ts" "rx_stats_packet now_us ts (r_stats rx) = Some st"
    using st by (auto simp: packet_stats_def split: bind_splits)
  show ?thesis
  proof (rule that [of a' h'])
    show "rx_process_packet user_cb now_us pkt rx h =
        Some (rx\<lparr>r_stats := note_packet (packet_gap ?l pkt (asm_abs ?a h)) ?fs st, r_assembler := a'\<rparr>, h')"
      using ts run bad by (auto simp: rx_process_packet_def note_packet_def Let_def)
    show "packet_inv ok own accepts (rx\<lparr>r_assembler := a'\<rparr>) h'"
      using inv' by (simp add: packet_inv_def)
    show "seen_by h' = seen_by h @ concat (map observe (concat (map (out_views rx) ?fs)))"
      by (simp add: seen concat_map_concat)
    show "{fill_buf a', deliver_buf a'} = {fill_buf ?a, deliver_buf ?a}"
      by (rule process_packet_buffers [OF run])
  qed (fact lay ab)+
qed

section \<open>The counters\<close>

lemma rx_extract_rtp_timestamp_total: "\<exists>ts. rx_extract_rtp_timestamp pkt = Some ts"
  by (auto simp: rx_extract_rtp_timestamp_def mem_simps)

lemma note_packet_simps [simp]:
  "packets_received (note_packet g fs s) = packets_received s"
  "last_arrival_us (note_packet g fs s) = last_arrival_us s"
  "packets_lost (note_packet g fs s) = packets_lost s + ucast g"
  "stats_within B (note_packet g fs s) = stats_within B s"
  by (auto simp: note_packet_def rx_stats_lost_def rx_stats_frame_def stats_within_def stats_ok_def Let_def)

lemma note_packet_frames:
  assumes "length fs \<le> 1"
  shows "frames_received (note_packet g fs s) = frames_received s + of_nat (length fs)"
    and "frames_dropped (note_packet g fs s) = frames_dropped s + of_nat (length (filter s_incomplete fs))"
  using assms
  by (cases fs; auto simp: note_packet_def rx_stats_lost_def rx_stats_frame_def Let_def)+

lemma length_packet_frames: "length (packet_frames rx pkt h) \<le> 1"
  using length_spec_step by (auto simp: packet_frames_def spec_packet_def split: option.split)

text \<open>One packet of a clock that does not run backwards: defined, and within bounds.\<close>

lemma packet_stats_within:
  assumes "stats_within B s" and "47721858845 \<le> B" and "B < 2 ^ 53"
    and "has_prev s \<longrightarrow> last_arrival_us s \<le> now_us \<and> uint now_us - uint (last_arrival_us s) \<le> B"
  obtains st where "packet_stats now_us pkt s = Some st" and "stats_within B st"
    and "last_arrival_us st = now_us" and "packets_received st = packets_received s + 1"
    and "frames_received st = frames_received s" and "frames_dropped st = frames_dropped s"
    and "packets_lost st = packets_lost s"
proof -
  obtain ts where "rx_extract_rtp_timestamp pkt = Some ts" using rx_extract_rtp_timestamp_total by blast
  with stats_packet_within [OF assms, of ts] show ?thesis
    by (intro that [of "stats_step now_us ts s"]) (simp_all add: packet_stats_def stats_step_def)
qed

section \<open>A stream of packets\<close>

fun receive ::
    "'z user_cb \<Rightarrow> (u64 \<times> byte list) list \<Rightarrow> st2110rx \<Rightarrow> 'z heap_scheme \<Rightarrow> (st2110rx \<times> 'z heap_scheme) option" where
  "receive user_cb [] rx h = Some (rx, h)"
| "receive user_cb ((now_us, pkt) # es) rx h =
     do { (rx, h) \<leftarrow> rx_process_packet user_cb now_us pkt rx h; receive user_cb es rx h }"

text \<open>The frames of a stream: those of the specification, on the packets it accepts.\<close>

definition stream_frames :: "st2110rx \<Rightarrow> byte list list \<Rightarrow> 'z heap_scheme \<Rightarrow> seen_frame list" where
  "stream_frames rx pkts h = fst (spec_run (layout_of (r_assembler rx)) (c_input_fmt (r_config rx))
     (decode_all (layout_of (r_assembler rx)) pkts) (asm_abs (r_assembler rx) h))"

definition stream_state :: "st2110rx \<Rightarrow> byte list list \<Rightarrow> 'z heap_scheme \<Rightarrow> spec_state" where
  "stream_state rx pkts h = snd (spec_run (layout_of (r_assembler rx)) (c_input_fmt (r_config rx))
     (decode_all (layout_of (r_assembler rx)) pkts) (asm_abs (r_assembler rx) h))"

definition stream_lost :: "st2110rx \<Rightarrow> byte list list \<Rightarrow> 'z heap_scheme \<Rightarrow> u64" where
  "stream_lost rx pkts h =
     gap_total (asm_abs (r_assembler rx) h) (decode_all (layout_of (r_assembler rx)) pkts)"

lemma stream_Cons:
  assumes "asm_abs (r_assembler rx') h' = snd (spec_packet (layout_of (r_assembler rx)) (c_input_fmt (r_config rx)) pkt
      (asm_abs (r_assembler rx) h))"
    and "layout_of (r_assembler rx') = layout_of (r_assembler rx)" and "r_config rx' = r_config rx"
  shows "stream_frames rx (pkt # pkts) h = packet_frames rx pkt h @ stream_frames rx' pkts h'"
    and "stream_lost rx (pkt # pkts) h =
      ucast (packet_gap (layout_of (r_assembler rx)) pkt (asm_abs (r_assembler rx) h)) + stream_lost rx' pkts h'"
    and "stream_state rx (pkt # pkts) h = stream_state rx' pkts h'"
  using assms
  by (cases "decode_packet (layout_of (r_assembler rx)) pkt";
      auto simp: stream_frames_def stream_state_def packet_frames_def stream_lost_def spec_packet_def packet_gap_def
        gap_total_step [of _ _ _ "layout_of (r_assembler rx)" "c_input_fmt (r_config rx)"] Let_def
        simp del: gap_total.simps(2) split: prod.split)+

text \<open>All that a stream does, for a user callback whose contract holds at every call.\<close>

definition received ::
    "('z heap_scheme \<Rightarrow> bool) \<Rightarrow> ptr set \<Rightarrow> (st2110rx_frame_t \<Rightarrow> bool) \<Rightarrow> ('z heap_scheme \<Rightarrow> 'o list)
       \<Rightarrow> (seen_frame \<Rightarrow> 'o list) \<Rightarrow> int \<Rightarrow> st2110rx \<Rightarrow> 'z heap_scheme \<Rightarrow> byte list list
       \<Rightarrow> st2110rx \<Rightarrow> 'z heap_scheme \<Rightarrow> bool" where
  "received ok own accepts seen_by observe B rx h pkts rx' h' \<longleftrightarrow>
     packet_inv ok own accepts rx' h' \<and> stats_within B (r_stats rx')
     \<and> (\<exists>a s. rx' = rx\<lparr>r_assembler := a, r_stats := s\<rparr> \<and> layout_of a = layout_of (r_assembler rx)
          \<and> {fill_buf a, deliver_buf a} = {fill_buf (r_assembler rx), deliver_buf (r_assembler rx)})
     \<and> asm_abs (r_assembler rx') h' = stream_state rx pkts h
     \<and> seen_by h' = seen_by h @ concat (map observe (concat (map (out_views rx) (stream_frames rx pkts h))))
     \<and> packets_received (r_stats rx') = packets_received (r_stats rx) + of_nat (length pkts)
     \<and> frames_received (r_stats rx') = frames_received (r_stats rx) + of_nat (length (stream_frames rx pkts h))
     \<and> frames_dropped (r_stats rx') =
         frames_dropped (r_stats rx) + of_nat (length (filter s_incomplete (stream_frames rx pkts h)))
     \<and> packets_lost (r_stats rx') = packets_lost (r_stats rx) + stream_lost rx pkts h"

lemma receiver_client_cong:
  "receiver_client cb ok own accepts seen_by observe (rx\<lparr>r_assembler := a, r_stats := s\<rparr>)
     = receiver_client cb ok own accepts seen_by observe rx"
  by (simp add: receiver_client_def receiver_client_axioms_def)

lemma update_order: "rx\<lparr>r_stats := s, r_assembler := a\<rparr> = rx\<lparr>r_assembler := a, r_stats := s\<rparr>"
  by (cases rx) simp

lemma packet_inv_stats: "packet_inv ok own accepts (rx\<lparr>r_stats := s\<rparr>) h = packet_inv ok own accepts rx h"
  by (simp add: packet_inv_def)

lemma receive_spec:
  assumes client: "\<And>s. receiver_client (user_cb s) ok own accepts seen_by observe rx"
    and B: "47721858845 \<le> B" "B < 2 ^ 53"
    and inv: "packet_inv ok own accepts rx h" and st: "stats_within B (r_stats rx)"
    and clock: "has_prev (r_stats rx) \<longrightarrow> last_arrival_us (r_stats rx) = t0" "steady_clock t0 B (map fst es)"
  shows "\<exists>rx' h'. receive user_cb es rx h = Some (rx', h')
    \<and> received ok own accepts seen_by observe B rx h (map snd es) rx' h'"
  using client inv st clock
proof (induction es arbitrary: rx h t0)
  case Nil
  have "rx = rx\<lparr>r_assembler := r_assembler rx, r_stats := r_stats rx\<rparr>" by (cases rx) simp
  then have "\<exists>a s. rx = rx\<lparr>r_assembler := a, r_stats := s\<rparr> \<and> layout_of a = layout_of (r_assembler rx)
      \<and> {fill_buf a, deliver_buf a} = {fill_buf (r_assembler rx), deliver_buf (r_assembler rx)}" by blast
  then show ?case
    using Nil by (simp add: received_def stream_frames_def stream_lost_def stream_state_def)
next
  case (Cons e es)
  obtain now_us pkt where e: "e = (now_us, pkt)" by (cases e)
  have "has_prev (r_stats rx) \<longrightarrow> last_arrival_us (r_stats rx) \<le> now_us \<and> uint now_us - uint (last_arrival_us (r_stats rx)) \<le> B"
    using Cons.prems(4,5) e by auto
  then obtain st where st: "packet_stats now_us pkt (r_stats rx) = Some st" "stats_within B st"
      "last_arrival_us st = now_us" "packets_received st = packets_received (r_stats rx) + 1"
      "frames_received st = frames_received (r_stats rx)" "frames_dropped st = frames_dropped (r_stats rx)"
      "packets_lost st = packets_lost (r_stats rx)"
    by (rule packet_stats_within [OF Cons.prems(3) B])
  let ?g = "packet_gap (layout_of (r_assembler rx)) pkt (asm_abs (r_assembler rx) h)"
  obtain a1 h1 where 1: "rx_process_packet user_cb now_us pkt rx h =
        Some (rx\<lparr>r_stats := note_packet ?g (packet_frames rx pkt h) st, r_assembler := a1\<rparr>, h1)"
      "packet_inv ok own accepts (rx\<lparr>r_assembler := a1\<rparr>) h1" "layout_of a1 = layout_of (r_assembler rx)"
      "{fill_buf a1, deliver_buf a1} = {fill_buf (r_assembler rx), deliver_buf (r_assembler rx)}"
      "asm_abs a1 h1 = snd (spec_packet (layout_of (r_assembler rx)) (c_input_fmt (r_config rx)) pkt (asm_abs (r_assembler rx) h))"
      "seen_by h1 = seen_by h @ concat (map observe (concat (map (out_views rx) (packet_frames rx pkt h))))"
    by (rule rx_process_packet_spec [OF Cons.prems(1,2) st(1)])
  let ?rx = "rx\<lparr>r_assembler := a1, r_stats := note_packet ?g (packet_frames rx pkt h) st\<rparr>"
  have "\<exists>rx' h'. receive user_cb es ?rx h1 = Some (rx', h')
      \<and> received ok own accepts seen_by observe B ?rx h1 (map snd es) rx' h'"
    using Cons.prems(1,5) e 1(2) st(2,3)
    by (intro Cons.IH [where ?t0.0 = now_us]) (simp_all add: receiver_client_cong packet_inv_stats)
  then obtain rx' h' where 2: "receive user_cb es ?rx h1 = Some (rx', h')"
      "received ok own accepts seen_by observe B ?rx h1 (map snd es) rx' h'" by blast
  have cons: "stream_frames rx (pkt # map snd es) h = packet_frames rx pkt h @ stream_frames ?rx (map snd es) h1"
    "stream_lost rx (pkt # map snd es) h = ucast ?g + stream_lost ?rx (map snd es) h1"
    "stream_state rx (pkt # map snd es) h = stream_state ?rx (map snd es) h1"
    using 1(3,5) by (intro stream_Cons; simp)+
  have "received ok own accepts seen_by observe B rx h (map snd (e # es)) rx' h'"
    using 2(2) e 1(3,4,6) st(4-7) note_packet_frames [OF length_packet_frames [of rx pkt h]]
    by (auto simp: received_def cons algebra_simps)
  moreover have "receive user_cb (e # es) rx h = Some (rx', h')"
    using 1(1) 2(1) e by (simp add: update_order)
  ultimately show ?case by blast
qed

end
