(* ===== verification/Rx_Core_Create.thy ===== *)
theory Rx_Core_Create
  imports Rx_Core_Packets
begin

text \<open>
  \<open>st2110rx_create\<close>: which configurations it accepts, what it allocates and what it frees
  when one of its allocations fails.
\<close>

section \<open>Creation\<close>

text \<open>Memory that a failed operation leaves as it was, up to used-up addresses.\<close>

definition same_memory :: "'z heap_scheme \<Rightarrow> 'z heap_scheme \<Rightarrow> bool" where
  "same_memory h h' \<longleftrightarrow> blocks h' = blocks h \<and> oom h' = oom h \<and> junk h' = junk h
     \<and> next_blk h \<le> next_blk h' \<and> heap.more h' = heap.more h"

lemma same_memory_wf: "same_memory h h' \<Longrightarrow> heap_wf h \<Longrightarrow> heap_wf h'"
  by (auto simp: same_memory_def heap_wf_def intro: less_le_trans)

definition valid_config :: "st2110rx_config_t \<Rightarrow> bool" where
  "valid_config c \<longleftrightarrow> c_multicast_addr c \<noteq> None \<and> c_has_frame_cb c
     \<and> supported (c_width c) (c_height c) (c_input_fmt c)"

text \<open>The receiver that a successful creation gives, with its five blocks from \<open>n\<close> on.\<close>

definition fresh_rx :: "st2110rx_config_t \<Rightarrow> nat \<Rightarrow> st2110rx" where
  "fresh_rx c n = (zero_rx (Some n) c)\<lparr>r_sock := RX_INVALID_SOCKET,
     r_pkt_buf_size := (if c_enable_jumbo c then 9200 else 1500),
     r_pkt_buf := Some (n + 1), r_convert_stride := c_width c * 2, r_convert_buf := Some (n + 2),
     r_assembler := fresh_assembler (c_width c) (c_height c) (the (pgroup_of_fmt (c_input_fmt c)))
       (Some (n + 3)) (Some (n + 4))\<rparr>"

definition picture_size :: "st2110rx_config_t \<Rightarrow> nat" where
  "picture_size c = init_size (c_width c) (c_height c) (the (pgroup_of_fmt (c_input_fmt c)))"

definition fresh_rx_blocks :: "os_env \<Rightarrow> st2110rx_config_t \<Rightarrow> 'z heap_scheme \<Rightarrow> nat \<Rightarrow> byte list option" where
  "fresh_rx_blocks env c h = (let n = next_blk h in (blocks h)
     (n \<mapsto> replicate (e_sizeof_rx env) 0,
      n + 1 \<mapsto> map (junk h (n + 1)) [0..<r_pkt_buf_size (fresh_rx c n)],
      n + 2 \<mapsto> map (junk h (n + 2)) [0..<unat (c_width c * 2) * unat (c_height c)],
      n + 3 \<mapsto> replicate (picture_size c) 0,
      n + 4 \<mapsto> replicate (picture_size c) 0))"

text \<open>The checks on the configuration that come before any allocation.\<close>

definition checked :: "st2110rx_config_t \<Rightarrow> bool" where
  "checked c \<longleftrightarrow> c_multicast_addr c \<noteq> None \<and> c_has_frame_cb c \<and> c_width c \<noteq> 0 \<and> c_height c \<noteq> 0
     \<and> c_width c mod 2 = 0"

lemma create_unchecked:
  assumes "\<not> checked c"
  shows "st2110rx_create env (Some c) h = Some (None, h)"
proof (cases "c_multicast_addr c = None \<or> \<not> c_has_frame_cb c \<or> c_width c = 0 \<or> c_height c = 0")
  case True
  show ?thesis unfolding st2110rx_create_def option.case if_P [OF True] ..
next
  case False
  have "c_width c mod 2 \<noteq> 0" using False assms unfolding checked_def by satx
  then show ?thesis unfolding st2110rx_create_def option.case if_not_P [OF False] by (rule if_P)
qed

text \<open>
  Once the first three allocations have succeeded, what is left depends on the assembler.
\<close>

definition rx_before_assembler :: "st2110rx_config_t \<Rightarrow> nat \<Rightarrow> st2110rx" where
  "rx_before_assembler c n = (zero_rx (Some n) c)\<lparr>r_sock := RX_INVALID_SOCKET,
     r_pkt_buf_size := (if c_enable_jumbo c then 9200 else 1500), r_pkt_buf := Some (n + 1),
     r_convert_stride := c_width c * 2, r_convert_buf := Some (n + 2)\<rparr>"

definition heap_before_assembler :: "os_env \<Rightarrow> st2110rx_config_t \<Rightarrow> 'z heap_scheme \<Rightarrow> 'z heap_scheme" where
  "heap_before_assembler env c h = (let n = next_blk h in h\<lparr>next_blk := n + 3,
     blocks := (blocks h)(n \<mapsto> replicate (e_sizeof_rx env) 0,
       n + 1 \<mapsto> map (junk h (n + 1)) [0..<r_pkt_buf_size (rx_before_assembler c n)],
       n + 2 \<mapsto> map (junk h (n + 2)) [0..<unat (c_width c * 2) * unat (c_height c)])\<rparr>)"

lemma create_first_allocations:
  assumes "checked c" and "heap_wf h"
    and "oom h (next_blk h) \<or> oom h (next_blk h + 1) \<or> oom h (next_blk h + 2)"
  shows "\<exists>h'. st2110rx_create env (Some c) h = Some (None, h') \<and> same_memory h h'"
proof -
  have guards: "c_multicast_addr c \<noteq> None" "c_has_frame_cb c" "c_width c \<noteq> 0" "c_height c \<noteq> 0" "c_width c mod 2 = 0"
    using assms(1) by (simp_all add: checked_def)
  note free = fresh_blocks [OF assms(2)]
  consider "oom h (next_blk h)" | "\<not> oom h (next_blk h)" "oom h (Suc (next_blk h))"
    | "\<not> oom h (next_blk h)" "\<not> oom h (Suc (next_blk h))" "oom h (Suc (Suc (next_blk h)))"
    using assms(3) by auto
  then show ?thesis
    by cases (use guards free in \<open>simp_all add: st2110rx_create_def alloc_outcomes free_blk_live same_memory_def fun_upd_idem\<close>)
qed

lemma create_assembler:
  assumes "checked c" and "heap_wf h"
    and "\<not> oom h (next_blk h)" "\<not> oom h (next_blk h + 1)" "\<not> oom h (next_blk h + 2)"
  shows "st2110rx_create env (Some c) h =
    do { (rc, a, g) \<leftarrow> rx_assembler_init zero_assembler (c_width c) (c_height c) (c_input_fmt c)
             (heap_before_assembler env c h);
         if rc \<noteq> 0 then do { g \<leftarrow> free_blk (Some (next_blk h + 2)) g; g \<leftarrow> free_blk (Some (next_blk h + 1)) g;
                           g \<leftarrow> free_blk (Some (next_blk h)) g; Some (None, g) }
         else Some (Some ((rx_before_assembler c (next_blk h))\<lparr>r_assembler := a\<rparr>), g) }"
proof -
  obtain addr where guards: "c_multicast_addr c = Some addr" "c_has_frame_cb c" "c_width c \<noteq> 0"
      "c_height c \<noteq> 0" "c_width c mod 2 = 0"
    using assms(1) by (auto simp: checked_def)
  note defs = st2110rx_create_def alloc_outcomes heap_before_assembler_def rx_before_assembler_def
    zero_rx_def numeral_3_eq_3 Let_def
  show ?thesis
  proof (cases "rx_assembler_init zero_assembler (c_width c) (c_height c) (c_input_fmt c) (heap_before_assembler env c h)")
    case None
    then show ?thesis using guards assms(3-5) by (cases "c_enable_jumbo c") (simp_all add: defs)
  next
    case (Some x)
    obtain rc a g where "x = (rc, a, g)" by (cases x)
    with Some show ?thesis using guards assms(3-5) 
      by (cases "rc = 0"; cases "c_enable_jumbo c") (simp_all add: defs)
  qed
qed

definition enough_memory :: "'z heap_scheme \<Rightarrow> bool" where
  "enough_memory h \<longleftrightarrow> (\<forall>i<5. \<not> oom h (next_blk h + i))"

lemma enough_memory_iff:
  "enough_memory h \<longleftrightarrow> \<not> oom h (next_blk h) \<and> \<not> oom h (next_blk h + 1) \<and> \<not> oom h (next_blk h + 2)
     \<and> \<not> oom h (next_blk h + 3) \<and> \<not> oom h (next_blk h + 4)"
  by (simp add: enough_memory_def numeral_eq_Suc All_less_Suc conj_ac)

lemma heap_before_assembler_simps:
  "next_blk (heap_before_assembler env c h) = next_blk h + 3"
  "oom (heap_before_assembler env c h) = oom h" "junk (heap_before_assembler env c h) = junk h"
  "heap.more (heap_before_assembler env c h) = heap.more h"
  "blocks (heap_before_assembler env c h) (next_blk h) \<noteq> None"
  "blocks (heap_before_assembler env c h) (next_blk h + 1) \<noteq> None"
  "blocks (heap_before_assembler env c h) (next_blk h + 2) \<noteq> None"
  by (simp_all add: heap_before_assembler_def Let_def)

lemma heap_before_assembler_wf: "heap_wf h \<Longrightarrow> heap_wf (heap_before_assembler env c h)"
  by (auto simp: heap_before_assembler_def heap_wf_def Let_def less_SucI)

text \<open>Giving back the first three blocks restores the memory.\<close>

lemma free_first_blocks:
  assumes wf: "heap_wf h" and g: "blocks g = blocks (heap_before_assembler env c h)" "oom g = oom h"
    "junk g = junk h" "next_blk h \<le> next_blk g" "heap.more g = heap.more h"
  shows "\<exists>h'. do { g \<leftarrow> free_blk (Some (next_blk h + 2)) g; g \<leftarrow> free_blk (Some (next_blk h + 1)) g;
                 g \<leftarrow> free_blk (Some (next_blk h)) g; Some (None, g) } = Some (None, h') \<and> same_memory h h'"
proof -
  have "(blocks g)(next_blk h + 2 := None, next_blk h + 1 := None, next_blk h := None) = blocks h"
    unfolding g(1) using fresh_blocks [OF wf] by (auto simp: heap_before_assembler_def Let_def fun_eq_iff)
  then show ?thesis
    using heap_before_assembler_simps(5-7) [of env c h] g
    by (simp add: free_blk_live same_memory_def)
qed

text \<open>A request that is not supported, or for which memory runs out, takes nothing.\<close>

lemma create_fails:
  assumes "\<not> (valid_config c \<and> enough_memory h)" and wf: "heap_wf h"
  shows "\<exists>h'. st2110rx_create env (Some c) h = Some (None, h') \<and> same_memory h h'"
proof (cases "checked c \<and> \<not> oom h (next_blk h) \<and> \<not> oom h (next_blk h + 1) \<and> \<not> oom h (next_blk h + 2)")
  case False
  then show ?thesis
    using create_unchecked [of c env h] create_first_allocations [of c h env] wf
    by (cases "checked c") (auto simp: same_memory_def)
next
  case True
  let ?g = "heap_before_assembler env c h"
  have "\<exists>a g. rx_assembler_init zero_assembler (c_width c) (c_height c) (c_input_fmt c) ?g = Some (-1, a, g)
      \<and> blocks g = blocks ?g \<and> oom g = oom h \<and> junk g = junk h \<and> next_blk h \<le> next_blk g \<and> heap.more g = heap.more h"
  proof (cases "supported (c_width c) (c_height c) (c_input_fmt c)")
    case False
    then show ?thesis by (simp add: not_supported_init heap_before_assembler_simps)
  next
    case sup: True
    have "valid_config c" using sup True by (simp add: valid_config_def checked_def)
    then have "oom ?g (next_blk ?g) \<or> oom ?g (Suc (next_blk ?g))"
      using assms(1) True by (auto simp: enough_memory_iff heap_before_assembler_simps eval_nat_numeral)
    then show ?thesis
      using pgroup_of_fmt_supported [OF sup] supported_init [OF sup heap_before_assembler_wf [OF wf]]
      by (fastforce simp: heap_before_assembler_simps)
  qed
  then obtain a g where "rx_assembler_init zero_assembler (c_width c) (c_height c) (c_input_fmt c) ?g = Some (-1, a, g)"
      and g: "blocks g = blocks ?g" "oom g = oom h" "junk g = junk h" "next_blk h \<le> next_blk g" "heap.more g = heap.more h"
    by blast
  then show ?thesis
    using create_assembler [of c h env] True wf free_first_blocks [OF wf g] by simp
qed

lemma create_succeeds:
  assumes c: "valid_config c" and mem: "enough_memory h" and wf: "heap_wf h"
  obtains h' where "st2110rx_create env (Some c) h = Some (Some (fresh_rx c (next_blk h)), h')"
    and "blocks h' = fresh_rx_blocks env c h" and "heap_wf h'" and "next_blk h' = next_blk h + 5"
    and "oom h' = oom h" and "junk h' = junk h" and "heap.more h' = heap.more h"
proof -
  let ?g = "heap_before_assembler env c h"
  have sup: "supported (c_width c) (c_height c) (c_input_fmt c)" using c by (simp add: valid_config_def)
  have chk: "checked c" using c by (simp add: valid_config_def checked_def supported_def)
  obtain pg where pg: "pgroup_of_fmt (c_input_fmt c) = Some pg" using pgroup_of_fmt_supported [OF sup] by blast
  have "\<not> (oom ?g (next_blk ?g) \<or> oom ?g (Suc (next_blk ?g)))"
    using mem by (simp add: enough_memory_iff heap_before_assembler_simps eval_nat_numeral)
  with supported_init [OF sup heap_before_assembler_wf [OF wf, of env c] pg, of zero_assembler]
  obtain h' where h': "rx_assembler_init zero_assembler (c_width c) (c_height c) (c_input_fmt c) ?g
        = Some (0, fresh_assembler (c_width c) (c_height c) pg (Some (next_blk h + 3)) (Some (next_blk h + 4)), h')"
      "blocks h' = (blocks ?g)(next_blk h + 3 \<mapsto> replicate (picture_size c) 0, next_blk h + 4 \<mapsto> replicate (picture_size c) 0)"
      "heap_wf h'" "next_blk h' = next_blk h + 5" "oom h' = oom h" "junk h' = junk h" "heap.more h' = heap.more h"
    by (auto simp: heap_before_assembler_simps picture_size_def pg eval_nat_numeral)
  show ?thesis
  proof (rule that [of h'])
    show "st2110rx_create env (Some c) h = Some (Some (fresh_rx c (next_blk h)), h')"
      using create_assembler [OF chk wf, of env] mem h'(1)
      by (simp add: enough_memory_iff pg fresh_rx_def rx_before_assembler_def)
    show "blocks h' = fresh_rx_blocks env c h"
      using h'(2) by (simp add: fresh_rx_blocks_def heap_before_assembler_def fresh_rx_def rx_before_assembler_def
          picture_size_def Let_def)
  qed (use h' in simp_all)
qed

end
