(* ===== verification/Rx_Core_Start.thy ===== *)
theory Rx_Core_Start
  imports Rx_Core_Create
begin

text \<open>
  What a receiver holds of the operating system and of memory, idle and running, and
  \<open>st2110rx_start\<close> with each of its failures on both platforms.
\<close>

section \<open>What a receiver holds\<close>

definition iocp_held :: "st2110rx \<Rightarrow> resource multiset" where
  "iocp_held rx = (case r_iocp rx of None \<Rightarrow> {#} | Some p \<Rightarrow> {#R_iocp p#})"

definition thread_held :: "st2110rx \<Rightarrow> resource multiset" where
  "thread_held rx = (case r_thread rx of
     Some t \<Rightarrow> if r_thread_started rx then {#R_thread t#} else {#} | None \<Rightarrow> {#})"

definition held :: "platform \<Rightarrow> st2110rx \<Rightarrow> resource multiset" where
  "held pf rx = thread_held rx + iocp_held rx + joined_socket (r_sock rx) (r_mreq rx)
     + (if r_sockets_initialized rx then startup_held pf else {#})"

text \<open>The blocks of a receiver; the completion buffers only while it runs on Windows.\<close>

definition owned :: "st2110rx \<Rightarrow> ptr list" where
  "owned rx = [r_self rx, r_pkt_buf rx, r_convert_buf rx, fill_buf (r_assembler rx), deliver_buf (r_assembler rx)]
     @ (if r_iocp_buffers rx = None then [] else [r_iocp_buffers rx])"

definition owns :: "st2110rx \<Rightarrow> 'z heap_scheme \<Rightarrow> bool" where
  "owns rx w \<longleftrightarrow> distinct (owned rx) \<and> (\<forall>p \<in> set (owned rx). contents w p \<noteq> None)"

definition idle :: "st2110rx \<Rightarrow> bool" where
  "idle rx \<longleftrightarrow> \<not> r_running rx \<and> r_sock rx = RX_INVALID_SOCKET \<and> \<not> r_thread_started rx
     \<and> \<not> r_sockets_initialized rx \<and> r_iocp rx = None \<and> r_iocp_buffers rx = None"

definition active :: "platform \<Rightarrow> st2110rx \<Rightarrow> bool" where
  "active pf rx \<longleftrightarrow> r_running rx \<and> r_sock rx \<noteq> RX_INVALID_SOCKET \<and> r_thread_started rx \<and> r_thread rx \<noteq> None
     \<and> r_sockets_initialized rx
     \<and> (if pf = WIN32 then r_iocp rx \<noteq> None \<and> r_iocp_buffers rx \<noteq> None
        else r_iocp rx = None \<and> r_iocp_buffers rx = None)"

definition life_inv :: "platform \<Rightarrow> resource multiset \<Rightarrow> st2110rx \<Rightarrow> 'z world_scheme \<Rightarrow> bool" where
  "life_inv pf R rx w \<longleftrightarrow> (idle rx \<or> active pf rx) \<and> holding w (held pf rx + R) \<and> heap_wf w \<and> owns rx w"

lemma same_heap_udp_destroy [simp]: "same_heap w (rx_udp_destroy s q w') = same_heap w w'"
  by (simp add: same_heap_def)

lemma same_heap_udp_create: "rx_udp_create env config q w = (s, q', w') \<Longrightarrow> same_heap w w'"
  using rx_udp_create_memory by (fastforce simp: same_heap_def)

section \<open>Resources, step by step\<close>

lemma cleanup_sockets_holding:
  assumes "holding w ((if r_sockets_initialized rx then startup_held pf else {#}) + R)"
  obtains w' where "cleanup_sockets pf rx w = (rx\<lparr>r_sockets_initialized := False\<rparr>, w')"
    and "holding w' R" and "same_heap w w'"
proof (cases "r_sockets_initialized rx")
  case True
  then show ?thesis
    using assms rx_socket_cleanup_holding by (intro that [of "rx_socket_cleanup pf w"]) (auto simp: cleanup_sockets_def)
next
  case False
  then have "rx\<lparr>r_sockets_initialized := False\<rparr> = rx" by (cases rx) simp
  then show ?thesis using assms False by (intro that [of w]) (simp_all add: cleanup_sockets_def)
qed

text \<open>Closing the port and freeing its buffers; nothing to do on POSIX, where there are none.\<close>

lemma close_iocp_obtain:
  assumes "holding w (iocp_held rx + R)"
    and "r_iocp_buffers rx \<noteq> None \<longrightarrow> contents w (r_iocp_buffers rx) \<noteq> None"
    and "pf = POSIX \<longrightarrow> r_iocp rx = None \<and> r_iocp_buffers rx = None"
  obtains w' where "close_iocp pf rx w = Some (rx\<lparr>r_iocp := None, r_iocp_buffers := None\<rparr>, w')"
    and "holding w' R" and "next_blk w' = next_blk w" and "world.more w' = world.more w"
    and "oom w' = oom w" and "junk w' = junk w"
    and "\<And>p. contents w' p = (if p = r_iocp_buffers rx then None else contents w p)"
proof (cases pf)
  case POSIX
  then have "rx\<lparr>r_iocp := None, r_iocp_buffers := None\<rparr> = rx" using assms(3) by (cases rx) simp
  then show ?thesis using assms(1,3) POSIX
    by (intro that [of w]) (auto simp: close_iocp_def iocp_held_def contents_def)
next
  case WIN32
  define w1 where "w1 = (case r_iocp rx of None \<Rightarrow> w | Some p \<Rightarrow> emit (Sys_close_handle p) w)"
  have w1: "holding w1 R" "same_heap w w1"
    using assms(1) by (auto simp: w1_def iocp_held_def intro: holding_emit split: option.splits)
  have c1: "contents w1 p = contents w p" for p
    using w1(2) by (simp add: same_heap_def contents_def split: option.split)
  define rx1 where "rx1 = rx\<lparr>r_iocp := None\<rparr>"
  have rx1: "(case r_iocp rx of None \<Rightarrow> (rx, w) | Some p \<Rightarrow> (rx\<lparr>r_iocp := None\<rparr>, emit (Sys_close_handle p) w)) = (rx1, w1)"
    by (cases rx) (simp add: w1_def rx1_def split: option.split)
  show ?thesis
  proof (cases "r_iocp_buffers rx")
    case None
    then show ?thesis
      using w1 c1 by (intro that [of w1])
        (auto simp: close_iocp_def WIN32 rx1 rx1_def free_blk_def same_heap_def contents_def split: option.splits)
  next
    case (Some a)
    then have "blocks w1 a \<noteq> None" using assms(2) c1 [of "Some a"] by (simp add: contents_def)
    then show ?thesis
      using Some w1 c1
      by (intro that [of "w1\<lparr>blocks := (blocks w1)(a := None)\<rparr>"])
        (auto simp: close_iocp_def WIN32 rx1 rx1_def free_blk_def same_heap_def contents_def holding_def split: option.splits)
  qed
qed

lemma close_socket_holding:
  assumes "holding w (joined_socket (r_sock rx) (r_mreq rx) + R)"
  obtains w' where "close_socket rx w = (rx\<lparr>r_sock := RX_INVALID_SOCKET\<rparr>, w')" and "holding w' R" and "same_heap w w'"
  using rx_udp_destroy_holding [OF assms]
  by (intro that [of "rx_udp_destroy (r_sock rx) (r_mreq rx) w"]) (simp_all add: close_socket_def)

text \<open>Giving back the socket and the library after a failure.\<close>

lemma give_back:
  assumes "holding w (joined_socket (r_sock rx) (r_mreq rx) + startup_held pf + R)"
  obtains (give) w' where "close_socket rx w = (rx\<lparr>r_sock := RX_INVALID_SOCKET\<rparr>, w')"
    and "holding (rx_socket_cleanup pf w') R" and "same_heap w (rx_socket_cleanup pf w')"
proof (rule close_socket_holding [of w rx "startup_held pf + R"])
  show "holding w (joined_socket (r_sock rx) (r_mreq rx) + (startup_held pf + R))"
    using assms by (simp add: add.assoc)
  show thesis if "close_socket rx w = (rx\<lparr>r_sock := RX_INVALID_SOCKET\<rparr>, w')" "holding w' (startup_held pf + R)"
      "same_heap w w'" for w'
    using that(1,3) rx_socket_cleanup_holding [OF that(2)] by (intro give) simp_all
qed

text \<open>Nothing that was live has changed; what was not may be.\<close>

definition keeps_live :: "'z world_scheme \<Rightarrow> 'z world_scheme \<Rightarrow> bool" where
  "keeps_live w w' \<longleftrightarrow> (\<forall>p. contents w p \<noteq> None \<longrightarrow> contents w' p = contents w p) \<and> world.more w' = world.more w
     \<and> (heap_wf w \<longrightarrow> heap_wf w')"

lemma same_heap_contents: "same_heap w w' \<Longrightarrow> contents w' p = contents w p"
  by (simp add: same_heap_def contents_def split: option.split)

lemma same_heap_keeps: "same_heap w w' \<Longrightarrow> keeps_live w w'"
  by (simp add: keeps_live_def same_heap_contents) (simp add: same_heap_def heap_wf_def)

lemma keeps_live_same: "keeps_live w w' \<Longrightarrow> same_heap w' w'' \<Longrightarrow> keeps_live w w''"
  by (simp add: keeps_live_def same_heap_contents) (simp add: same_heap_def heap_wf_def)

lemma keeps_live_trans: "keeps_live w w' \<Longrightarrow> keeps_live w' w'' \<Longrightarrow> keeps_live w w''"
  by (simp add: keeps_live_def)

lemma calloc_world:
  assumes "calloc n w = (p, w')" and "heap_wf (w :: 'z world_scheme)"
  shows "holding w' R = holding w R" and "heap_wf w'" and "world.more w' = world.more w" and "trace w' = trace w"
    and "p \<noteq> None \<Longrightarrow> contents w p = None \<and> contents w' p \<noteq> None"
    and "q \<noteq> p \<Longrightarrow> contents w' q = contents w q" and "p = None \<Longrightarrow> contents w' q = contents w q"
  using assms fresh_blocks [OF assms(2), of "next_blk w"]
  by (auto simp: calloc_def alloc_def Let_def holding_def heap_wf_def contents_def less_SucI split: if_splits option.splits)

text \<open>Memory as it was.\<close>

definition same_contents :: "'z world_scheme \<Rightarrow> 'z world_scheme \<Rightarrow> bool" where
  "same_contents w w' \<longleftrightarrow> (\<forall>p. contents w' p = contents w p) \<and> world.more w' = world.more w \<and> (heap_wf w \<longrightarrow> heap_wf w')"

lemma same_contents_keeps: "same_contents w w' \<Longrightarrow> keeps_live w w'"
  by (simp add: same_contents_def keeps_live_def)

lemma same_heap_same_contents: "same_heap w w' \<Longrightarrow> same_contents w w'"
  by (simp add: same_contents_def same_heap_contents) (simp add: same_heap_def heap_wf_def)

lemma same_contents_trans: "same_contents w w' \<Longrightarrow> same_contents w' w'' \<Longrightarrow> same_contents w w''"
  by (simp add: same_contents_def)

text \<open>A failure after which memory is as it was in \<open>w\<close>.\<close>

lemma give_back_kept:
  assumes "holding v (joined_socket (r_sock rx) (r_mreq rx) + startup_held pf + R)" and "heap_wf v"
    and "\<And>q. contents v q = contents w q" and "world.more v = world.more w"
  obtains w' where "close_socket rx v = (rx\<lparr>r_sock := RX_INVALID_SOCKET\<rparr>, w')"
    and "holding (rx_socket_cleanup pf w') R" and "keeps_live w (rx_socket_cleanup pf w')"
    and "\<And>q. contents (rx_socket_cleanup pf w') q = contents w q"
proof (rule give_back [OF assms(1)])
  fix w' assume w': "close_socket rx v = (rx\<lparr>r_sock := RX_INVALID_SOCKET\<rparr>, w')"
    "holding (rx_socket_cleanup pf w') R" "same_heap v (rx_socket_cleanup pf w')"
  have kept: "contents (rx_socket_cleanup pf w') q = contents w q" for q
    using same_heap_contents [OF w'(3)] assms(3) by simp
  then have "keeps_live w (rx_socket_cleanup pf w')"
    using same_heap_same_contents [OF w'(3)] assms(2,4) by (simp add: keeps_live_def same_contents_def)
  with w' kept show thesis by (rule_tac that)
qed

text \<open>The completion port refused: its buffers are freed first.\<close>

lemma port_refused:
  assumes "holding w2 (joined_socket (r_sock rx) (r_mreq rx) + startup_held pf + R)" and "heap_wf w2"
    and "contents w (Some a) = None" and "contents w2 (Some a) \<noteq> None"
    and "\<And>q. q \<noteq> Some a \<Longrightarrow> contents w2 q = contents w q" and "world.more w2 = world.more w"
  obtains w3 w4 where "free_blk (Some a) w2 = Some w3" and "close_socket rx w3 = (rx\<lparr>r_sock := RX_INVALID_SOCKET\<rparr>, w4)"
    and "holding (rx_socket_cleanup pf w4) R" and "keeps_live w (rx_socket_cleanup pf w4)"
    and "\<And>q. contents (rx_socket_cleanup pf w4) q = contents w q"
proof -
  let ?w3 = "w2\<lparr>blocks := (blocks w2)(a := None)\<rparr>"
  have free: "free_blk (Some a) w2 = Some ?w3" using assms(4) by (simp add: free_blk_def contents_def)
  have "contents ?w3 q = contents w q" for q
    using assms(3) assms(5) [of q] by (cases "q = Some a") (auto simp: contents_def split: option.splits)
  moreover have "holding ?w3 (joined_socket (r_sock rx) (r_mreq rx) + startup_held pf + R)" using assms(1) by simp
  moreover have "heap_wf ?w3" using assms(2) by (simp add: heap_wf_def)
  ultimately obtain w4 where w4: "close_socket rx ?w3 = (rx\<lparr>r_sock := RX_INVALID_SOCKET\<rparr>, w4)"
      "holding (rx_socket_cleanup pf w4) R" "keeps_live w (rx_socket_cleanup pf w4)"
      "\<And>q. contents (rx_socket_cleanup pf w4) q = contents w q"
    using give_back_kept [of ?w3 rx pf R w] assms(6) by auto
  show thesis by (rule that [OF free w4])
qed

lemma open_iocp_outcomes:
  assumes "holding w (joined_socket (r_sock rx) (r_mreq rx) + startup_held pf + R)" and "heap_wf w"
    and "r_iocp rx = None" and "r_iocp_buffers rx = None" and "r_sock rx \<noteq> RX_INVALID_SOCKET"
  obtains (fail) e w' where "open_iocp env pf rx w =
        Some (Some e, rx\<lparr>r_sock := RX_INVALID_SOCKET, r_sockets_initialized := False\<rparr>, w')"
      and "e \<noteq> ST2110RX_OK" and "holding w' R" and "keeps_live w w'" and "\<And>p. contents w' p = contents w p"
  | (ok) p b w' where "open_iocp env pf rx w = Some (None, rx\<lparr>r_iocp := p, r_iocp_buffers := b\<rparr>, w')"
      and "holding w' (iocp_held (rx\<lparr>r_iocp := p\<rparr>) + joined_socket (r_sock rx) (r_mreq rx) + startup_held pf + R)"
      and "keeps_live w w'"
      and "if pf = WIN32 then p \<noteq> None \<and> b \<noteq> None else p = None \<and> b = None"
      and "b \<noteq> None \<Longrightarrow> contents w b = None \<and> contents w' b \<noteq> None"
      and "\<And>q. q \<noteq> b \<Longrightarrow> contents w' q = contents w q"
proof (cases pf)
  case POSIX
  moreover have "rx\<lparr>r_iocp := None, r_iocp_buffers := None\<rparr> = rx" using assms(3,4) by (cases rx) simp
  ultimately show ?thesis
    using assms by (intro ok [of None None w]) (simp_all add: open_iocp_def iocp_held_def keeps_live_def)
next
  case WIN32
  obtain b w1 where c: "calloc (RX_IOCP_NUM_BUFFERS * e_sizeof_iocp_buffer env) w = (b, w1)" by fastforce
  note c1 = calloc_world [OF c assms(2)]
  show ?thesis
  proof (cases b)
    case None
    have rx: "rx\<lparr>r_iocp_buffers := None\<rparr> = rx" using assms(4) by (cases rx) simp
    let ?w2 = "rx_log (r_config rx) ST2110RX_LOG_ERROR Msg_iocp_alloc_failed w1"
    have "holding ?w2 (joined_socket (r_sock rx) (r_mreq rx) + startup_held pf + R)" "heap_wf ?w2"
        "\<And>q. contents ?w2 q = contents w q" "world.more ?w2 = world.more w"
      using assms(1) c1(1-3,7) None by (simp_all add: heap_wf_def)
    then obtain w3 where w3: "close_socket rx ?w2 = (rx\<lparr>r_sock := RX_INVALID_SOCKET\<rparr>, w3)"
        "holding (rx_socket_cleanup pf w3) R" "keeps_live w (rx_socket_cleanup pf w3)"
        "\<And>q. contents (rx_socket_cleanup pf w3) q = contents w q"
      using give_back_kept [of ?w2 rx pf R w] by auto
    show ?thesis
      by (rule fail [OF _ _ w3(2-4), of ST2110RX_ERR_ALLOC])
        (use c w3(1) None WIN32 in \<open>simp_all add: open_iocp_def rx error_codes\<close>)
  next
    case (Some a)
    define p where "p = e_iocp env (now w1)"
    let ?w2 = "emit (Sys_iocp_create (r_sock rx) p) w1"
    have w2: "holding ?w2 (iocp_held (rx\<lparr>r_iocp := p\<rparr>) + joined_socket (r_sock rx) (r_mreq rx) + startup_held pf + R)"
      using assms(1,5) c1(1)
      by (intro holding_emit [of w1 "joined_socket (r_sock rx) (r_mreq rx) + startup_held pf + R"])
        (auto simp: require_def joined_socket_def iocp_held_def split: option.splits)
    have new: "contents w b = None" "contents w1 b \<noteq> None" using c1(5) Some by simp_all
    show ?thesis
    proof (cases p)
      case (Some h)
      have "contents ?w2 q = contents w q" if "contents w q \<noteq> None" for q
        using c1(6) [of q] new(1) that by (cases "q = b") simp_all
      then have "keeps_live w ?w2" using c1(2,3) by (simp add: keeps_live_def heap_wf_def)
      then show ?thesis
        using c w2 new c1(6) Some \<open>b = Some a\<close> WIN32
        by (intro ok [of b p ?w2]) (simp_all add: open_iocp_def p_def Let_def)
    next
      case None
      let ?w3 = "rx_log (r_config rx) ST2110RX_LOG_ERROR (Msg_iocp_create_failed (rx_socket_error env ?w2)) ?w2"
      have rx: "rx\<lparr>r_iocp := None, r_iocp_buffers := None\<rparr> = rx" using assms(3,4) by (cases rx) simp
      have "holding ?w3 (joined_socket (r_sock rx) (r_mreq rx) + startup_held pf + R)" "heap_wf ?w3"
          "world.more ?w3 = world.more w"
        using w2 None c1(2,3) by (simp_all add: iocp_held_def heap_wf_def)
      then obtain w4 w5 where w5: "free_blk b ?w3 = Some w4" "close_socket rx w4 = (rx\<lparr>r_sock := RX_INVALID_SOCKET\<rparr>, w5)"
          "holding (rx_socket_cleanup pf w5) R" "keeps_live w (rx_socket_cleanup pf w5)"
          "\<And>q. contents (rx_socket_cleanup pf w5) q = contents w q"
        using port_refused [of ?w3 rx pf R w a] new c1(6) \<open>b = Some a\<close> by auto
      show ?thesis
        by (rule fail [OF _ _ w5(3-5), of ST2110RX_ERR_SOCKET])
          (use c None \<open>b = Some a\<close> WIN32 w5(1,2) rx in \<open>simp_all add: open_iocp_def p_def [symmetric] error_codes Let_def\<close>)
    qed
  qed
qed

section \<open>Start\<close>

text \<open>The receiver with everything of the operating system given back.\<close>

definition shut :: "st2110rx \<Rightarrow> st2110rx" where
  "shut rx = rx\<lparr>r_running := False, r_thread_started := False, r_sock := RX_INVALID_SOCKET,
     r_sockets_initialized := False, r_iocp := None, r_iocp_buffers := None\<rparr>"

lemma idle_shut [simp]: "idle (shut rx)"
  by (simp add: idle_def shut_def)

lemma idle_held [simp]: "idle rx \<Longrightarrow> held pf rx = {#}"
  by (simp add: held_def idle_def thread_held_def iocp_held_def joined_socket_def split: option.split)

lemma shut_idle: "idle rx \<Longrightarrow> shut rx = rx"
  by (cases rx) (simp add: shut_def idle_def)

definition ready :: "platform \<Rightarrow> st2110rx \<Rightarrow> bool" where
  "ready pf rx \<longleftrightarrow> \<not> r_running rx \<and> \<not> r_thread_started rx \<and> r_sock rx \<noteq> RX_INVALID_SOCKET \<and> r_sockets_initialized rx
     \<and> (if pf = WIN32 then r_iocp rx \<noteq> None \<and> r_iocp_buffers rx \<noteq> None
        else r_iocp rx = None \<and> r_iocp_buffers rx = None)"

lemma launch_thread_outcomes:
  assumes "holding w (iocp_held rx + joined_socket (r_sock rx) (r_mreq rx) + startup_held pf + R)"
    and "ready pf rx" and "heap_wf w"
    and "r_iocp_buffers rx \<noteq> None \<longrightarrow> contents w (r_iocp_buffers rx) \<noteq> None"
  obtains (fail) rx' w' where "launch_thread env pf rx w = Some (ST2110RX_ERR_THREAD, rx', w')"
      and "rx' = shut (rx\<lparr>r_thread := None\<rparr>)" and "holding w' R" and "heap_wf w'" and "world.more w' = world.more w"
      and "\<And>p. contents w' p = (if p = r_iocp_buffers rx then None else contents w p)"
  | (ok) t w' where "launch_thread env pf rx w =
        Some (ST2110RX_OK, rx\<lparr>r_running := True, r_thread := Some t, r_thread_started := True\<rparr>, w')"
      and "holding w' ({#R_thread t#} + (iocp_held rx + joined_socket (r_sock rx) (r_mreq rx) + startup_held pf + R))"
      and "same_heap w w'"
proof (cases "e_thread env (now w)")
  case (Some t)
  let ?w = "emit (Sys_thread_create (Some t)) w"
  have "holding ?w ({#R_thread t#} + (iocp_held rx + joined_socket (r_sock rx) (r_mreq rx) + startup_held pf + R))"
    by (rule holding_emit [OF assms(1)]) simp
  then show ?thesis
    by (rule ok [rotated]) (simp_all add: launch_thread_def rx_thread_create_def Some Let_def)
next
  case None
  let ?w1 = "emit (Sys_thread_create None) w" and ?rx1 = "rx\<lparr>r_running := True, r_thread := None, r_running := False\<rparr>"
  have rx1: "iocp_held ?rx1 = iocp_held rx" by (simp add: iocp_held_def)
  have h1: "holding ?w1 (iocp_held ?rx1 + (joined_socket (r_sock rx) (r_mreq rx) + startup_held pf + R))"
    unfolding rx1 by (rule holding_emit [OF assms(1)]) (simp add: add.assoc)
  have b1: "r_iocp_buffers ?rx1 \<noteq> None \<longrightarrow> contents ?w1 (r_iocp_buffers ?rx1) \<noteq> None"
    "pf = POSIX \<longrightarrow> r_iocp ?rx1 = None \<and> r_iocp_buffers ?rx1 = None"
    using assms(2,4) by (simp_all add: ready_def)
  obtain w2 where w2: "close_iocp pf ?rx1 ?w1 = Some (?rx1\<lparr>r_iocp := None, r_iocp_buffers := None\<rparr>, w2)"
      "holding w2 (joined_socket (r_sock rx) (r_mreq rx) + startup_held pf + R)" "next_blk w2 = next_blk ?w1"
      "world.more w2 = world.more ?w1" "oom w2 = oom ?w1" "junk w2 = junk ?w1"
      "\<And>p. contents w2 p = (if p = r_iocp_buffers ?rx1 then None else contents ?w1 p)"
    by (rule close_iocp_obtain [OF h1 b1], rule that)
  let ?rx2 = "?rx1\<lparr>r_iocp := None, r_iocp_buffers := None\<rparr>"
  have "holding w2 (joined_socket (r_sock ?rx2) (r_mreq ?rx2) + (startup_held pf + R))"
    using w2(2) by (simp add: add.assoc)
  then obtain w3 where w3: "close_socket ?rx2 w2 = (?rx2\<lparr>r_sock := RX_INVALID_SOCKET\<rparr>, w3)"
      "holding w3 (startup_held pf + R)" "same_heap w2 w3" by (rule close_socket_holding)
  let ?rx3 = "?rx2\<lparr>r_sock := RX_INVALID_SOCKET\<rparr>"
  have "holding w3 ((if r_sockets_initialized ?rx3 then startup_held pf else {#}) + R)"
    using w3(2) assms(2) by (simp add: ready_def)
  then obtain w4 where w4: "cleanup_sockets pf ?rx3 w3 = (?rx3\<lparr>r_sockets_initialized := False\<rparr>, w4)"
      "holding w4 R" "same_heap w3 w4" by (rule cleanup_sockets_holding)
  have kept: "contents w4 p = (if p = r_iocp_buffers rx then None else contents w p)" for p
    using w2(7) same_heap_contents [OF w3(3)] same_heap_contents [OF w4(3)] by simp
  show ?thesis
  proof (rule fail [of "?rx3\<lparr>r_sockets_initialized := False\<rparr>" w4, OF _ _ w4(2) _ _ kept])
    show "launch_thread env pf rx w = Some (ST2110RX_ERR_THREAD, ?rx3\<lparr>r_sockets_initialized := False\<rparr>, w4)"
      using None w2(1) w3(1) w4(1) by (simp add: launch_thread_def rx_thread_create_def Let_def)
    show "?rx3\<lparr>r_sockets_initialized := False\<rparr> = shut (rx\<lparr>r_thread := None\<rparr>)"
      using assms(2) by (cases rx) (simp add: shut_def ready_def)
    have "blocks w2 a \<noteq> None \<longrightarrow> blocks w a \<noteq> None" for a
      using w2(7) [of "Some a"] by (auto simp: contents_def split: if_splits)
    then have "heap_wf w2" using assms(3) w2(3) by (auto simp: heap_wf_def)
    then show "heap_wf w4" using w3(3) w4(3) by (simp add: same_heap_def heap_wf_def)
    show "world.more w4 = world.more w" using w2(4) w3(3) w4(3) by (simp add: same_heap_def)
  qed
qed

text \<open>What no operation but \<open>rx_process_packet\<close> changes.\<close>

definition same_core :: "st2110rx \<Rightarrow> st2110rx \<Rightarrow> bool" where
  "same_core rx rx' \<longleftrightarrow> r_self rx' = r_self rx \<and> r_config rx' = r_config rx \<and> r_assembler rx' = r_assembler rx
     \<and> r_stats rx' = r_stats rx \<and> r_pkt_buf rx' = r_pkt_buf rx \<and> r_pkt_buf_size rx' = r_pkt_buf_size rx
     \<and> r_convert_buf rx' = r_convert_buf rx \<and> r_convert_stride rx' = r_convert_stride rx"

lemma life_inv_idle:
  "idle rx \<Longrightarrow> life_inv pf R rx w \<longleftrightarrow> holding w R \<and> heap_wf w \<and> owns rx w"
  by (simp add: life_inv_def)

lemma owns_same: "owned rx' = owned rx \<Longrightarrow> same_contents w w' \<Longrightarrow> owns rx' w' = owns rx w"
  by (simp add: owns_def same_contents_def)

lemma owned_idle: "idle rx \<Longrightarrow> idle rx' \<Longrightarrow> same_core rx rx' \<Longrightarrow> owned rx' = owned rx"
  by (simp add: owned_def idle_def same_core_def)

text \<open>A failed start: the same receiver, nothing held, memory as before.\<close>

lemma failed_start:
  assumes "life_inv pf R rx w" and "idle rx" and "idle rx'" and "same_core rx rx'" and "holding w' R"
    and "same_contents w w'"
  shows "life_inv pf R rx' w'"
  using assms owned_idle [of rx rx'] owns_same [of rx' rx w w']
  by (simp add: life_inv_idle same_contents_def)

lemma owns_extend:
  assumes "owns rx w" and "idle rx" and "same_core rx rx'" and "keeps_live w w'"
    and "r_iocp_buffers rx' \<noteq> None \<Longrightarrow> contents w (r_iocp_buffers rx') = None \<and> contents w' (r_iocp_buffers rx') \<noteq> None"
  shows "owns rx' w'"
proof -
  have o: "owned rx' = owned rx @ (if r_iocp_buffers rx' = None then [] else [r_iocp_buffers rx'])"
    using assms(2,3) by (simp add: owned_def idle_def same_core_def)
  have live: "contents w p \<noteq> None" "contents w' p \<noteq> None" if "p \<in> set (owned rx)" for p
    using assms(1,4) that by (auto simp: owns_def keeps_live_def)
  then show ?thesis
    using assms(1,5) unfolding owns_def o by (cases "r_iocp_buffers rx'") auto
qed

definition start_result :: "platform \<Rightarrow> resource multiset \<Rightarrow> st2110rx \<Rightarrow> 'z world_scheme
    \<Rightarrow> int \<Rightarrow> st2110rx \<Rightarrow> 'z world_scheme \<Rightarrow> bool" where
  "start_result pf R rx w rc rx' w' \<longleftrightarrow> life_inv pf R rx' w' \<and> same_core rx rx' \<and> keeps_live w w'
     \<and> (\<forall>q. q \<notin> set (owned rx') \<longrightarrow> contents w' q = contents w q)
     \<and> (\<forall>q \<in> set (owned rx'). q \<in> set (owned rx) \<or> contents w q = None)
     \<and> (if rc = ST2110RX_OK then active pf rx' else idle rx' \<and> same_contents w w')"

text \<open>The two ways a start ends.\<close>

lemma failed_start_result:
  assumes "life_inv pf R rx w" and "idle rx" and "e \<noteq> ST2110RX_OK"
    and "idle rx'" and "same_core rx rx'" and "holding w' R" and "same_contents w w'"
  shows "start_result pf R rx w e rx' w'"
  using assms(3-) failed_start [OF assms(1,2,4-7)] owned_idle [OF assms(2,4,5)]
  by (simp add: start_result_def same_contents_keeps) (simp add: same_contents_def)

lemma running_start_result:
  assumes inv: "life_inv pf R rx w" and idle: "idle rx"
    and act: "active pf rx'" and core: "same_core rx rx'" and held: "holding w' (held pf rx' + R)"
    and keeps: "keeps_live w w'"
    and bufs: "r_iocp_buffers rx' \<noteq> None \<Longrightarrow> contents w (r_iocp_buffers rx') = None \<and> contents w' (r_iocp_buffers rx') \<noteq> None"
    and rest: "\<And>q. q \<noteq> r_iocp_buffers rx' \<Longrightarrow> contents w' q = contents w q"
  shows "start_result pf R rx w ST2110RX_OK rx' w'"
proof -
  have "owns rx' w'"
    using inv by (intro owns_extend [OF _ idle core keeps bufs]) (simp_all add: life_inv_def)
  then have "life_inv pf R rx' w'" using act held keeps inv by (simp add: life_inv_def keeps_live_def)
  moreover have "contents w' q = contents w q" if "q \<notin> set (owned rx')" for q
    using that rest [of q] by (cases "q = r_iocp_buffers rx'") (auto simp: owned_def contents_def split: if_splits)
  moreover have "q \<in> set (owned rx) \<or> contents w q = None" if "q \<in> set (owned rx')" for q
    using that bufs core idle by (auto simp: owned_def same_core_def idle_def split: if_splits)
  ultimately show ?thesis using act core keeps by (simp add: start_result_def)
qed

text \<open>The thread, once the socket and the port are open.\<close>

lemma start_thread:
  assumes inv: "life_inv pf R rx w" and idle: "idle rx" and core: "same_core rx rx3" and ready: "ready pf rx3"
    and held: "holding w3 (iocp_held rx3 + joined_socket (r_sock rx3) (r_mreq rx3) + startup_held pf + R)"
    and keeps: "keeps_live w w3"
    and bufs: "r_iocp_buffers rx3 \<noteq> None \<Longrightarrow> contents w (r_iocp_buffers rx3) = None \<and> contents w3 (r_iocp_buffers rx3) \<noteq> None"
    and rest: "\<And>q. q \<noteq> r_iocp_buffers rx3 \<Longrightarrow> contents w3 q = contents w q"
  shows "\<exists>rc rx' w'. launch_thread env pf rx3 w3 = Some (rc, rx', w') \<and> start_result pf R rx w rc rx' w'"
proof -
  have wf3: "heap_wf w3" using inv keeps by (simp add: life_inv_def keeps_live_def)
  have b3: "r_iocp_buffers rx3 \<noteq> None \<longrightarrow> contents w3 (r_iocp_buffers rx3) \<noteq> None" using bufs by simp
  from held ready wf3 b3 show ?thesis
  proof (rule launch_thread_outcomes [where env = env])
    fix rx' w4
    assume l: "launch_thread env pf rx3 w3 = Some (ST2110RX_ERR_THREAD, rx', w4)"
      "rx' = shut (rx3\<lparr>r_thread := None\<rparr>)" "holding w4 R" "heap_wf w4" "world.more w4 = world.more w3"
      "\<And>p. contents w4 p = (if p = r_iocp_buffers rx3 then None else contents w3 p)"
    have "contents w4 q = contents w q" for q
      using l(6) bufs rest [of q] by (cases "r_iocp_buffers rx3") (auto simp: contents_def)
    then have "same_contents w w4" using l(4,5) keeps by (simp add: same_contents_def keeps_live_def)
    then have "start_result pf R rx w ST2110RX_ERR_THREAD rx' w4"
      using l(2,3) core by (intro failed_start_result [OF inv idle]) (simp_all add: error_codes shut_def idle_def same_core_def)
    then show ?thesis using l(1) by blast
  next
    fix t w4
    let ?rx4 = "rx3\<lparr>r_running := True, r_thread := Some t, r_thread_started := True\<rparr>"
    assume l: "launch_thread env pf rx3 w3 = Some (ST2110RX_OK, ?rx4, w4)"
      "holding w4 ({#R_thread t#} + (iocp_held rx3 + joined_socket (r_sock rx3) (r_mreq rx3) + startup_held pf + R))"
      "same_heap w3 w4"
    have "start_result pf R rx w ST2110RX_OK ?rx4 w4"
    proof (rule running_start_result [OF inv idle])
      show "active pf ?rx4" using ready by (simp add: active_def ready_def split: if_splits)
      show "same_core rx ?rx4" using core by (simp add: same_core_def)
      show "holding w4 (held pf ?rx4 + R)"
        using l(2) ready by (simp add: held_def thread_held_def iocp_held_def ready_def ac_simps)
      show "keeps_live w w4" by (rule keeps_live_same [OF keeps l(3)])
    qed (use bufs rest same_heap_contents [OF l(3)] in simp_all)
    then show ?thesis using l(1) by blast
  qed
qed

text \<open>The port and the thread, once the socket is open.\<close>

lemma start_socket:
  assumes inv: "life_inv pf R rx w" and idle: "idle rx" and same: "same_heap w w2" and sock: "sock \<noteq> RX_INVALID_SOCKET"
    and rx2: "rx2 = rx\<lparr>r_sockets_initialized := True, r_sock := sock, r_mreq := mreq\<rparr>"
    and held: "holding w2 (joined_socket sock mreq + startup_held pf + R)"
  shows "\<exists>rc rx' w'. do { (err, rx, w) \<leftarrow> open_iocp env pf rx2 w2;
               case err of Some e \<Rightarrow> Some (e, Some rx, w)
               | None \<Rightarrow> do { (rc, rx, w) \<leftarrow> launch_thread env pf rx w; Some (rc, Some rx, w) } } = Some (rc, Some rx', w')
    \<and> start_result pf R rx w rc rx' w'"
proof -
  have run: "\<not> r_running rx" "\<not> r_thread_started rx" "r_iocp rx = None" "r_iocp_buffers rx = None"
    using idle by (simp_all add: idle_def)
  have wf2: "heap_wf w2" using same inv same_heap_same_contents [OF same] by (simp add: same_contents_def life_inv_def)
  have held2: "holding w2 (joined_socket (r_sock rx2) (r_mreq rx2) + startup_held pf + R)" using held by (simp add: rx2)
  from held2 wf2 show ?thesis
  proof (rule open_iocp_outcomes [where env = env])
    fix e w3
    let ?rx3 = "rx2\<lparr>r_sock := RX_INVALID_SOCKET, r_sockets_initialized := False\<rparr>"
    assume o: "open_iocp env pf rx2 w2 = Some (Some e, ?rx3, w3)" "e \<noteq> ST2110RX_OK" "holding w3 R"
      "keeps_live w2 w3" "\<And>p. contents w3 p = contents w2 p"
    have "same_contents w2 w3" using o(4,5) by (simp add: same_contents_def keeps_live_def)
    then have "start_result pf R rx w e ?rx3 w3"
      using o(2,3) run same by (intro failed_start_result [OF inv idle])
        (auto simp: rx2 idle_def same_core_def intro: same_contents_trans same_heap_same_contents)
    then show ?thesis using o(1) by auto
  next
    fix p b w3
    let ?rx3 = "rx2\<lparr>r_iocp := p, r_iocp_buffers := b\<rparr>"
    assume o: "open_iocp env pf rx2 w2 = Some (None, ?rx3, w3)"
      "holding w3 (iocp_held (rx2\<lparr>r_iocp := p\<rparr>) + joined_socket (r_sock rx2) (r_mreq rx2) + startup_held pf + R)"
      "keeps_live w2 w3" "if pf = WIN32 then p \<noteq> None \<and> b \<noteq> None else p = None \<and> b = None"
      "b \<noteq> None \<Longrightarrow> contents w2 b = None \<and> contents w3 b \<noteq> None"
      "\<And>q. q \<noteq> b \<Longrightarrow> contents w3 q = contents w2 q"
    have "ready pf ?rx3" using run sock o(4) by (simp add: ready_def rx2)
    moreover have "same_core rx ?rx3" by (simp add: same_core_def rx2)
    moreover have "holding w3 (iocp_held ?rx3 + joined_socket (r_sock ?rx3) (r_mreq ?rx3) + startup_held pf + R)"
      using o(2) by (simp add: iocp_held_def)
    moreover have "keeps_live w w3" by (rule keeps_live_trans [OF same_heap_keeps [OF same] o(3)])
    moreover have "r_iocp_buffers ?rx3 \<noteq> None \<Longrightarrow> contents w (r_iocp_buffers ?rx3) = None \<and> contents w3 (r_iocp_buffers ?rx3) \<noteq> None"
      using o(5) same_heap_contents [OF same] by simp
    moreover have "contents w3 q = contents w q" if "q \<noteq> r_iocp_buffers ?rx3" for q
      using o(6) same_heap_contents [OF same] that by simp
    ultimately obtain rc rx' w' where "launch_thread env pf ?rx3 w3 = Some (rc, rx', w')" "start_result pf R rx w rc rx' w'"
      using start_thread [OF inv idle] by blast
    then show ?thesis using o(1) by auto
  qed (use run sock in \<open>simp_all add: rx2\<close>)
qed

lemma start_idle:
  assumes inv: "life_inv pf R rx w" and idle: "idle rx"
  shows "\<exists>rc rx' w'. st2110rx_start env pf (Some rx) w = Some (rc, Some rx', w') \<and> start_result pf R rx w rc rx' w'"
proof -
  have R: "holding w R" using inv idle by (simp add: life_inv_idle)
  have run: "\<not> r_running rx" using idle by (simp add: idle_def)
  obtain rc w1 where init: "rx_socket_init env pf w = (rc, w1)" by fastforce
  note i = rx_socket_init_holding [OF R init]
  show ?thesis
  proof (cases "rc = 0")
    case False
    let ?w2 = "rx_log (r_config rx) ST2110RX_LOG_ERROR Msg_socket_init_failed w1"
    have "same_contents w ?w2" using i(2) by (intro same_heap_same_contents) simp
    then have "start_result pf R rx w ST2110RX_ERR_SOCKET rx ?w2"
      using i(1) False idle by (intro failed_start_result [OF inv idle]) (simp_all add: error_codes same_core_def)
    then show ?thesis using False init run by (auto simp: st2110rx_start_def)
  next
    case rc: True
    let ?rx1 = "rx\<lparr>r_sockets_initialized := True\<rparr>"
    obtain sock mreq w2 where udp: "rx_udp_create env (r_config rx) (r_mreq rx) w1 = (sock, mreq, w2)"
      by (cases "rx_udp_create env (r_config rx) (r_mreq rx) w1") auto
    have w2: "holding w2 (joined_socket sock mreq + (startup_held pf + R))" "same_heap w w2"
      using rx_udp_create_holds [of w1 "startup_held pf + R" env "r_config rx" "r_mreq rx"] i rc udp
        same_heap_trans [OF i(2) same_heap_udp_create [OF udp]] by (simp_all add: holds_joined_def)
    let ?rx2 = "?rx1\<lparr>r_sock := sock, r_mreq := mreq\<rparr>"
    show ?thesis
    proof (cases "sock = RX_INVALID_SOCKET")
      case True
      have "holding w2 ((if r_sockets_initialized ?rx2 then startup_held pf else {#}) + R)"
        using w2(1) True by (simp add: joined_socket_def)
      then obtain w3 where w3: "cleanup_sockets pf ?rx2 w2 = (?rx2\<lparr>r_sockets_initialized := False\<rparr>, w3)"
          "holding w3 R" "same_heap w2 w3" by (rule cleanup_sockets_holding)
      have "start_result pf R rx w ST2110RX_ERR_BIND (?rx2\<lparr>r_sockets_initialized := False\<rparr>) w3"
        using w3(2) idle True same_heap_trans [OF w2(2) w3(3)]
        by (intro failed_start_result [OF inv idle]) (simp_all add: error_codes idle_def same_core_def same_heap_same_contents)
      then show ?thesis using init rc run udp True w3(1) by (auto simp: st2110rx_start_def)
    next
      case False
      then show ?thesis
        using start_socket [OF inv idle w2(2) False refl, of mreq env] w2(1) init rc run udp
        by (simp add: st2110rx_start_def add.assoc)
    qed
  qed
qed

text \<open>Starting a receiver that already runs changes nothing.\<close>

lemma start_outcomes:
  assumes "life_inv pf R rx w"
  shows "\<exists>rc rx' w'. st2110rx_start env pf (Some rx) w = Some (rc, Some rx', w') \<and> start_result pf R rx w rc rx' w'"
proof (cases "idle rx")
  case True
  then show ?thesis using start_idle [OF assms] by simp
next
  case False
  then have "active pf rx" using assms by (simp add: life_inv_def)
  then have "st2110rx_start env pf (Some rx) w = Some (ST2110RX_OK, Some rx, w)"
    "start_result pf R rx w ST2110RX_OK rx w"
    using assms by (simp_all add: st2110rx_start_def active_def start_result_def same_core_def keeps_live_def)
  then show ?thesis by blast
qed

end
