(* ===== verification/Rx_Core_Life.thy ===== *)
theory Rx_Core_Life
  imports Rx_Core_Start
begin

text \<open>
  The end of a receiver's life, \<open>st2110rx_stop\<close> and \<open>st2110rx_destroy\<close>, and its beginning: a
  new receiver and its first start.
\<close>

section \<open>Stop and destroy\<close>

lemma wake_thread_holding:
  assumes "holding w R" and "\<And>p. r_iocp rx = Some p \<Longrightarrow> R_iocp p \<in># R"
  shows "holding (wake_thread pf rx w) R" and "same_heap w (wake_thread pf rx w)"
  using assms
  by (auto simp: wake_thread_def require_def intro!: holding_emit [OF assms(1)] split: platform.split option.split)

lemma join_thread_holding:
  assumes "holding w (thread_held rx + R)" and "r_thread_started rx \<longrightarrow> r_thread rx \<noteq> None \<and> thread_memory pf rx w"
  obtains w' where "join_thread pf rx w = Some (rx\<lparr>r_thread_started := False\<rparr>, w')"
    and "holding w' R" and "same_heap w w'"
proof (cases "r_thread_started rx")
  case True
  then obtain t where t: "r_thread rx = Some t" "thread_memory pf rx w" using assms(2) by auto
  have "holding (rx_thread_join pf t w) R"
    using assms(1) True t by (intro rx_thread_join_holding) (simp add: thread_held_def)
  moreover have "same_heap w (rx_thread_join pf t w)" by (cases pf) (simp_all add: rx_thread_join_def)
  ultimately show ?thesis using True t
    by (intro that [of "rx_thread_join pf t w"]) (simp_all add: join_thread_def)
next
  case False
  then have "rx\<lparr>r_thread_started := False\<rparr> = rx" by (cases rx) simp
  then show ?thesis using assms(1) False
    by (intro that [of w]) (simp_all add: join_thread_def thread_held_def split: option.splits)
qed

text \<open>What an active receiver owns is there for its thread.\<close>

lemma thread_memory_owned:
  assumes "life_inv pf R rx w" and "r_thread_started rx"
  shows "thread_memory pf rx w"
  using assms by (auto simp: life_inv_def idle_def active_def owns_def owned_def thread_memory_def)

lemma thread_memory_same:
  "same_heap w w' \<Longrightarrow> thread_memory pf (rx\<lparr>r_running := b, r_sock := s\<rparr>) w' = thread_memory pf rx w"
  by (simp add: thread_memory_def same_heap_contents)

text \<open>The calls to the system a stop makes.\<close>

definition stop_events :: "platform \<Rightarrow> st2110rx \<Rightarrow> os_event list" where
  "stop_events pf rx =
     (let close = [Sys_drop_membership (r_sock rx) (r_mreq rx), Sys_close (r_sock rx)]; t = the (r_thread rx)
      in if idle rx then []
         else case pf of
                POSIX \<Rightarrow> close @ [Sys_thread_join t]
              | WIN32 \<Rightarrow> [Sys_iocp_wake (the (r_iocp rx))] @ close
                  @ [Sys_thread_wait t, Sys_close_thread t, Sys_close_handle (the (r_iocp rx)), Sys_cleanup])"

text \<open>The first half of a stop: from the wakeup to the join.\<close>

lemma stop_joins:
  assumes "life_inv pf R rx w"
  obtains w2 w3 where "close_socket (rx\<lparr>r_running := False\<rparr>) (wake_thread pf rx w)
      = (rx\<lparr>r_running := False, r_sock := RX_INVALID_SOCKET\<rparr>, w2)"
    and "join_thread pf (rx\<lparr>r_running := False, r_sock := RX_INVALID_SOCKET\<rparr>) w2
      = Some (rx\<lparr>r_running := False, r_sock := RX_INVALID_SOCKET, r_thread_started := False\<rparr>, w3)"
    and "holding w3 (iocp_held rx + ((if r_sockets_initialized rx then startup_held pf else {#}) + R))"
    and "same_heap w w3"
proof -
  let ?S = "(if r_sockets_initialized rx then startup_held pf else {#}) + R"
  let ?rx1 = "rx\<lparr>r_running := False\<rparr>" and ?w1 = "wake_thread pf rx w"
  have R: "holding w (joined_socket (r_sock ?rx1) (r_mreq ?rx1) + (thread_held rx + (iocp_held rx + ?S)))"
    using assms by (simp add: life_inv_def held_def ac_simps)
  note w1 = wake_thread_holding [OF R, of rx pf]
  have "holding ?w1 (joined_socket (r_sock ?rx1) (r_mreq ?rx1) + (thread_held rx + (iocp_held rx + ?S)))" "same_heap w ?w1"
    using w1 by (simp_all add: iocp_held_def)
  note h1 = this
  obtain w2 where w2: "close_socket ?rx1 ?w1 = (?rx1\<lparr>r_sock := RX_INVALID_SOCKET\<rparr>, w2)"
      "holding w2 (thread_held rx + (iocp_held rx + ?S))" "same_heap ?w1 w2"
    using h1(1) by (rule close_socket_holding)
  let ?rx2 = "?rx1\<lparr>r_sock := RX_INVALID_SOCKET\<rparr>"
  have "r_thread_started ?rx2 \<longrightarrow> thread_memory pf ?rx2 w2"
    using thread_memory_owned [OF assms] thread_memory_same [OF same_heap_trans [OF h1(2) w2(3)]] by simp
  then have "holding w2 (thread_held ?rx2 + (iocp_held rx + ?S))"
      "r_thread_started ?rx2 \<longrightarrow> r_thread ?rx2 \<noteq> None \<and> thread_memory pf ?rx2 w2"
    using w2(2) assms by (auto simp: thread_held_def life_inv_def idle_def active_def split: option.split)
  then obtain w3 where "join_thread pf ?rx2 w2 = Some (?rx2\<lparr>r_thread_started := False\<rparr>, w3)"
      "holding w3 (iocp_held rx + ?S)" "same_heap w2 w3"
    by (rule join_thread_holding)
  then show ?thesis
    using that [OF _ _ _ same_heap_trans [OF same_heap_trans [OF h1(2) w2(3)]]] w2(1) by simp
qed

text \<open>Freeing a block, or nothing, keeps a heap well-formed.\<close>

lemma heap_wf_freed:
  assumes "heap_wf w" and "next_blk w' = next_blk w" and "\<And>p. contents w' p = (if p = q then None else contents w p)"
  shows "heap_wf w'"
proof -
  have "blocks w' a \<noteq> None \<longrightarrow> blocks w a \<noteq> None" for a
    using assms(3) [of "Some a"] by (auto simp: contents_def split: if_splits)
  then show ?thesis using assms(1,2) by (auto simp: heap_wf_def)
qed

lemma stop_outcomes:
  assumes "life_inv pf R rx w"
  shows "\<exists>w'. st2110rx_stop pf (Some rx) w = Some (Some (shut rx), w') \<and> holding w' R \<and> heap_wf w'
    \<and> world.more w' = world.more w
    \<and> (\<forall>p. contents w' p = (if p = r_iocp_buffers rx then None else contents w p))"
proof (rule stop_joins [OF assms])
  let ?S = "(if r_sockets_initialized rx then startup_held pf else {#}) + R"
  let ?rx1 = "rx\<lparr>r_running := False\<rparr>" and ?w1 = "wake_thread pf rx w"
  let ?rx2 = "rx\<lparr>r_running := False, r_sock := RX_INVALID_SOCKET\<rparr>"
  let ?rx3 = "rx\<lparr>r_running := False, r_sock := RX_INVALID_SOCKET, r_thread_started := False\<rparr>"
  fix w2 w3
  assume w2: "close_socket ?rx1 ?w1 = (?rx2, w2)" and w3: "join_thread pf ?rx2 w2 = Some (?rx3, w3)"
    and h3: "holding w3 (iocp_held rx + ?S)" and s3: "same_heap w w3"
  have kept3: "contents w3 p = contents w p" for p using same_heap_contents [OF s3] by simp
  have h: "holding w3 (iocp_held ?rx3 + ?S)" using h3 by (simp add: iocp_held_def)
  have b: "r_iocp_buffers ?rx3 \<noteq> None \<longrightarrow> contents w3 (r_iocp_buffers ?rx3) \<noteq> None"
    "pf = POSIX \<longrightarrow> r_iocp ?rx3 = None \<and> r_iocp_buffers ?rx3 = None"
    using assms kept3 by (auto simp: life_inv_def owns_def owned_def idle_def active_def)
  obtain w4 where w4: "close_iocp pf ?rx3 w3 = Some (?rx3\<lparr>r_iocp := None, r_iocp_buffers := None\<rparr>, w4)"
      "holding w4 ?S" "next_blk w4 = next_blk w3" "world.more w4 = world.more w3"
      "\<And>p. contents w4 p = (if p = r_iocp_buffers ?rx3 then None else contents w3 p)"
    by (rule close_iocp_obtain [OF h b]) (rule that)
  let ?rx4 = "?rx3\<lparr>r_iocp := None, r_iocp_buffers := None\<rparr>"
  have "holding w4 ((if r_sockets_initialized ?rx4 then startup_held pf else {#}) + R)" using w4(2) by simp
  then obtain w5 where w5: "cleanup_sockets pf ?rx4 w4 = (?rx4\<lparr>r_sockets_initialized := False\<rparr>, w5)"
      "holding w5 R" "same_heap w4 w5"
    by (rule cleanup_sockets_holding)
  have close: "(if r_sock ?rx1 \<noteq> RX_INVALID_SOCKET then close_socket ?rx1 w' else (?rx1, w')) = close_socket ?rx1 w'"
    "wake_thread pf ?rx1 w' = wake_thread pf rx w'" for w' :: "'a world_scheme"
    by (cases rx, simp add: close_socket_def rx_udp_destroy_def) (simp add: wake_thread_def split: platform.split)
  have fin: "?rx4\<lparr>r_sockets_initialized := False\<rparr> = shut rx" by (cases rx) (simp add: shut_def)
  have "st2110rx_stop pf (Some rx) w = Some (Some (shut rx), w5)"
    by (simp only: st2110rx_stop_def option.case Let_def close(2) trans [OF close(1) w2] prod.case w3 w4(1) w5(1) Option.bind.simps fin)
  moreover have kept: "contents w5 p = (if p = r_iocp_buffers rx then None else contents w p)" for p
    using same_heap_contents [OF w5(3)] w4(5) [of p] kept3 by simp
  moreover have "next_blk w5 = next_blk w" "world.more w5 = world.more w"
    using s3 w4(3,4) w5(3) by (simp_all add: same_heap_def)
  moreover have "heap_wf w5"
    using assms by (intro heap_wf_freed [OF _ calculation(3) kept]) (simp add: life_inv_def)
  ultimately show ?thesis using w5(2) by blast
qed

lemma free_blk_trace: "free_blk p w = Some w' \<Longrightarrow> trace w' = trace w" for w :: "'z world_scheme"
  by (cases p) (auto simp: free_blk_def split: option.splits if_splits)

lemma stop_trace:
  assumes "life_inv pf R rx w" and "st2110rx_stop pf (Some rx) w = Some (rx', w')"
  shows "trace w' = trace w @ stop_events pf rx"
proof (cases "idle rx")
  case True
  then show ?thesis
    using assms(2)
    by (cases pf) (auto simp: stop_events_def st2110rx_stop_def idle_def wake_thread_def join_thread_def close_iocp_def
        cleanup_sockets_def free_blk_def Let_def)
next
  case False
  then have "active pf rx" using assms(1) by (simp add: life_inv_def)
  then obtain t where "r_thread rx = Some t" "r_thread_started rx" "r_sock rx \<noteq> RX_INVALID_SOCKET" "r_sockets_initialized rx"
    by (auto simp: active_def)
  note on = this
  show ?thesis
  proof (cases pf)
    case POSIX
    then show ?thesis
      using False assms(2) on
      by (auto simp: stop_events_def st2110rx_stop_def wake_thread_def join_thread_def close_iocp_def cleanup_sockets_def
          close_socket_def rx_udp_destroy_def rx_socket_close_def rx_thread_join_def rx_socket_cleanup_def Let_def split: if_splits)
  next
    case WIN32
    then obtain q where "r_iocp rx = Some q" using \<open>active pf rx\<close> by (auto simp: active_def)
    then show ?thesis
      using False assms(2) on WIN32
      by (auto simp: stop_events_def st2110rx_stop_def wake_thread_def join_thread_def close_iocp_def cleanup_sockets_def
          close_socket_def rx_udp_destroy_def rx_socket_close_def rx_thread_join_def rx_socket_cleanup_def
          Let_def Option.bind_eq_Some_conv dest!: free_blk_trace split: if_splits)
  qed
qed

lemma stop_life_inv:
  assumes "life_inv pf R rx w" and "holding w' R" and "heap_wf w'"
    and "\<forall>p. contents w' p = (if p = r_iocp_buffers rx then None else contents w p)"
  shows "life_inv pf R (shut rx) w'"
proof -
  have o: "owned rx = owned (shut rx) @ (if r_iocp_buffers rx = None then [] else [r_iocp_buffers rx])"
    by (simp add: owned_def shut_def)
  have own: "distinct (owned rx)" "\<And>p. p \<in> set (owned rx) \<Longrightarrow> contents w p \<noteq> None"
    using assms(1) by (simp_all add: life_inv_def owns_def)
  have "contents w' p \<noteq> None" if "p \<in> set (owned (shut rx))" for p
  proof -
    have "contents w p \<noteq> None" using own(2) that o by simp
    moreover have "p \<noteq> r_iocp_buffers rx"
      using calculation own(1) that o by (cases "r_iocp_buffers rx"; cases p) (auto simp: contents_def)
    ultimately show ?thesis using assms(4) by simp
  qed
  then have "owns (shut rx) w'" using own(1) o by (simp add: owns_def)
  then show ?thesis using assms(2,3) by (simp add: life_inv_idle)
qed

text \<open>Destroying gives back every block and every resource, from any state.\<close>

lemma destroy_outcome:
  assumes "life_inv pf R rx w"
  shows "\<exists>w'. st2110rx_destroy pf (Some rx) w = Some w' \<and> holding w' R \<and> world.more w' = world.more w
    \<and> (\<forall>p. contents w' p = (if p \<in> set (owned rx) then None else contents w p)) \<and> heap_wf w'"
proof -
  obtain w1 where w1: "st2110rx_stop pf (Some rx) w = Some (Some (shut rx), w1)" "holding w1 R" "heap_wf w1"
      "world.more w1 = world.more w"
      "\<forall>p. contents w1 p = (if p = r_iocp_buffers rx then None else contents w p)"
    using stop_outcomes [OF assms] by blast
  have "life_inv pf R (shut rx) w1" by (rule stop_life_inv [OF assms w1(2,3,5)])
  then have own: "owns (shut rx) w1" by (simp add: life_inv_idle)
  obtain a b c d e where ptrs: "r_self rx = Some a" "r_pkt_buf rx = Some b" "r_convert_buf rx = Some c"
      "fill_buf (r_assembler rx) = Some d" "deliver_buf (r_assembler rx) = Some e"
    using own by (auto simp: owns_def owned_def shut_def contents_def split: option.splits)
  have diff: "distinct [a, b, c, d, e]" "distinct [e, d, c, b, a]"
    using own ptrs by (auto simp: owns_def owned_def shut_def)
  obtain A B C D E where live: "blocks w1 a = Some A" "blocks w1 b = Some B" "blocks w1 c = Some C"
      "blocks w1 d = Some D" "blocks w1 e = Some E"
    using own ptrs by (auto simp: owns_def owned_def shut_def contents_def)
  let ?w = "w1\<lparr>blocks := (blocks w1)(d := None, e := None, c := None, b := None, a := None)\<rparr>"
  have "st2110rx_destroy pf (Some rx) w = Some ?w"
    using w1(1) live ptrs diff
    by (simp add: st2110rx_destroy_def rx_assembler_free_def free_blk_def shut_def)
  moreover have "contents ?w p = (if p \<in> set (owned rx) then None else contents w p)" for p
  proof -
    have "contents ?w p = (if p \<in> {Some a, Some b, Some c, Some d, Some e} then None else contents w1 p)"
      by (cases p) (simp_all add: contents_def)
    moreover have "set (owned rx) = {Some a, Some b, Some c, Some d, Some e}
        \<union> (if r_iocp_buffers rx = None then {} else {r_iocp_buffers rx})"
      by (auto simp: owned_def ptrs)
    moreover have "contents w None = None" by (simp add: contents_def)
    ultimately show ?thesis using w1(5) [rule_format, of p] by (cases "p = r_iocp_buffers rx") auto
  qed
  moreover have "heap_wf ?w" using w1(3) by (simp add: heap_wf_def)
  ultimately show ?thesis using w1(2,4) by (intro exI [of _ ?w]) simp
qed

section \<open>A new receiver\<close>

lemma fresh_rx_simps [simp]:
  "r_self (fresh_rx c n) = Some n" "r_config (fresh_rx c n) = c" "r_pkt_buf (fresh_rx c n) = Some (n + 1)"
  "r_convert_buf (fresh_rx c n) = Some (n + 2)" "r_convert_stride (fresh_rx c n) = c_width c * 2"
  "r_stats (fresh_rx c n) = rx_stats_init" "r_iocp_buffers (fresh_rx c n) = None" "idle (fresh_rx c n)"
  "r_assembler (fresh_rx c n) = fresh_assembler (c_width c) (c_height c) (the (pgroup_of_fmt (c_input_fmt c)))
     (Some (n + 3)) (Some (n + 4))"
  by (simp_all add: fresh_rx_def zero_rx_def idle_def)

lemma owned_fresh: "owned (fresh_rx c n) = [Some n, Some (n + 1), Some (n + 2), Some (n + 3), Some (n + 4)]"
  by (simp add: owned_def fresh_assembler_def)

lemma fresh_rx_contents:
  assumes "blocks h' = fresh_rx_blocks env c h"
  shows "contents h' (Some (next_blk h + 2)) = Some (map (junk h (next_blk h + 2)) [0..<unat (c_width c * 2) * unat (c_height c)])"
    and "contents h' (Some (next_blk h + 3)) = Some (replicate (picture_size c) 0)"
    and "contents h' (Some (next_blk h + 4)) = Some (replicate (picture_size c) 0)"
    and "a \<notin> {next_blk h ..< next_blk h + 5} \<Longrightarrow> contents h' (Some a) = contents h (Some a)"
    and "p \<in> set (owned (fresh_rx c (next_blk h))) \<Longrightarrow> contents h' p \<noteq> None"
    and "map_option length (contents h' (Some (next_blk h + 1))) = Some (r_pkt_buf_size (fresh_rx c (next_blk h)))"
  using assms unfolding owned_fresh by (auto simp: contents_def fresh_rx_blocks_def Let_def)

lemma world_more_eq: "heap.more w' = heap.more w \<Longrightarrow> trace w' = trace w \<and> world.more w' = world.more w"
  by (cases w; cases w') simp

lemma fresh_life_inv:
  fixes w w' :: "'z world_scheme"
  assumes "blocks w' = fresh_rx_blocks env c w" and "heap_wf w'" and "heap.more w' = heap.more w" and "holding w R"
  shows "life_inv pf R (fresh_rx c (next_blk w)) w'"
proof -
  have "holding w' R" using world_more_eq [OF assms(3)] assms(4) by (simp add: holding_def)
  moreover have "owns (fresh_rx c (next_blk w)) w'"
    using fresh_rx_contents(5) [OF assms(1)] by (simp add: owns_def owned_fresh)
  ultimately show ?thesis using assms(2) by (simp add: life_inv_idle)
qed

lemma fresh_packet_inv:
  assumes "valid_config c" and "blocks h' = fresh_rx_blocks env c h" and "ok h'"
    and "Some (next_blk h + 3) \<notin> own" and "Some (next_blk h + 4) \<notin> own"
    and "\<And>f. accepts f"
  shows "packet_inv ok own accepts (fresh_rx c (next_blk h)) h'"
    and "asm_abs (r_assembler (fresh_rx c (next_blk h))) h' = spec_init (picture_size c)"
proof -
  let ?rx = "fresh_rx c (next_blk h)"
  have sup: "supported (c_width c) (c_height c) (c_input_fmt c)" using assms(1) by (simp add: valid_config_def)
  obtain pg where pg: "pgroup_of_fmt (c_input_fmt c) = Some pg" using pgroup_of_fmt_supported [OF sup] by blast
  note blk = fresh_rx_contents [OF assms(2)]
  have a: "asm_inv (r_assembler ?rx) h'" and ab: "asm_abs (r_assembler ?rx) h' = spec_init (picture_size c)"
    using fresh_assembler_inv [OF sup pg, of "Some (next_blk h + 3)" "Some (next_blk h + 4)" h'] blk(2,3)
    by (simp_all add: pg picture_size_def)
  have "fits ?rx (frame_of b (c_input_fmt c) ts)" if "layout_of b = layout_of (r_assembler ?rx)" for b ts
    using layout_of_eqD [OF that] sup pg
    by (auto simp: fits_def supported_def fresh_assembler_def pgroup_of_fmt_def pgroup_defs)
  moreover have "convert_ready ?rx h'" using blk(1) by (simp add: convert_ready_def)
  ultimately show "packet_inv ok own accepts ?rx h'"
    using a assms(3-6) by (simp add: packet_inv_def sink_inv_def) (simp add: fresh_assembler_def)
  show "asm_abs (r_assembler ?rx) h' = spec_init (picture_size c)" by (fact ab)
qed

text \<open>Starting and stopping keep what packet processing needs.\<close>

lemma packet_inv_same_core:
  assumes "packet_inv ok own accepts rx h" and "same_core rx rx'" and "ok' h'"
    and "\<And>p. p \<in> {r_convert_buf rx, fill_buf (r_assembler rx), deliver_buf (r_assembler rx)} \<Longrightarrow> contents h' p = contents h p"
  shows "packet_inv ok' own accepts rx' h'"
    and "asm_abs (r_assembler rx') h' = asm_abs (r_assembler rx) h"
proof -
  have core: "r_config rx' = r_config rx" "r_assembler rx' = r_assembler rx" "r_convert_buf rx' = r_convert_buf rx"
      "r_convert_stride rx' = r_convert_stride rx"
    using assms(2) by (simp_all add: same_core_def)
  have "fits rx' = fits rx" "out_frame rx' = out_frame rx"
    by (simp_all add: fun_eq_iff fits_def out_frame_def converts_def core)
  then show "packet_inv ok' own accepts rx' h'"
    using assms(1,3,4) core
    by (simp add: packet_inv_def sink_inv_def asm_inv_def asm_buffers_def convert_ready_def)
  show "asm_abs (r_assembler rx') h' = asm_abs (r_assembler rx) h"
    using assms(4) core by (simp add: asm_abs_def)
qed

text \<open>On POSIX a start allocates nothing.\<close>

lemma start_posix_memory:
  assumes "st2110rx_start env POSIX (Some rx) w = Some (rc, rx', w')"
  shows "same_heap w w'"
proof -
  have init: "same_heap v w1" if "rx_socket_init env POSIX v = (e, w1)" for v w1 :: "'a world_scheme" and e
    using that by (auto simp: rx_socket_init_def)
  have thread: "same_heap v w1" if "rx_thread_create env v = (e, t, w1)" for v w1 :: "'a world_scheme" and e t
    using that by (auto simp: rx_thread_create_def Let_def same_heap_def)
  have launch: "same_heap v w1" if "launch_thread env POSIX q v = Some (e, r, w1)" for v w1 :: "'a world_scheme" and e q r
    using that
    by (auto simp: launch_thread_def Let_def close_iocp_def close_socket_def cleanup_sockets_def
        dest!: thread split: prod.splits if_splits)
  obtain e w1 where i: "rx_socket_init env POSIX w = (e, w1)" by fastforce
  obtain s m w2 where c: "rx_udp_create env (r_config rx) (r_mreq rx) w1 = (s, m, w2)"
    by (metis prod_cases3)
  note trans = same_heap_trans [OF init [OF i] same_heap_udp_create [OF c]]
  show ?thesis
    using assms init [OF i] trans
    by (auto simp: st2110rx_start_def i c Let_def open_iocp_def cleanup_sockets_def
        intro: same_heap_trans [OF trans launch] split: if_splits bind_splits)
qed

end
