(* ===== verification/Rx_Core_Loop.thy ===== *)
theory Rx_Core_Loop
  imports Rx_Core_Life Rx_Assembler_Frames
begin

text \<open>
  The two receive loops of \<open>rx_core.c\<close>: \<open>recvfrom\<close> into the packet buffer, and batches of
  completions on a pool of posted buffers. The schedule (what each load of \<open>running\<close> and
  each call returned) is an argument; a loop that has not seen the stop flag when the
  schedule ends is still running.
\<close>

section \<open>The code\<close>

datatype recv_answer = Recv_none | Recv_bytes "byte list"    \<comment> \<open>\<open>n <= 0\<close>, or a datagram\<close>

record recv_turn =
  t_running :: bool           \<comment> \<open>the load in the loop condition\<close>
  t_answer :: recv_answer
  t_running2 :: bool          \<comment> \<open>the load after a failed receive\<close>
  t_now :: u64                \<comment> \<open>the clock when the packet is processed\<close>

text \<open>\<open>recvfrom\<close> truncates a datagram to the size of the buffer.\<close>

fun rx_receiver_loop ::
    "'z user_cb \<Rightarrow> recv_turn list \<Rightarrow> st2110rx \<Rightarrow> 'z heap_scheme \<Rightarrow> (bool \<times> st2110rx \<times> 'z heap_scheme) option" where
  "rx_receiver_loop user_cb [] rx h = Some (False, rx, h)"
| "rx_receiver_loop user_cb (t # ts) rx h =
     (if \<not> t_running t then Some (True, rx, h)
      else
        let bs = (case t_answer t of Recv_none \<Rightarrow> [] | Recv_bytes bs \<Rightarrow> take (r_pkt_buf_size rx) bs)
        in if bs = [] then
             if \<not> t_running2 t then Some (True, rx, h) else rx_receiver_loop user_cb ts rx h
           else
             do { h \<leftarrow> store h (r_pkt_buf rx) 0 bs;
                  buf \<leftarrow> contents h (r_pkt_buf rx);
                  pkt \<leftarrow> rd_range buf 0 (length bs);
                  (rx, h) \<leftarrow> rx_process_packet user_cb (t_now t) pkt rx h;
                  rx_receiver_loop user_cb ts rx h })"

section \<open>Streams in parts\<close>

lemma decode_all_append: "decode_all l (xs @ ys) = decode_all l xs @ decode_all l ys"
  by (induction xs) (simp_all split: option.split)

lemma gap_total_append:
  "gap_total s (ds @ es) = gap_total s ds + gap_total (snd (spec_run l fmt ds s)) es"
proof (induction ds arbitrary: s)
  case (Cons d ds)
  then show ?case
    by (simp add: gap_total_step [of s d _ l fmt] add.assoc Let_def del: gap_total.simps(2) split: prod.split)
qed simp

lemma stream_append:
  assumes "asm_abs (r_assembler rx') h' = stream_state rx xs h"
    and "layout_of (r_assembler rx') = layout_of (r_assembler rx)" and "r_config rx' = r_config rx"
  shows "stream_frames rx (xs @ ys) h = stream_frames rx xs h @ stream_frames rx' ys h'"
    and "stream_state rx (xs @ ys) h = stream_state rx' ys h'"
    and "stream_lost rx (xs @ ys) h = stream_lost rx xs h + stream_lost rx' ys h'"
  using assms
  by (simp_all add: stream_frames_def stream_state_def stream_lost_def decode_all_append spec_run_append Let_def
      gap_total_append [of _ _ _ "layout_of (r_assembler rx)" "c_input_fmt (r_config rx)"] split: prod.split)

lemma received_trans:
  assumes "received ok own accepts seen_by observe B rx h xs rx1 h1"
    and "received ok own accepts seen_by observe B rx1 h1 ys rx2 h2"
  shows "received ok own accepts seen_by observe B rx h (xs @ ys) rx2 h2"
proof -
  obtain a s where 1: "rx1 = rx\<lparr>r_assembler := a, r_stats := s\<rparr>" "layout_of a = layout_of (r_assembler rx)"
      "{fill_buf a, deliver_buf a} = {fill_buf (r_assembler rx), deliver_buf (r_assembler rx)}"
    using assms(1) by (auto simp: received_def)
  have "asm_abs (r_assembler rx1) h1 = stream_state rx xs h" "layout_of (r_assembler rx1) = layout_of (r_assembler rx)"
    "r_config rx1 = r_config rx"
    using assms(1) 1 by (simp_all add: received_def)
  note app = stream_append [OF this]
  have "\<exists>a' s'. rx2 = rx\<lparr>r_assembler := a', r_stats := s'\<rparr> \<and> layout_of a' = layout_of (r_assembler rx)
      \<and> {fill_buf a', deliver_buf a'} = {fill_buf (r_assembler rx), deliver_buf (r_assembler rx)}"
    using assms(2) 1 by (auto simp: received_def)
  then show ?thesis
    using assms app 1 by (auto simp: received_def add.assoc)
qed

section \<open>Blocks a packet leaves alone\<close>

text \<open>
  A block outside \<open>own\<close> can be pinned: with its contents as part of \<open>ok\<close> and the block as
  part of \<open>own\<close>, the contract still holds, so no packet changes it.
\<close>

context frame_log
begin

lemma pinned:
  assumes "q \<notin> own"
  shows "frame_log cb (\<lambda>h. ok h \<and> contents h q = X) (insert q own) accepts log observe"
proof (unfold_locales, goal_cases)
  case (1 h f)
  then show ?case using sink_total by auto
next
  case (2 h f h')
  then show ?case using sink_ok sink_frame assms by auto
next
  case (3 h f h' p)
  then show ?case using sink_frame by auto
next
  case (4 h p i ys h')
  then show ?case using sink_store [of h p] heap_mem.poke_other [of h p i ys h' q] by auto
next
  case (5 h f bs h')
  then show ?case using log_cb by auto
next
  case (6 p h i ys h')
  then show ?case using log_store by auto
qed

end

lemma client_pinned:
  assumes "receiver_client cb ok own accepts seen_by observe rx" and "q \<notin> own" and "q \<noteq> r_convert_buf rx"
  shows "receiver_client cb (\<lambda>h. ok h \<and> contents h q = X) (insert q own) accepts seen_by observe rx"
  using assms by (simp add: receiver_client_def receiver_client_axioms_def frame_log.pinned)

lemma packet_inv_pinned:
  assumes "packet_inv ok own accepts rx h" and "q \<notin> {r_convert_buf rx, fill_buf (r_assembler rx), deliver_buf (r_assembler rx)}"
  shows "packet_inv (\<lambda>g. ok g \<and> contents g q = contents h q) (insert q own) accepts rx h"
  using assms by (auto simp: packet_inv_def sink_inv_def)

lemma receive_keeps:
  assumes client: "\<And>s. receiver_client (user_cb s) ok own accepts seen_by observe rx"
    and B: "47721858845 \<le> B" "B < 2 ^ 53"
    and inv: "packet_inv ok own accepts rx h" and st: "stats_within B (r_stats rx)"
    and clock: "has_prev (r_stats rx) \<longrightarrow> last_arrival_us (r_stats rx) = t0" "steady_clock t0 B (map fst es)"
    and q: "q \<notin> own" "q \<notin> {r_convert_buf rx, fill_buf (r_assembler rx), deliver_buf (r_assembler rx)}"
    and run: "receive user_cb es rx h = Some (rx', h')"
  shows "contents h' q = contents h q"
proof -
  have "receiver_client (user_cb s) (\<lambda>g. ok g \<and> contents g q = contents h q) (insert q own) accepts seen_by observe rx" for s
    using client q by (intro client_pinned) simp_all
  from receive_spec [where user_cb = user_cb, OF this B packet_inv_pinned [OF inv q(2)] st clock]
  have "packet_inv (\<lambda>g. ok g \<and> contents g q = contents h q) (insert q own) accepts rx' h'"
    unfolding received_def run by blast
  then show ?thesis by (simp add: packet_inv_def sink_inv_def)
qed

section \<open>What the loop does\<close>

fun loop_input :: "nat \<Rightarrow> recv_turn list \<Rightarrow> (u64 \<times> byte list) list" where
  "loop_input cap [] = []"
| "loop_input cap (t # ts) =
     (if \<not> t_running t then []
      else let bs = (case t_answer t of Recv_none \<Rightarrow> [] | Recv_bytes bs \<Rightarrow> take cap bs)
           in if bs = [] then if \<not> t_running2 t then [] else loop_input cap ts
              else (t_now t, bs) # loop_input cap ts)"

fun loop_exits :: "nat \<Rightarrow> recv_turn list \<Rightarrow> bool" where
  "loop_exits cap [] = False"
| "loop_exits cap (t # ts) =
     (\<not> t_running t \<or>
      (let bs = (case t_answer t of Recv_none \<Rightarrow> [] | Recv_bytes bs \<Rightarrow> take cap bs)
       in if bs = [] then \<not> t_running2 t \<or> loop_exits cap ts else loop_exits cap ts))"

definition pkt_ready :: "ptr set \<Rightarrow> st2110rx \<Rightarrow> 'z heap_scheme \<Rightarrow> bool" where
  "pkt_ready own rx h \<longleftrightarrow> map_option length (contents h (r_pkt_buf rx)) = Some (r_pkt_buf_size rx)
     \<and> r_pkt_buf rx \<notin> own
     \<and> r_pkt_buf rx \<notin> {r_convert_buf rx, fill_buf (r_assembler rx), deliver_buf (r_assembler rx)}"

text \<open>A received datagram is what the packet buffer then holds.\<close>

lemma recv_into:
  assumes "pkt_ready own rx h" and "length bs \<le> r_pkt_buf_size rx"
  obtains h1 buf where "store h (r_pkt_buf rx) 0 bs = Some h1" and "contents h1 (r_pkt_buf rx) = Some buf"
    and "length buf = r_pkt_buf_size rx" and "rd_range buf 0 (length bs) = Some bs"
    and "\<And>q. q \<noteq> r_pkt_buf rx \<Longrightarrow> contents h1 q = contents h q"
proof -
  obtain b where b: "contents h (r_pkt_buf rx) = Some b" "length b = r_pkt_buf_size rx"
    using assms(1) by (auto simp: pkt_ready_def)
  then obtain h1 where h1: "store h (r_pkt_buf rx) 0 bs = Some h1"
      "contents h1 (r_pkt_buf rx) = Some (blit b 0 bs)" "\<And>q. q \<noteq> r_pkt_buf rx \<Longrightarrow> contents h1 q = contents h q"
    using heap_mem.poke_obtain [of h "r_pkt_buf rx" b 0 bs] assms(2) by auto
  moreover have "rd_range (blit b 0 bs) 0 (length bs) = Some bs"
    using b(2) assms(2) by (simp add: rd_range_Some length_blit) (simp add: blit_def)
  ultimately show ?thesis using that b(2) assms(2) by (simp add: length_blit)
qed

lemma received_same:
  assumes "received ok own accepts seen_by observe B rx h1 pkts rx' h'"
    and "seen_by h1 = seen_by h" and "asm_abs (r_assembler rx) h1 = asm_abs (r_assembler rx) h"
  shows "received ok own accepts seen_by observe B rx h pkts rx' h'"
  using assms by (simp add: received_def stream_frames_def stream_lost_def stream_state_def)

lemma received_refl:
  assumes "packet_inv ok own accepts rx h" and "stats_within B (r_stats rx)"
  shows "received ok own accepts seen_by observe B rx h [] rx h"
proof -
  have "rx = rx\<lparr>r_assembler := r_assembler rx, r_stats := r_stats rx\<rparr>" by (cases rx) simp
  then have "\<exists>a s. rx = rx\<lparr>r_assembler := a, r_stats := s\<rparr> \<and> layout_of a = layout_of (r_assembler rx)
      \<and> {fill_buf a, deliver_buf a} = {fill_buf (r_assembler rx), deliver_buf (r_assembler rx)}" by blast
  then show ?thesis
    using assms by (simp add: received_def stream_frames_def stream_lost_def stream_state_def)
qed

lemma process_last_arrival:
  assumes "rx_process_packet user_cb now_us pkt rx h = Some (rx', h')"
  shows "last_arrival_us (r_stats rx') = now_us"
proof -
  have "last_arrival_us st = now_us" if "rx_stats_packet now_us ts s = Some st" for ts s st
    using that by (auto simp: rx_stats_packet_eq stats_step_def split: if_splits)
  moreover obtain ts st n a lost where st: "rx_stats_packet now_us ts (r_stats rx) = Some st"
      and rx': "rx' = (let rx = rx\<lparr>r_stats := st, r_assembler := a\<rparr>;
          rx = (case lost of None \<Rightarrow> rx
                | Some n \<Rightarrow> if n \<noteq> 0 then rx\<lparr>r_stats := rx_stats_lost n (r_stats rx)\<rparr> else rx)
        in if n > (0 :: nat) then rx\<lparr>r_stats := rx_stats_frame (delivered_incomplete a \<noteq> 0) (r_stats rx)\<rparr> else rx)"
    using assms by (auto simp: rx_process_packet_def Let_def Option.bind_eq_Some_conv)
  ultimately show ?thesis
    by (cases lost) (simp_all add: rx_stats_lost_def rx_stats_frame_def Let_def)
qed

text \<open>The parts of a receiver that \<open>pkt_ready\<close> reads.\<close>

lemma received_core:
  assumes "received ok own accepts seen_by observe B rx h pkts rx' h'"
  shows "r_config rx' = r_config rx" "r_pkt_buf rx' = r_pkt_buf rx" "r_pkt_buf_size rx' = r_pkt_buf_size rx"
    "r_convert_buf rx' = r_convert_buf rx"
    "{fill_buf (r_assembler rx'), deliver_buf (r_assembler rx')} = {fill_buf (r_assembler rx), deliver_buf (r_assembler rx)}"
    "receiver_client cb ok own accepts seen_by observe rx' = receiver_client cb ok own accepts seen_by observe rx"
proof -
  obtain a s where rx': "rx' = rx\<lparr>r_assembler := a, r_stats := s\<rparr>"
      "{fill_buf a, deliver_buf a} = {fill_buf (r_assembler rx), deliver_buf (r_assembler rx)}"
    using assms unfolding received_def by blast
  then show "{fill_buf (r_assembler rx'), deliver_buf (r_assembler rx')} = {fill_buf (r_assembler rx), deliver_buf (r_assembler rx)}"
    by simp
  show "r_config rx' = r_config rx" "r_pkt_buf rx' = r_pkt_buf rx" "r_pkt_buf_size rx' = r_pkt_buf_size rx"
    "r_convert_buf rx' = r_convert_buf rx"
    "receiver_client cb ok own accepts seen_by observe rx' = receiver_client cb ok own accepts seen_by observe rx"
    by (simp_all add: rx'(1) receiver_client_cong)
qed

lemma received_pkt_ready:
  assumes "received ok own accepts seen_by observe B rx h pkts rx' h'" and "pkt_ready own rx h"
    and "map_option length (contents h' (r_pkt_buf rx)) = Some (r_pkt_buf_size rx)"
  shows "pkt_ready own rx' h'"
proof -
  have bufs: "{r_convert_buf rx', fill_buf (r_assembler rx'), deliver_buf (r_assembler rx')}
      = {r_convert_buf rx, fill_buf (r_assembler rx), deliver_buf (r_assembler rx)}"
    by (simp only: received_core(4,5) [OF assms(1)])
  show ?thesis
    unfolding pkt_ready_def bufs received_core(2,3) [OF assms(1)]
    using assms(2,3) unfolding pkt_ready_def by (intro conjI) (elim conjE, assumption)+
qed

text \<open>One datagram: into the buffer, and through the receiver.\<close>

lemma recv_step:
  assumes client: "\<And>s. receiver_client (user_cb s) ok own accepts seen_by observe rx"
    and B: "47721858845 \<le> B" "B < 2 ^ 53"
    and inv: "packet_inv ok own accepts rx h" and st: "stats_within B (r_stats rx)" and pkt: "pkt_ready own rx h"
    and bs: "length bs \<le> r_pkt_buf_size rx"
    and clock: "has_prev (r_stats rx) \<longrightarrow> last_arrival_us (r_stats rx) = t0" "steady_clock t0 B [now_us]"
  obtains h1 buf rx' h' where "store h (r_pkt_buf rx) 0 bs = Some h1" and "contents h1 (r_pkt_buf rx) = Some buf"
    and "rd_range buf 0 (length bs) = Some bs" and "rx_process_packet user_cb now_us bs rx h1 = Some (rx', h')"
    and "received ok own accepts seen_by observe B rx h [bs] rx' h'" and "pkt_ready own rx' h'"
    and "last_arrival_us (r_stats rx') = now_us"
proof -
  have priv: "r_pkt_buf rx \<notin> own"
    "r_pkt_buf rx \<notin> {r_convert_buf rx, fill_buf (r_assembler rx), deliver_buf (r_assembler rx)}"
    using pkt by (simp_all add: pkt_ready_def)
  obtain h1 buf where h1: "store h (r_pkt_buf rx) 0 bs = Some h1" "contents h1 (r_pkt_buf rx) = Some buf"
      "length buf = r_pkt_buf_size rx" "rd_range buf 0 (length bs) = Some bs"
      "\<And>q. q \<noteq> r_pkt_buf rx \<Longrightarrow> contents h1 q = contents h q"
    by (rule recv_into [OF pkt bs], rule that)
  have log: "frame_log (user_cb s) ok own accepts seen_by observe" for s
    using client by (simp add: receiver_client_def)
  have ok1: "ok h1"
    using frame_sink.sink_store [OF frame_log.axioms(1) [OF log] _ priv(1) h1(1)] inv
    by (simp add: packet_inv_def sink_inv_def)
  have seen1: "seen_by h1 = seen_by h" by (rule frame_log.log_store [OF log priv(1) h1(1)])
  have "contents h1 p = contents h p"
    if "p \<in> {r_convert_buf rx, fill_buf (r_assembler rx), deliver_buf (r_assembler rx)}" for p
    using h1(5) that priv(2) by metis
  note keep = packet_inv_same_core [where ok' = ok and rx' = rx, OF inv _ ok1 this, simplified same_core_def, simplified]
  have one: "steady_clock t0 B (map fst [(now_us, bs)])" using clock(2) by simp
  obtain rx' h' where r: "receive user_cb [(now_us, bs)] rx h1 = Some (rx', h')"
      "received ok own accepts seen_by observe B rx h1 (map snd [(now_us, bs)]) rx' h'"
    using receive_spec [where user_cb = user_cb, OF client B keep(1) st clock(1) one] by blast
  have "contents h' (r_pkt_buf rx) = contents h1 (r_pkt_buf rx)"
    by (rule receive_keeps [where user_cb = user_cb, OF client B keep(1) st clock(1) one priv r(1)])
  moreover have rec: "received ok own accepts seen_by observe B rx h [bs] rx' h'"
    using r(2) received_same [OF _ seen1 keep(2)] by simp
  ultimately have "pkt_ready own rx' h'"
    using received_pkt_ready [OF rec pkt] h1(2,3) by simp
  moreover have "rx_process_packet user_cb now_us bs rx h1 = Some (rx', h')"
    using r(1) by (auto split: bind_splits)
  ultimately show ?thesis using that h1(1,2,4) rec process_last_arrival by blast
qed

text \<open>
  The loop never reads or writes out of bounds, processes exactly the datagrams it received
  before it saw the stop flag (cut to the buffer), and returns once it saw the flag.
\<close>

lemma steady_clock_Cons: "steady_clock t0 B (t # ts) \<longleftrightarrow> steady_clock t0 B [t] \<and> steady_clock t B ts"
  by simp

lemma rx_receiver_loop_spec:
  assumes client: "\<And>s. receiver_client (user_cb s) ok own accepts seen_by observe rx"
    and B: "47721858845 \<le> B" "B < 2 ^ 53"
    and inv: "packet_inv ok own accepts rx h" and st: "stats_within B (r_stats rx)" and pkt: "pkt_ready own rx h"
    and clock: "has_prev (r_stats rx) \<longrightarrow> last_arrival_us (r_stats rx) = t0"
      "steady_clock t0 B (map fst (loop_input (r_pkt_buf_size rx) ts))"
  shows "\<exists>rx' h'. rx_receiver_loop user_cb ts rx h = Some (loop_exits (r_pkt_buf_size rx) ts, rx', h')
    \<and> received ok own accepts seen_by observe B rx h (map snd (loop_input (r_pkt_buf_size rx) ts)) rx' h'
    \<and> pkt_ready own rx' h'"
  using client inv st pkt clock
proof (induction ts arbitrary: rx h t0)
  case Nil
  then show ?case by (simp add: received_refl)
next
  case (Cons t ts)
  let ?bs = "case t_answer t of Recv_none \<Rightarrow> [] | Recv_bytes bs \<Rightarrow> take (r_pkt_buf_size rx) bs"
  show ?case
  proof (cases "\<not> t_running t \<or> ?bs = []")
    case True
    have stop: ?thesis if "\<not> t_running t \<or> (?bs = [] \<and> \<not> t_running2 t)"
      using that Cons.prems(2-4) by (auto simp: received_refl)
    have go: ?thesis if "t_running t" "?bs = []" "t_running2 t"
      using that Cons.IH [OF Cons.prems(1-5)] Cons.prems(6) by simp
    show ?thesis using True stop go by blast
  next
    case False
    then have data: "t_running t" "?bs \<noteq> []" by simp_all
    have clk: "steady_clock t0 B [t_now t]"
      "steady_clock (t_now t) B (map fst (loop_input (r_pkt_buf_size rx) ts))"
      using Cons.prems(6) data by simp_all
    have len: "length ?bs \<le> r_pkt_buf_size rx" by (simp split: recv_answer.split)
    obtain h1 buf rx1 h2 where step: "store h (r_pkt_buf rx) 0 ?bs = Some h1" "contents h1 (r_pkt_buf rx) = Some buf"
        "rd_range buf 0 (length ?bs) = Some ?bs" "rx_process_packet user_cb (t_now t) ?bs rx h1 = Some (rx1, h2)"
        "received ok own accepts seen_by observe B rx h [?bs] rx1 h2" "pkt_ready own rx1 h2"
        "last_arrival_us (r_stats rx1) = t_now t"
      by (rule recv_step [where user_cb = user_cb, OF Cons.prems(1) B Cons.prems(2-4) len Cons.prems(5) clk(1)])
    note core = received_core [OF step(5)]
    have inv1: "packet_inv ok own accepts rx1 h2" "stats_within B (r_stats rx1)"
      using step(5) by (simp_all add: received_def)
    have client1: "receiver_client (user_cb s) ok own accepts seen_by observe rx1" for s
      using Cons.prems(1) core(6) by simp
    obtain rx' h' where rest: "rx_receiver_loop user_cb ts rx1 h2 = Some (loop_exits (r_pkt_buf_size rx) ts, rx', h')"
        "received ok own accepts seen_by observe B rx1 h2 (map snd (loop_input (r_pkt_buf_size rx) ts)) rx' h'"
        "pkt_ready own rx' h'"
      using Cons.IH [where ?t0.0 = "t_now t", OF client1 inv1 step(6)] step(7) clk(2) core(3) by auto
    have "rx_receiver_loop user_cb (t # ts) rx h = Some (loop_exits (r_pkt_buf_size rx) (t # ts), rx', h')"
      using data step(1-4) rest(1) by (simp add: Let_def)
    moreover have "map snd (loop_input (r_pkt_buf_size rx) (t # ts)) = [?bs] @ map snd (loop_input (r_pkt_buf_size rx) ts)"
      using data by simp
    ultimately show ?thesis
      using received_trans [OF step(5) rest(2)] rest(3) by (intro exI conjI) simp_all
  qed
qed

section \<open>The loop in the life of a receiver\<close>

lemma pkt_ready_pinned:
  assumes "pkt_ready own rx h" and "q \<noteq> r_pkt_buf rx"
  shows "pkt_ready (insert q own) rx h"
  using assms by (auto simp: pkt_ready_def)

lemma loop_keeps:
  assumes client: "\<And>s. receiver_client (user_cb s) ok own accepts seen_by observe rx"
    and B: "47721858845 \<le> B" "B < 2 ^ 53"
    and inv: "packet_inv ok own accepts rx h" and st: "stats_within B (r_stats rx)" and pkt: "pkt_ready own rx h"
    and clock: "has_prev (r_stats rx) \<longrightarrow> last_arrival_us (r_stats rx) = t0"
      "steady_clock t0 B (map fst (loop_input (r_pkt_buf_size rx) ts))"
    and q: "q \<notin> own" "q \<notin> {r_convert_buf rx, fill_buf (r_assembler rx), deliver_buf (r_assembler rx)}"
      "q \<noteq> r_pkt_buf rx"
    and run: "rx_receiver_loop user_cb ts rx h = Some (b, rx', h')"
  shows "contents h' q = contents h q"
proof -
  have "receiver_client (user_cb s) (\<lambda>g. ok g \<and> contents g q = contents h q) (insert q own) accepts seen_by observe rx" for s
    using client q by (intro client_pinned) simp_all
  from rx_receiver_loop_spec [where user_cb = user_cb, OF this B packet_inv_pinned [OF inv q(2)] st
      pkt_ready_pinned [OF pkt q(3)] clock]
  have "packet_inv (\<lambda>g. ok g \<and> contents g q = contents h q) (insert q own) accepts rx' h'"
    unfolding received_def run by blast
  then show ?thesis by (simp add: packet_inv_def sink_inv_def)
qed

lemma packet_inv_live:
  assumes "packet_inv ok own accepts rx h"
  shows "ok h" "contents h (fill_buf (r_assembler rx)) \<noteq> None" "contents h (deliver_buf (r_assembler rx)) \<noteq> None"
    "contents h (r_convert_buf rx) \<noteq> None"
  using assms by (auto simp: packet_inv_def sink_inv_def asm_inv_def asm_buffers_def convert_ready_def)

text \<open>
  For a callback whose invariant keeps the trace and the heap well formed, the receiver is
  still the one that was started: it can be stopped and destroyed.
\<close>

lemma received_life_inv:
  assumes life: "life_inv pf R rx w" and rec: "received ok own accepts seen_by observe B rx w pkts rx' w'"
    and pkt: "pkt_ready own rx' w'"
    and ok: "\<And>h. ok h \<Longrightarrow> heap_wf h \<and> trace h = trace w"
    and keeps: "\<And>q. q \<notin> own \<Longrightarrow> q \<notin> {r_convert_buf rx, fill_buf (r_assembler rx), deliver_buf (r_assembler rx)}
      \<Longrightarrow> q \<noteq> r_pkt_buf rx \<Longrightarrow> contents w' q = contents w q"
    and priv: "r_self rx \<notin> own" "r_iocp_buffers rx \<notin> own"
  shows "life_inv pf R rx' w'" and "set (owned rx') = set (owned rx)"
proof -
  obtain a s where rx': "rx' = rx\<lparr>r_assembler := a, r_stats := s\<rparr>"
      and bufs: "{fill_buf a, deliver_buf a} = {fill_buf (r_assembler rx), deliver_buf (r_assembler rx)}"
    using rec unfolding received_def by blast
  have inv': "packet_inv ok own accepts rx' w'" using rec by (simp add: received_def)
  note live = packet_inv_live [OF inv']
  have swap: "fill_buf a = fill_buf (r_assembler rx) \<and> deliver_buf a = deliver_buf (r_assembler rx)
      \<or> fill_buf a = deliver_buf (r_assembler rx) \<and> deliver_buf a = fill_buf (r_assembler rx)"
    using bufs by (metis doubleton_eq_iff)
  have own: "distinct (owned rx)" "\<And>p. p \<in> set (owned rx) \<Longrightarrow> contents w p \<noteq> None"
    using life by (simp_all add: life_inv_def owns_def)
  have same: "held pf rx' = held pf rx" "idle rx' = idle rx" "active pf rx' = active pf rx"
    by (simp_all add: rx' held_def thread_held_def iocp_held_def idle_def active_def split: option.split)
  show set: "set (owned rx') = set (owned rx)"
    using swap by (auto simp: owned_def rx')
  have "distinct (owned rx')" using own(1) swap by (auto simp: owned_def rx' split: if_splits)
  moreover have "contents w' (r_self rx) = contents w (r_self rx)"
    using own(1) priv(1) by (intro keeps) (auto simp: owned_def)
  moreover have "contents w' (r_iocp_buffers rx) = contents w (r_iocp_buffers rx)" if "r_iocp_buffers rx \<noteq> None"
    using own(1) priv(2) that by (intro keeps) (auto simp: owned_def)
  moreover have "contents w' (r_pkt_buf rx) \<noteq> None" using pkt by (auto simp: pkt_ready_def rx')
  ultimately have "owns rx' w'"
    using live(2-4) own(2) by (auto simp: owns_def owned_def rx')
  moreover have "holding w' (held pf rx' + R)"
    using life ok [OF live(1)] same by (simp add: life_inv_def holding_def)
  ultimately show "life_inv pf R rx' w'"
    using life ok [OF live(1)] same by (simp add: life_inv_def)
qed

end
