(* ===== verification/Rx_Core_Iocp.thy ===== *)
theory Rx_Core_Iocp
  imports Rx_Core_Loop
begin

text \<open>
  The Windows receive loop of \<open>rx_core.c\<close>: a pool of buffers posted to the kernel, and
  batches of completions taken off a completion port. The state is the set of buffers the
  kernel holds; handing it a buffer it already holds is a misuse (\<open>None\<close>). The schedule
  gives the result of every call and load. A completion carries the bytes that were
  transferred into its buffer, in place of their number: that the buffer still holds them
  when the loop comes to process it, because it is posted again only after that, is shown
  in \<open>Rx_Threads_Win\<close>, where the loop reads the buffer.
\<close>

section \<open>The code\<close>

text \<open>
  \<open>rx_iocp_post\<close>: \<open>ok\<close> is whether \<open>WSARecvFrom\<close> returned 0 or reported
  \<open>WSA_IO_PENDING\<close>. The posted length is \<open>sizeof(buf->buf)\<close>.
\<close>

definition rx_iocp_post :: "bool \<Rightarrow> nat \<Rightarrow> nat set \<Rightarrow> (int \<times> nat set) option" where
  "rx_iocp_post ok i posted =
     (if i \<ge> RX_IOCP_NUM_BUFFERS \<or> i \<in> posted then None
      else Some (if ok then (0, insert i posted) else (-1, posted)))"

text \<open>Posting every buffer once; a failure ends the thread.\<close>

fun prime_pool :: "(nat \<Rightarrow> bool) \<Rightarrow> nat list \<Rightarrow> nat set \<Rightarrow> (bool \<times> nat set) option" where
  "prime_pool ok [] posted = Some (True, posted)"
| "prime_pool ok (i # is) posted =
     do { (rc, posted) \<leftarrow> rx_iocp_post (ok i) i posted;
          if rc \<noteq> 0 then Some (False, posted) else prime_pool ok is posted }"

datatype completion = Wakeup | Completed nat "byte list"

record entry =
  e_completion :: completion
  e_now :: u64
  e_running :: bool           \<comment> \<open>the load before posting again\<close>
  e_post_ok :: bool

text \<open>The loop over a batch of completions.\<close>

fun drain_batch ::
    "'z user_cb \<Rightarrow> entry list \<Rightarrow> st2110rx \<Rightarrow> 'z heap_scheme \<Rightarrow> nat set
       \<Rightarrow> (st2110rx \<times> 'z heap_scheme \<times> nat set) option" where
  "drain_batch user_cb [] rx h posted = Some (rx, h, posted)"
| "drain_batch user_cb (e # es) rx h posted =
     (case e_completion e of
        Wakeup \<Rightarrow> drain_batch user_cb es rx h posted
      | Completed i bs \<Rightarrow>
          do { (rx, h) \<leftarrow> (if bs \<noteq> [] then rx_process_packet user_cb (e_now e) bs rx h else Some (rx, h));
               (rc, posted) \<leftarrow> (if e_running e then rx_iocp_post (e_post_ok e) i (posted - {i})
                               else Some (0, posted - {i}));
               drain_batch user_cb es rx h posted })"

record win_turn =
  wt_running :: bool
  wt_ok :: bool
  wt_running2 :: bool
  wt_entries :: "entry list"

fun turns_win32 ::
    "'z user_cb \<Rightarrow> win_turn list \<Rightarrow> st2110rx \<Rightarrow> 'z heap_scheme \<Rightarrow> nat set
       \<Rightarrow> (bool \<times> st2110rx \<times> 'z heap_scheme \<times> nat set) option" where
  "turns_win32 user_cb [] rx h posted = Some (False, rx, h, posted)"
| "turns_win32 user_cb (t # ts) rx h posted =
     (if \<not> wt_running t \<or> \<not> wt_running2 t then Some (True, rx, h, posted)
      else if \<not> wt_ok t \<or> wt_entries t = [] then turns_win32 user_cb ts rx h posted
      else do { (rx, h, posted) \<leftarrow> drain_batch user_cb (wt_entries t) rx h posted;
                turns_win32 user_cb ts rx h posted })"

definition rx_receiver_loop_win32 ::
    "'z world_ext user_cb \<Rightarrow> int \<Rightarrow> (nat \<Rightarrow> bool) \<Rightarrow> win_turn list \<Rightarrow> st2110rx \<Rightarrow> 'z world_scheme
       \<Rightarrow> (bool \<times> st2110rx \<times> 'z world_scheme \<times> nat set) option" where
  "rx_receiver_loop_win32 user_cb err ok ts rx w =
     do { (primed, posted) \<leftarrow> prime_pool ok [0..<RX_IOCP_NUM_BUFFERS] {};
          if \<not> primed
          then Some (True, rx, rx_log (r_config rx) ST2110RX_LOG_ERROR (Msg_prime_failed err) w, posted)
          else turns_win32 user_cb ts rx w posted }"

section \<open>What the kernel promises\<close>

text \<open>Only buffers it holds are completed, one completion each time they are posted.\<close>

fun entries_ok :: "entry list \<Rightarrow> nat set \<Rightarrow> nat set option" where
  "entries_ok [] posted = Some posted"
| "entries_ok (e # es) posted =
     (case e_completion e of
        Wakeup \<Rightarrow> entries_ok es posted
      | Completed i bs \<Rightarrow>
          if i \<in> posted \<and> length bs \<le> RX_IOCP_BUFFER_SIZE
          then entries_ok es (if e_running e \<and> e_post_ok e then posted else posted - {i})
          else None)"

fun kernel_run :: "win_turn list \<Rightarrow> nat set \<Rightarrow> nat set option" where
  "kernel_run [] posted = Some posted"
| "kernel_run (t # ts) posted =
     (if \<not> wt_running t \<or> \<not> wt_running2 t then Some posted
      else if \<not> wt_ok t then kernel_run ts posted
      else do { p \<leftarrow> entries_ok (wt_entries t) posted; kernel_run ts p })"

definition kernel_ok :: "win_turn list \<Rightarrow> nat set \<Rightarrow> bool" where
  "kernel_ok ts posted \<longleftrightarrow> kernel_run ts posted \<noteq> None"

section \<open>What the loop does\<close>

definition entry_input :: "entry list \<Rightarrow> (u64 \<times> byte list) list" where
  "entry_input es = List.map_filter (\<lambda>e. case e_completion e of Wakeup \<Rightarrow> None
     | Completed i bs \<Rightarrow> if bs = [] then None else Some (e_now e, bs)) es"

lemma entry_input_simps [simp]:
  "entry_input [] = []"
  "entry_input (e # es) = (case e_completion e of Wakeup \<Rightarrow> entry_input es
     | Completed i bs \<Rightarrow> if bs = [] then entry_input es else (e_now e, bs) # entry_input es)"
  by (simp_all add: entry_input_def map_filter_simps split: completion.split)

fun win32_input :: "win_turn list \<Rightarrow> (u64 \<times> byte list) list" where
  "win32_input [] = []"
| "win32_input (t # ts) = (if \<not> wt_running t \<or> \<not> wt_running2 t then []
     else (if wt_ok t then entry_input (wt_entries t) else []) @ win32_input ts)"

definition win32_exits :: "win_turn list \<Rightarrow> bool" where
  "win32_exits ts \<longleftrightarrow> (\<exists>t \<in> set ts. \<not> wt_running t \<or> \<not> wt_running2 t)"

lemma receive_append:
  "receive user_cb (xs @ ys) rx h = do { (rx, h) \<leftarrow> receive user_cb xs rx h; receive user_cb ys rx h }"
proof (induction xs arbitrary: rx h)
  case (Cons x xs)
  obtain t p where "x = (t, p)" by (cases x)
  then show ?case by (cases "rx_process_packet user_cb t p rx h") (auto simp: Cons)
qed simp

lemma entries_ok_subset: "entries_ok es posted = Some p \<Longrightarrow> p \<subseteq> posted"
  by (induction es arbitrary: posted) (auto split: completion.splits if_splits)

text \<open>A completed buffer goes back to the kernel, or stays out of the pool.\<close>

lemma repost:
  assumes "i \<in> posted" and "posted \<subseteq> {..<RX_IOCP_NUM_BUFFERS}"
  shows "(if r then rx_iocp_post ok i (posted - {i}) else Some (0, posted - {i}))
    = Some (if r \<and> \<not> ok then -1 else 0, if r \<and> ok then posted else posted - {i})"
  using assms by (auto simp: rx_iocp_post_def insert_absorb)

text \<open>
  A batch is the processing of its datagrams in order; the kernel holds afterwards what it
  promised, and no buffer is handed to it twice.
\<close>

lemma drain_batch_eq:
  assumes "entries_ok es posted = Some p" and "posted \<subseteq> {..<RX_IOCP_NUM_BUFFERS}"
  shows "drain_batch user_cb es rx h posted =
           do { (rx, h) \<leftarrow> receive user_cb (entry_input es) rx h; Some (rx, h, p) }"
  using assms
proof (induction es arbitrary: posted rx h)
  case Nil
  then show ?case by simp
next
  case (Cons e es)
  show ?case
  proof (cases "e_completion e")
    case Wakeup
    then show ?thesis using Cons by simp
  next
    case (Completed i bs)
    let ?posted = "if e_running e \<and> e_post_ok e then posted else posted - {i}"
    have i: "i \<in> posted" and ok: "entries_ok es ?posted = Some p"
      using Cons.prems(1) Completed by (auto split: if_splits)
    have sub: "?posted \<subseteq> {..<RX_IOCP_NUM_BUFFERS}" using Cons.prems(2) by auto
    have rest: "drain_batch user_cb es rx h ?posted =
        do { (rx, h) \<leftarrow> receive user_cb (entry_input es) rx h; Some (rx, h, p) }" for rx h
      using ok sub by (rule Cons.IH)
    have "drain_batch user_cb (e # es) rx h posted =
        do { (rx, h) \<leftarrow> (if bs \<noteq> [] then rx_process_packet user_cb (e_now e) bs rx h else Some (rx, h));
             drain_batch user_cb es rx h ?posted }"
      using repost [OF i Cons.prems(2), of "e_running e" "e_post_ok e"] Completed
      by (simp del: drain_batch.simps add: drain_batch.simps(2))
    then show ?thesis
      using Completed by (cases "rx_process_packet user_cb (e_now e) bs rx h") (auto simp: rest)
  qed
qed

text \<open>Priming posts all 64 buffers, each once.\<close>

lemma prime_pool_upt:
  "n \<le> RX_IOCP_NUM_BUFFERS \<Longrightarrow> (\<And>i. i < n \<Longrightarrow> ok i) \<Longrightarrow> m \<le> n \<Longrightarrow>
     prime_pool ok [m..<n] {..<m} = Some (True, {..<n})"
proof (induction "n - m" arbitrary: m)
  case 0
  then show ?case by simp
next
  case (Suc d)
  then have "m < n" by simp
  then have "rx_iocp_post (ok m) m {..<m} = Some (0, {..<Suc m})"
    using Suc.prems by (auto simp: rx_iocp_post_def lessThan_Suc)
  then show ?case using Suc \<open>m < n\<close> by (simp add: upt_conv_Cons)
qed

lemma turns_win32_eq:
  assumes "kernel_run ts posted = Some p" and "posted \<subseteq> {..<RX_IOCP_NUM_BUFFERS}"
  shows "p \<subseteq> posted \<and> turns_win32 user_cb ts rx h posted =
     do { (rx, h) \<leftarrow> receive user_cb (win32_input ts) rx h; Some (win32_exits ts, rx, h, p) }"
  using assms
proof (induction ts arbitrary: posted rx h)
  case Nil
  then show ?case by (simp add: win32_exits_def)
next
  case (Cons t ts)
  show ?case
  proof (cases "\<not> wt_running t \<or> \<not> wt_running2 t")
    case True
    then show ?thesis using Cons.prems(1) by (auto simp: win32_exits_def)
  next
    case go: False
    have exits: "win32_exits (t # ts) = win32_exits ts" using go by (simp add: win32_exits_def)
    show ?thesis
    proof (cases "wt_ok t")
      case False
      then show ?thesis using Cons.IH [of posted rx h] Cons.prems go exits by simp
    next
      case True
      then obtain q where q: "entries_ok (wt_entries t) posted = Some q" "kernel_run ts q = Some p"
        using Cons.prems(1) go by (auto simp: Option.bind_eq_Some_conv)
      note sub = entries_ok_subset [OF q(1)]
      have turn: "turns_win32 user_cb (t # ts) rx h posted =
          do { (rx, h) \<leftarrow> receive user_cb (entry_input (wt_entries t)) rx h; turns_win32 user_cb ts rx h q }"
        using go True q(1) drain_batch_eq [OF q(1) Cons.prems(2), of user_cb rx h]
        by (cases "wt_entries t = []"; cases "receive user_cb (entry_input (wt_entries t)) rx h") auto
      have rest: "p \<subseteq> q \<and> turns_win32 user_cb ts rx1 h1 q =
          do { (rx, h) \<leftarrow> receive user_cb (win32_input ts) rx1 h1; Some (win32_exits ts, rx, h, p) }" for rx1 h1
        using sub Cons.prems(2) by (intro Cons.IH [OF q(2)]) blast
      show ?thesis
        using go True turn rest sub exits
        by (cases "receive user_cb (entry_input (wt_entries t)) rx h") (auto simp: receive_append)
    qed
  qed
qed

lemma win32_loop_eq:
  assumes "\<And>i. i < RX_IOCP_NUM_BUFFERS \<Longrightarrow> ok i" and "kernel_ok ts {..<RX_IOCP_NUM_BUFFERS}"
  shows "\<exists>p \<subseteq> {..<RX_IOCP_NUM_BUFFERS}. rx_receiver_loop_win32 user_cb err ok ts rx w =
     do { (rx, w) \<leftarrow> receive user_cb (win32_input ts) rx w; Some (win32_exits ts, rx, w, p) }"
proof -
  have "prime_pool ok [0..<RX_IOCP_NUM_BUFFERS] {} = Some (True, {..<RX_IOCP_NUM_BUFFERS})"
    using prime_pool_upt [of RX_IOCP_NUM_BUFFERS ok 0] assms(1) by simp
  moreover obtain p where "kernel_run ts {..<RX_IOCP_NUM_BUFFERS} = Some p" using assms(2) by (auto simp: kernel_ok_def)
  ultimately show ?thesis
    using turns_win32_eq [of ts "{..<RX_IOCP_NUM_BUFFERS}" p user_cb rx w]
    by (auto simp add: rx_receiver_loop_win32_def)
qed

text \<open>The first failing post ends the thread; nothing tells the receiver, which stays \<open>running\<close>.\<close>

lemma prime_pool_fails:
  "i < n \<Longrightarrow> \<not> ok i \<Longrightarrow> n \<le> RX_IOCP_NUM_BUFFERS \<Longrightarrow> m \<le> i \<Longrightarrow>
     \<exists>p \<subseteq> {..<n}. prime_pool ok [m..<n] {..<m} = Some (False, p)"
proof (induction "i - m" arbitrary: m)
  case 0
  then have "m = i" by simp
  with 0 show ?case by (auto simp: upt_conv_Cons rx_iocp_post_def)
next
  case (Suc d)
  then have "m < n" "m < i" by simp_all
  show ?case
  proof (cases "ok m")
    case True
    have "rx_iocp_post (ok m) m {..<m} = Some (0, {..<Suc m})"
      using Suc.prems True \<open>m < n\<close> by (auto simp: rx_iocp_post_def lessThan_Suc)
    then show ?thesis using Suc \<open>m < n\<close> by (simp add: upt_conv_Cons)
  next
    case False
    then show ?thesis using Suc.prems \<open>m < n\<close> by (auto simp: upt_conv_Cons rx_iocp_post_def)
  qed
qed

lemma win32_loop_prime_failure:
  assumes "i < RX_IOCP_NUM_BUFFERS" and "\<not> ok i"
  shows "\<exists>p. rx_receiver_loop_win32 user_cb err ok ts rx w =
    Some (True, rx, rx_log (r_config rx) ST2110RX_LOG_ERROR (Msg_prime_failed err) w, p)"
  using prime_pool_fails [of i RX_IOCP_NUM_BUFFERS ok 0] assms by (auto simp: rx_receiver_loop_win32_def)

end
