(* ===== verification/Rx_Session.thy ===== *)
theory Rx_Session
  imports Rx_Core_Loop Rx_Core_Life
begin

text \<open>
  One session of a client of the library, whatever the client is: a receiver is created,
  started, its thread runs on some schedule, and it is destroyed. The client's frame
  callback enters through its contract only (the locale \<open>receiver_client\<close>), so that the
  command line tool and the plugin share what is proved here.
\<close>

section \<open>The frames of a session\<close>

text \<open>As the client gets them: those of the specification, in the output format.\<close>

definition session_frames :: "st2110rx_config_t \<Rightarrow> byte list list \<Rightarrow> seen_frame list" where
  "session_frames c pkts =
     (let rx = fresh_rx c 0; l = layout_of (r_assembler rx)
      in map (out_view rx) (fst (spec_run l (c_input_fmt c) (decode_all l pkts) (spec_init (picture_size c)))))"

text \<open>The state in which the receive thread starts.\<close>

definition thread_ready ::
    "platform \<Rightarrow> ('z world_scheme \<Rightarrow> bool) \<Rightarrow> resource multiset \<Rightarrow> st2110rx_config_t \<Rightarrow> nat \<Rightarrow> st2110rx \<Rightarrow> 'z world_scheme \<Rightarrow> bool" where
  "thread_ready pf ok R c n rx w \<longleftrightarrow> life_inv pf R rx w \<and> active pf rx \<and> same_core (fresh_rx c n) rx
     \<and> packet_inv ok {} (\<lambda>_. True) rx w \<and> pkt_ready {} rx w
     \<and> asm_abs (r_assembler rx) w = spec_init (picture_size c)"

lemma spec_run_format: "v \<in> set (fst (spec_run l fmt ds s)) \<Longrightarrow> s_format v = fmt"
proof (induction ds arbitrary: s)
  case (Cons d ds)
  obtain out s1 where step: "spec_step l fmt d s = (out, s1)" by fastforce
  obtain outs s2 where run: "spec_run l fmt ds s1 = (outs, s2)" by fastforce
  have "s_format v = fmt" if "v \<in> set (fst (spec_step l fmt d s))"
    using that by (auto simp: spec_step_def spec_flush_def spec_frame_def Let_def split: if_splits)
  then show ?case using Cons.prems Cons.IH [of s1] by (auto simp: step run)
qed simp

text \<open>A valid configuration has an input format that no output format drops.\<close>

lemma passes_valid: "valid_config c \<Longrightarrow> r_config rx = c \<Longrightarrow> passes rx (c_input_fmt c)"
  by (auto simp: passes_def valid_config_def supported_def)

lemma session_frames_stream:
  assumes ready: "thread_ready pf ok R c n rx w" and c: "valid_config c"
  shows "concat (map (out_views rx) (stream_frames rx pkts w)) = session_frames c pkts"
proof -
  have core: "r_config rx = c" "r_convert_stride rx = c_width c * 2"
      "layout_of (r_assembler rx) = layout_of (r_assembler (fresh_rx c 0))"
    using ready by (simp_all add: thread_ready_def same_core_def layout_of_def fresh_assembler_def)
  have frames: "stream_frames rx pkts w = fst (spec_run (layout_of (r_assembler rx)) (c_input_fmt c)
      (decode_all (layout_of (r_assembler rx)) pkts) (spec_init (picture_size c)))"
    using ready by (simp add: stream_frames_def core(1) thread_ready_def)
  have view: "out_view rx v = out_view (fresh_rx c 0) v" for v
    by (simp add: out_view_def converts_def core)
  have one: "out_views rx v = [out_view (fresh_rx c 0) v]" if "v \<in> set (stream_frames rx pkts w)" for v
  proof -
    have "s_format v = c_input_fmt c" using that unfolding frames by (rule spec_run_format)
    then show ?thesis using passes_valid [OF c core(1)] by (simp add: out_views_def view)
  qed
  have "map (out_views rx) (stream_frames rx pkts w) = map (\<lambda>v. [out_view (fresh_rx c 0) v]) (stream_frames rx pkts w)"
    by (rule map_cong [OF refl one])
  then have "concat (map (out_views rx) (stream_frames rx pkts w))
      = map (out_view (fresh_rx c 0)) (stream_frames rx pkts w)"
    by (simp only: concat_map_singleton)
  then show ?thesis
    unfolding frames core(3) session_frames_def Let_def .
qed

section \<open>From creation to the receive thread\<close>

text \<open>A system on which nothing fails, for the addresses of the configuration.\<close>

definition obliging :: "platform \<Rightarrow> os_env \<Rightarrow> st2110rx_config_t \<Rightarrow> bool" where
  "obliging pf env c \<longleftrightarrow> (\<forall>k. e_socket env k \<noteq> RX_INVALID_SOCKET) \<and> (\<forall>k. e_bind env k) \<and> (\<forall>k. e_join_group env k)
     \<and> (\<forall>k. e_thread env k \<noteq> None) \<and> interface_ip env c \<noteq> None
     \<and> (case c_multicast_addr c of None \<Rightarrow> False | Some addr \<Rightarrow> e_inet_addr env addr \<noteq> INADDR_NONE)
     \<and> (pf = WIN32 \<longrightarrow> (\<forall>k. e_startup env k) \<and> (\<forall>k. e_iocp env k \<noteq> None))"

text \<open>A receiver can be created and started: what it asks for it is given.\<close>

definition comes_up :: "platform \<Rightarrow> os_env \<Rightarrow> st2110rx_config_t \<Rightarrow> 'z heap_scheme \<Rightarrow> bool" where
  "comes_up pf env c w \<longleftrightarrow> valid_config c \<and> enough_memory w
     \<and> (pf = WIN32 \<longrightarrow> \<not> oom w (next_blk w + 5)) \<and> obliging pf env c"

lemma udp_create_obliging:
  assumes "obliging pf env c" and "rx_udp_create env c mreq w = (s, mreq', w')"
  shows "s \<noteq> RX_INVALID_SOCKET"
  using assms by (auto simp: obliging_def rx_udp_create_def join_group_def Let_def split: option.splits if_splits)

lemma start_obliging:
  assumes "obliging pf env (r_config rx)" and "\<not> r_running rx" and "pf = WIN32 \<longrightarrow> \<not> oom w (next_blk w)"
    and "st2110rx_start env pf (Some rx) w = Some (rc, rx', w')"
  shows "rc = ST2110RX_OK"
proof -
  obtain w0 where i: "rx_socket_init env pf w = (0, w0)" "oom w0 = oom w" "next_blk w0 = next_blk w"
    using assms(1) by (cases pf) (auto simp: rx_socket_init_def obliging_def Let_def)
  obtain s m w1 where u: "rx_udp_create env (r_config rx) (r_mreq rx) w0 = (s, m, w1)" by (metis prod_cases3)
  have m: "oom w1 = oom w" "next_blk w1 = next_blk w" using rx_udp_create_memory [OF u] i by simp_all
  let ?rx = "rx\<lparr>r_sockets_initialized := True, r_sock := s, r_mreq := m\<rparr>"
  have "\<exists>rx2 w2. open_iocp env pf ?rx w1 = Some (None, rx2, w2)"
  proof (cases pf)
    case WIN32
    have "e_iocp env k \<noteq> None" for k using assms(1) WIN32 by (simp add: obliging_def)
    then show ?thesis using WIN32 assms(3) m by (simp add: open_iocp_def calloc_def alloc_def Let_def del: not_None_eq)
  qed (simp add: open_iocp_def)
  then obtain rx2 w2 where o2: "open_iocp env pf ?rx w1 = Some (None, rx2, w2)" by blast
  have "\<exists>t. e_thread env (now w2) = Some t" using assms(1) by (simp add: obliging_def)
  then obtain t where "e_thread env (now w2) = Some t" ..
  then show ?thesis
    using udp_create_obliging [OF assms(1) u] assms(2,4) u i(1) o2
    by (auto simp: st2110rx_start_def launch_thread_def rx_thread_create_def Let_def)
qed

lemma stats_within_init: "0 \<le> B \<Longrightarrow> stats_within B rx_stats_init"
  by (simp add: stats_within_def stats_ok_init) (simp add: rx_stats_init_def)

lemma session_started:
  assumes c: "valid_config c" and blk: "blocks w1 = fresh_rx_blocks env c w" and wf: "heap_wf w1"
    and tr: "trace w1 = trace w" and R: "holding w R"
    and start: "st2110rx_start env pf (Some (fresh_rx c (next_blk w))) w1 = Some (rc, Some rx, w2)"
  shows "start_result pf R (fresh_rx c (next_blk w)) w1 rc rx w2"
    and "rc = ST2110RX_OK \<Longrightarrow> ok w2 \<Longrightarrow> thread_ready pf ok R c (next_blk w) rx w2"
proof -
  let ?rx = "fresh_rx c (next_blk w)"
  have "owns ?rx w1" using fresh_rx_contents(5) [OF blk] by (simp add: owns_def owned_fresh)
  then have life: "life_inv pf R ?rx w1" using wf R tr by (simp add: life_inv_idle holding_def)
  then show res: "start_result pf R ?rx w1 rc rx w2"
    using start_outcomes [OF life, of env] start by auto
  assume "rc = ST2110RX_OK" and ok2: "ok w2"
  with res have r: "life_inv pf R rx w2" "active pf rx" "same_core ?rx rx" "keeps_live w1 w2"
    by (simp_all add: start_result_def)
  have live: "contents w2 p = contents w1 p" if "p \<in> set (owned ?rx)" for p
    using r(4) fresh_rx_contents(5) [OF blk that] by (simp add: keeps_live_def)
  have inv1: "packet_inv (\<lambda>_. True) {} (\<lambda>_. True) ?rx w1"
    and abs1: "asm_abs (r_assembler ?rx) w1 = spec_init (picture_size c)"
    by (rule fresh_packet_inv [where ok = "\<lambda>_. True" and own = "{}" and accepts = "\<lambda>_. True", OF c blk]; simp)+
  have "contents w2 p = contents w1 p"
    if "p \<in> {r_convert_buf ?rx, fill_buf (r_assembler ?rx), deliver_buf (r_assembler ?rx)}" for p
    using that by (intro live) (auto simp: owned_fresh fresh_assembler_def)
  note keep = packet_inv_same_core [where ok' = ok, OF inv1 r(3) ok2 this]
  have "packet_inv ok {} (\<lambda>_. True) rx w2" "asm_abs (r_assembler rx) w2 = spec_init (picture_size c)"
    using keep abs1 by simp_all
  moreover have "pkt_ready {} rx w2"
    using r(3) live [of "Some (next_blk w + 1)"] fresh_rx_contents(6) [OF blk]
    by (simp add: pkt_ready_def same_core_def owned_fresh) (simp add: fresh_assembler_def)
  ultimately show "thread_ready pf ok R c (next_blk w) rx w2"
    using r by (simp add: thread_ready_def)
qed

text \<open>Without the blocks of the receiver, memory is what it was before its creation.\<close>

lemma session_memory:
  assumes wf: "heap_wf w" and blk: "blocks w1 = fresh_rx_blocks env c w"
    and res: "start_result pf R (fresh_rx c (next_blk w)) w1 rc rx w2"
  shows "(if p \<in> set (owned rx) then None else contents w2 p) = contents w p"
proof (cases p)
  case None
  then show ?thesis by (simp add: contents_def)
next
  case (Some a)
  let ?rx = "fresh_rx c (next_blk w)" and ?n = "next_blk w"
  have old: "contents w (Some a) = None" if "?n \<le> a" using fresh_blocks [OF wf that] by (simp add: contents_def)
  have same: "contents w1 (Some a) = contents w (Some a)" if "a \<notin> {?n ..< ?n + 5}"
    by (rule fresh_rx_contents(4) [OF blk that])
  have fresh: "Some a \<in> set (owned ?rx) \<longleftrightarrow> a \<in> {?n ..< ?n + 5}"
    by (auto simp: owned_fresh eval_nat_numeral less_Suc_eq)
  have own: "Some a \<notin> set (owned rx) \<Longrightarrow> contents w2 (Some a) = contents w1 (Some a)"
      "Some a \<in> set (owned rx) \<Longrightarrow> Some a \<in> set (owned ?rx) \<or> contents w1 (Some a) = None"
    using res by (auto simp: start_result_def)
  have all: "set (owned ?rx) \<subseteq> set (owned rx)"
    using res by (auto simp: start_result_def same_core_def owned_def)
  show ?thesis
  proof (cases "a \<in> {?n ..< ?n + 5}")
    case True
    then have "Some a \<in> set (owned rx)" using fresh all by blast
    then show ?thesis using True old by (simp add: Some)
  next
    case False
    then show ?thesis using own same fresh by (auto simp: Some)
  qed
qed

section \<open>The receive thread\<close>

lemma session_loop:
  fixes w :: "'z world_scheme"
  assumes client: "\<And>s. receiver_client (user_cb s) ok {} (\<lambda>_. True) seen_by observe rx"
    and ready: "thread_ready POSIX ok R c n rx w" and c: "valid_config c"
    and okD: "\<And>h. ok h \<Longrightarrow> heap_wf h \<and> trace h = trace w"
    and B: "47721858845 \<le> B" "B < 2 ^ 53"
    and clock: "steady_clock t0 B (map fst (loop_input (r_pkt_buf_size rx) ts))"
  obtains rx' w' where "rx_receiver_loop user_cb ts rx w = Some (loop_exits (r_pkt_buf_size rx) ts, rx', w')"
    and "life_inv POSIX R rx' w'" and "set (owned rx') = set (owned rx)"
    and "\<And>p. p \<notin> set (owned rx) \<Longrightarrow> contents w' p = contents w p" and "ok w'"
    and "seen_by w' = seen_by w @ concat (map observe
           (session_frames c (map snd (loop_input (r_pkt_buf_size rx) ts))))"
proof -
  note r = ready [unfolded thread_ready_def]
  let ?pkts = "map snd (loop_input (r_pkt_buf_size rx) ts)"
  have st: "stats_within B (r_stats rx)" "has_prev (r_stats rx) \<longrightarrow> last_arrival_us (r_stats rx) = t0"
    using r B stats_within_init [of B] by (simp_all add: same_core_def rx_stats_init_def)
  have inv: "packet_inv ok {} (\<lambda>_. True) rx w" and pkt: "pkt_ready {} rx w" and life: "life_inv POSIX R rx w"
    using r by simp_all
  obtain rx' w' where loop: "rx_receiver_loop user_cb ts rx w = Some (loop_exits (r_pkt_buf_size rx) ts, rx', w')"
      "received ok {} (\<lambda>_. True) seen_by observe B rx w ?pkts rx' w'" "pkt_ready {} rx' w'"
    using rx_receiver_loop_spec [where user_cb = user_cb, OF client B inv st(1) pkt st(2) clock] by blast
  have keeps: "contents w' q = contents w q"
    if "q \<notin> {r_convert_buf rx, fill_buf (r_assembler rx), deliver_buf (r_assembler rx)}" "q \<noteq> r_pkt_buf rx" for q
    by (rule loop_keeps [where user_cb = user_cb, OF client B inv st(1) pkt st(2) clock _ that loop(1)]) simp
  note life' = received_life_inv [OF life loop(2,3) okD keeps, simplified]
  have "ok w'" using loop(2) by (simp add: received_def packet_inv_def sink_inv_def)
  moreover have "seen_by w' = seen_by w @ concat (map observe (session_frames c ?pkts))"
    using loop(2) by (simp add: received_def session_frames_stream [OF ready c])
  moreover have "contents w' p = contents w p" if "p \<notin> set (owned rx)" for p
    using that by (intro keeps) (auto simp: owned_def)
  ultimately show ?thesis by (intro that [OF loop(1) life'])
qed

text \<open>The same for datagrams that reach the receiver in another way, as on Windows.\<close>

lemma session_receive:
  fixes w :: "'z world_scheme"
  assumes client: "\<And>s. receiver_client (user_cb s) ok {} (\<lambda>_. True) seen_by observe rx"
    and ready: "thread_ready pf ok R c n rx w" and c: "valid_config c"
    and okD: "\<And>h. ok h \<Longrightarrow> heap_wf h \<and> trace h = trace w"
    and B: "47721858845 \<le> B" "B < 2 ^ 53" and clock: "steady_clock t0 B (map fst es)"
  obtains rx' w' where "receive user_cb es rx w = Some (rx', w')"
    and "life_inv pf R rx' w'" and "set (owned rx') = set (owned rx)"
    and "\<And>p. p \<notin> set (owned rx) \<Longrightarrow> contents w' p = contents w p" and "ok w'"
    and "seen_by w' = seen_by w @ concat (map observe (session_frames c (map snd es)))"
proof -
  note r = ready [unfolded thread_ready_def]
  have st: "stats_within B (r_stats rx)" "has_prev (r_stats rx) \<longrightarrow> last_arrival_us (r_stats rx) = t0"
    using r B stats_within_init [of B] by (simp_all add: same_core_def rx_stats_init_def)
  have inv: "packet_inv ok {} (\<lambda>_. True) rx w" and pkt: "pkt_ready {} rx w" and life: "life_inv pf R rx w"
    using r by simp_all
  obtain rx' w' where run: "receive user_cb es rx w = Some (rx', w')"
      "received ok {} (\<lambda>_. True) seen_by observe B rx w (map snd es) rx' w'"
    using receive_spec [where user_cb = user_cb, OF client B inv st clock] by blast
  have keeps: "contents w' q = contents w q"
    if "q \<notin> {r_convert_buf rx, fill_buf (r_assembler rx), deliver_buf (r_assembler rx)}" for q
    by (rule receive_keeps [where user_cb = user_cb, OF client B inv st(1,2) clock _ that run(1)]) simp
  obtain a s where rx': "rx' = rx\<lparr>r_assembler := a, r_stats := s\<rparr>"
      "{fill_buf a, deliver_buf a} = {fill_buf (r_assembler rx), deliver_buf (r_assembler rx)}"
    using run(2) unfolding received_def by blast
  have pkt': "pkt_ready {} rx' w'"
    using pkt keeps [of "r_pkt_buf rx"] rx' by (auto simp: pkt_ready_def)
  note life' = received_life_inv [OF life run(2) pkt' okD keeps, simplified]
  have "ok w'" using run(2) by (simp add: received_def packet_inv_def sink_inv_def)
  moreover have "seen_by w' = seen_by w @ concat (map observe (session_frames c (map snd es)))"
    using run(2) by (simp add: received_def session_frames_stream [OF ready c])
  moreover have "contents w' p = contents w p" if "p \<notin> set (owned rx)" for p
    using that by (intro keeps) (auto simp: owned_def)
  ultimately show ?thesis by (intro that [OF run(1) life'])
qed

section \<open>Disposal\<close>

lemma life_inv_log [simp]: "life_inv pf R rx (rx_log c l m w) = life_inv pf R rx w"
  by (simp add: life_inv_def owns_def heap_wf_def)

text \<open>What \<open>st2110rx_destroy\<close> does after \<open>st2110rx_stop\<close>.\<close>

definition free_receiver :: "st2110rx \<Rightarrow> 'z heap_scheme \<Rightarrow> 'z heap_scheme option" where
  "free_receiver rx h =
     do { (a, h) \<leftarrow> rx_assembler_free (r_assembler rx) h;
          h \<leftarrow> free_blk (r_convert_buf rx) h;
          h \<leftarrow> free_blk (r_pkt_buf rx) h;
          free_blk (r_self rx) h }"

lemma destroy_is_stop_and_free:
  "st2110rx_destroy pf (Some rx) w =
     do { (rx, w) \<leftarrow> st2110rx_stop pf (Some rx) w; case rx of None \<Rightarrow> None | Some rx \<Rightarrow> free_receiver rx w }"
  by (simp add: st2110rx_destroy_def free_receiver_def cong: option.case_cong)

lemma free_owned:
  assumes own: "owns rx w"
  shows "free_receiver rx w \<noteq> None"
proof -
  obtain a b c d e where ptrs: "r_self rx = Some a" "r_pkt_buf rx = Some b" "r_convert_buf rx = Some c"
      "fill_buf (r_assembler rx) = Some d" "deliver_buf (r_assembler rx) = Some e"
    using own by (auto simp: owns_def owned_def contents_def split: option.splits)
  have "distinct [a, b, c, d, e]" using own ptrs by (auto simp: owns_def owned_def)
  moreover have "blocks w a \<noteq> None" "blocks w b \<noteq> None" "blocks w c \<noteq> None" "blocks w d \<noteq> None" "blocks w e \<noteq> None"
    using own ptrs by (auto simp: owns_def owned_def contents_def)
  ultimately show ?thesis
    using ptrs by (auto simp: free_receiver_def rx_assembler_free_def free_blk_def)
qed

end
