(* ===== verification/Receiver_Props.thy ===== *)
theory Receiver_Props
  imports Rx_Core_Iocp Rx_Session
begin

text \<open>
  What \<open>rx_core.c\<close> and \<open>rx_socket.c\<close> guarantee: creation, starting, stopping and disposal
  on both platforms and whatever the operating system answers, and the two receive loops.
\<close>

section \<open>A small receiver\<close>

definition demo_config :: st2110rx_config_t where
  "demo_config = \<lparr>c_multicast_addr = Some ''239.1.1.1'', c_port = 0, c_interface_addr = None, c_width = 2,
     c_height = 1, c_input_fmt = ST2110RX_FMT_YCBCR422_10BIT, c_output_fmt = ST2110RX_FMT_UYVY,
     c_socket_buffer_size = 0, c_enable_jumbo = False, c_has_frame_cb = True, c_has_log_cb = False\<rparr>"

definition demo_env :: os_env where
  "demo_env = \<lparr>e_startup = (\<lambda>_. True), e_socket = (\<lambda>_. 5), e_rcvbuf = (\<lambda>_. None), e_bind = (\<lambda>_. True),
     e_join_group = (\<lambda>_. True), e_iocp = (\<lambda>_. Some 8), e_thread = (\<lambda>_. Some 9), e_errno = (\<lambda>_. 0),
     e_multicast_if = (\<lambda>_. True), e_send = (\<lambda>_. True), e_rand = (\<lambda>_. 0), e_monotonic = (\<lambda>_. (0, 0)),
     e_tick_count = (\<lambda>_. 0),
     e_inet_addr = (\<lambda>_. 1), e_sizeof_rx = 8, e_sizeof_iocp_buffer = 8\<rparr>"

definition demo_world :: world where
  "demo_world = \<lparr>blocks = (\<lambda>_. None), next_blk = 0, oom = (\<lambda>_. False), junk = (\<lambda>_ _. 0), trace = []\<rparr>"

lemma demo_world_simps [simp]:
  "heap_wf demo_world" "holding demo_world {#}" "enough_memory demo_world" "contents demo_world p = None"
  "trace demo_world = []" "next_blk demo_world = 0"
  by (simp_all add: demo_world_def heap_wf_def holding_def resources_of_def enough_memory_def contents_def
      split: option.split)

lemma demo_config_valid [simp]: "valid_config demo_config"
  by (simp add: valid_config_def demo_config_def supported_def)

section \<open>The socket\<close>

text \<open>\<open>rx_udp_create\<close> either returns an open socket that has joined the group, or
  \<open>RX_INVALID_SOCKET\<close> with nothing left open: whichever of the calls fails, the socket is
  closed exactly once. It touches no memory.\<close>

lemma udp_create_all_or_nothing:
  assumes "holding w R" and "rx_udp_create env config mreq w = (s, mreq', w')"
  shows "holding w' (if s = RX_INVALID_SOCKET then R else {#R_socket s, R_member s mreq'#} + R)
    \<and> blocks w' = blocks w"
  using rx_udp_create_holds [OF assms(1), of env config mreq] rx_udp_create_memory [OF assms(2)] assms(2)
  by (simp add: holds_joined_def joined_socket_def split: if_splits)

lemma udp_create_all_or_nothing_witness:
  "\<exists>w'. rx_udp_create demo_env demo_config (0, 0) demo_world = (5, (1, 0), w')
    \<and> holding w' {#R_socket 5, R_member 5 (1, 0)#}"
proof -
  obtain s m w' where u: "rx_udp_create demo_env demo_config (0, 0) demo_world = (s, m, w')" by (metis prod_cases3)
  have "s = 5" "m = (1, 0)"
    using u by (auto simp: rx_udp_create_def demo_config_def demo_env_def join_group_def interface_ip_def
        RX_INVALID_SOCKET_def INADDR_NONE_def INADDR_ANY_def Let_def set_rcvbuf_def)
  then show ?thesis
    using udp_create_all_or_nothing [OF demo_world_simps(2) u] u by (simp add: RX_INVALID_SOCKET_def)
qed

section \<open>Creation\<close>

text \<open>C19: \<open>st2110rx_create\<close> returns a receiver exactly for a configuration with an address,
  a frame callback and a supported picture when its five allocations succeed; then it is
  idle, owns five live blocks and shows a black picture. Otherwise it returns \<open>NULL\<close> and
  every block allocated on the way has been freed, whichever allocation failed.\<close>

lemma create_outcomes:
  assumes "heap_wf h"
  shows "\<exists>r h'. st2110rx_create env (Some c) h = Some (r, h')
    \<and> (r \<noteq> None \<longleftrightarrow> valid_config c \<and> enough_memory h)
    \<and> (case r of
         None \<Rightarrow> same_memory h h'
       | Some rx \<Rightarrow> idle rx \<and> owns rx h' \<and> r_config rx = c
           \<and> asm_abs (r_assembler rx) h' = spec_init (picture_size c)
           \<and> (\<forall>p. p \<notin> set (owned rx) \<longrightarrow> contents h' p = contents h p))"
proof (cases "valid_config c \<and> enough_memory h")
  case False
  then obtain h' where "st2110rx_create env (Some c) h = Some (None, h')" "same_memory h h'"
    using create_fails [OF _ assms] by blast
  then show ?thesis using False by (intro exI conjI) auto
next
  case True
  then have c: "valid_config c" by simp
  obtain h' where h': "st2110rx_create env (Some c) h = Some (Some (fresh_rx c (next_blk h)), h')"
      "blocks h' = fresh_rx_blocks env c h"
    using create_succeeds [OF c _ assms, of env] True by blast
  let ?rx = "fresh_rx c (next_blk h)"
  have "asm_abs (r_assembler ?rx) h' = spec_init (picture_size c)"
    by (rule fresh_packet_inv(2) [where ok = "\<lambda>_. True" and own = "{}" and accepts = "\<lambda>_. True", OF c h'(2)]) simp_all
  moreover have "owns ?rx h'"
    using fresh_rx_contents(5) [OF h'(2)] by (simp add: owns_def owned_fresh)
  moreover have "contents h' p = contents h p" if "p \<notin> set (owned ?rx)" for p
  proof (cases p)
    case (Some b)
    then have "b \<notin> {next_blk h ..< next_blk h + 5}"
      using that by (auto simp: owned_fresh eval_nat_numeral less_Suc_eq)
    then show ?thesis using fresh_rx_contents(4) [OF h'(2)] Some by simp
  qed (simp add: contents_def)
  ultimately show ?thesis using h'(1) True by (intro exI conjI) auto
qed

lemma create_outcomes_witness: "\<exists>rx h'. st2110rx_create demo_env (Some demo_config) demo_world = Some (Some rx, h') \<and> idle rx"
  using create_outcomes [OF demo_world_simps(1), of demo_env demo_config] by auto

section \<open>Starting and stopping\<close>

text \<open>C17: \<open>st2110rx_start\<close> on either platform either returns \<open>ST2110RX_OK\<close> with the thread
  running and exactly the resources of a running receiver held, or an error with every
  resource and block it acquired given back and the receiver idle again, ready for another
  start. Starting a running receiver acquires nothing.\<close>

lemma start_all_or_nothing:
  assumes "life_inv pf R rx w"
  shows "\<exists>rc rx' w'. st2110rx_start env pf (Some rx) w = Some (rc, Some rx', w') \<and> life_inv pf R rx' w'
    \<and> (if rc = ST2110RX_OK then active pf rx' \<and> holding w' (held pf rx' + R)
       else idle rx' \<and> holding w' R \<and> (\<forall>p. contents w' p = contents w p))
    \<and> (\<forall>p. p \<notin> set (owned rx') \<longrightarrow> contents w' p = contents w p)"
  using start_outcomes [OF assms, of env]
  by (fastforce simp: start_result_def same_contents_def life_inv_def)

lemma demo_receiver:
  obtains w where "st2110rx_create demo_env (Some demo_config) demo_world = Some (Some (fresh_rx demo_config 0), w)"
    and "life_inv pf {#} (fresh_rx demo_config 0) w"
    and "packet_inv (\<lambda>_. True) {} (\<lambda>_. True) (fresh_rx demo_config 0) w" and "pkt_ready {} (fresh_rx demo_config 0) w"
proof -
  obtain w where w: "st2110rx_create demo_env (Some demo_config) demo_world = Some (Some (fresh_rx demo_config 0), w)"
      "blocks w = fresh_rx_blocks demo_env demo_config demo_world" "heap_wf w" "heap.more w = heap.more demo_world"
    using create_succeeds [OF demo_config_valid demo_world_simps(3,1), of demo_env] by auto
  have "life_inv pf {#} (fresh_rx demo_config 0) w"
    using fresh_life_inv [OF w(2-4) demo_world_simps(2)] by simp
  moreover have "packet_inv (\<lambda>_. True) {} (\<lambda>_. True) (fresh_rx demo_config 0) w"
    using fresh_packet_inv(1) [OF demo_config_valid w(2), of "\<lambda>_. True" "{}" "\<lambda>_. True"] by simp
  moreover have "pkt_ready {} (fresh_rx demo_config 0) w"
    using fresh_rx_contents(6) [OF w(2)] by (simp add: pkt_ready_def) (simp add: fresh_assembler_def)
  ultimately show ?thesis using that w(1) by blast
qed

lemma demo_life: "\<exists>w :: world. life_inv pf {#} (fresh_rx demo_config 0) w"
  by (rule demo_receiver [of pf]) blast

lemma start_all_or_nothing_witness:
  "\<exists>(w :: world) rc rx' w'. st2110rx_start demo_env WIN32 (Some (fresh_rx demo_config 0)) w = Some (rc, Some rx', w')
    \<and> life_inv WIN32 {#} rx' w'"
proof -
  obtain w :: world where "life_inv WIN32 {#} (fresh_rx demo_config 0) w" using demo_life [of WIN32] by blast
  from start_all_or_nothing [OF this, of demo_env] show ?thesis by blast
qed

text \<open>C18: \<open>st2110rx_stop\<close> on a running receiver makes these calls and no others, in this order:
  on Windows it posts the wakeup; it leaves the group and closes the socket; it waits for
  the thread; on Windows it then closes the thread's handle and the completion port and
  releases the socket library. Up to the wait all memory of the thread and its port are
  there (\<open>join_thread\<close> fails otherwise). Afterwards nothing the receiver held of the system
  is held, the completion buffers are freed and no other block, and the receiver is idle
  with its configuration, assembler and statistics. An idle receiver is left as it is.
  What the kernel still does with receives it has not completed when the pool is freed is
  not said here, but in \<open>pool_freed_in_use\<close>.\<close>

lemma stop_gives_back:
  assumes "life_inv pf R rx w"
  shows "\<exists>rx' w'. st2110rx_stop pf (Some rx) w = Some (Some rx', w') \<and> idle rx' \<and> same_core rx rx'
    \<and> holding w' R \<and> life_inv pf R rx' w' \<and> (idle rx \<longrightarrow> rx' = rx)
    \<and> (\<forall>p. contents w' p = (if p = r_iocp_buffers rx then None else contents w p))
    \<and> trace w' = trace w @ stop_events pf rx"
proof -
  obtain w' where w': "st2110rx_stop pf (Some rx) w = Some (Some (shut rx), w')" "holding w' R" "heap_wf w'"
      "\<forall>p. contents w' p = (if p = r_iocp_buffers rx then None else contents w p)"
    using stop_outcomes [OF assms] by blast
  have "same_core rx (shut rx)" by (simp add: same_core_def shut_def)
  moreover note stop_trace [OF assms w'(1)]
  ultimately show ?thesis
    using w' stop_life_inv [OF assms w'(2-4)] shut_idle [of rx] by (intro exI conjI) auto
qed

text \<open>A receiver that was started on Windows, with its port, its thread and its pool.\<close>

lemma demo_active:
  obtains rx and w :: world where "life_inv WIN32 {#} rx w" and "active WIN32 rx"
proof -
  obtain w :: world where w: "st2110rx_create demo_env (Some demo_config) demo_world = Some (Some (fresh_rx demo_config 0), w)"
      "life_inv WIN32 {#} (fresh_rx demo_config 0) w"
    by (rule demo_receiver [of WIN32])
  obtain w1 :: world where w1: "st2110rx_create demo_env (Some demo_config) demo_world = Some (Some (fresh_rx demo_config 0), w1)"
      "oom w1 = oom demo_world"
    by (rule create_succeeds [OF demo_config_valid demo_world_simps(3,1), of demo_env]) auto
  obtain rc rx w2 where start: "st2110rx_start demo_env WIN32 (Some (fresh_rx demo_config 0)) w = Some (rc, Some rx, w2)"
      "start_result WIN32 {#} (fresh_rx demo_config 0) w rc rx w2"
    using start_outcomes [OF w(2)] by blast
  have "oom w = (\<lambda>_. False)" using w(1) w1 by (simp add: demo_world_def)
  moreover have "obliging WIN32 demo_env demo_config"
    by (simp add: obliging_def demo_env_def demo_config_def interface_ip_def RX_INVALID_SOCKET_def INADDR_NONE_def)
  ultimately have "rc = ST2110RX_OK"
    by (intro start_obliging [OF _ _ _ start(1)]) (simp_all add: fresh_rx_def zero_rx_def)
  then show ?thesis using start(2) by (intro that [of rx w2]) (simp_all add: start_result_def)
qed

lemma stop_gives_back_witness:
  "\<exists>(w :: world) rx t p s m rx' w'. active WIN32 rx \<and> st2110rx_stop WIN32 (Some rx) w = Some (Some rx', w')
    \<and> trace w' = trace w @ [Sys_iocp_wake p, Sys_drop_membership s m, Sys_close s, Sys_thread_wait t, Sys_close_thread t,
        Sys_close_handle p, Sys_cleanup]
    \<and> contents w (r_iocp_buffers rx) \<noteq> None \<and> contents w' (r_iocp_buffers rx) = None"
proof -
  obtain rx and w :: world where rx: "life_inv WIN32 {#} rx w" "active WIN32 rx" by (rule demo_active)
  then have on: "\<not> idle rx" "contents w (r_iocp_buffers rx) \<noteq> None"
    by (auto simp: active_def idle_def life_inv_def owns_def owned_def)
  obtain rx' w' where "st2110rx_stop WIN32 (Some rx) w = Some (Some rx', w')"
      "trace w' = trace w @ stop_events WIN32 rx" "contents w' (r_iocp_buffers rx) = None"
    using stop_gives_back [OF rx(1)] by auto
  then have "active WIN32 rx \<and> st2110rx_stop WIN32 (Some rx) w = Some (Some rx', w')
    \<and> trace w' = trace w @ [Sys_iocp_wake (the (r_iocp rx)), Sys_drop_membership (r_sock rx) (r_mreq rx),
        Sys_close (r_sock rx), Sys_thread_wait (the (r_thread rx)), Sys_close_thread (the (r_thread rx)),
        Sys_close_handle (the (r_iocp rx)), Sys_cleanup]
    \<and> contents w (r_iocp_buffers rx) \<noteq> None \<and> contents w' (r_iocp_buffers rx) = None"
    using rx(2) on by (simp add: stop_events_def Let_def)
  then show ?thesis by blast
qed

text \<open>Any sequence of calls between creation and disposal.\<close>

datatype life_call = Call_start | Call_stop

fun run_calls ::
    "os_env \<Rightarrow> platform \<Rightarrow> life_call list \<Rightarrow> st2110rx option \<Rightarrow> world \<Rightarrow> (st2110rx option \<times> world) option" where
  "run_calls env pf [] rx w = Some (rx, w)"
| "run_calls env pf (Call_start # cs) rx w =
     do { (rc, rx, w) \<leftarrow> st2110rx_start env pf rx w; run_calls env pf cs rx w }"
| "run_calls env pf (Call_stop # cs) rx w =
     do { (rx, w) \<leftarrow> st2110rx_stop pf rx w; run_calls env pf cs rx w }"

definition life_within :: "platform \<Rightarrow> resource multiset \<Rightarrow> world \<Rightarrow> st2110rx \<Rightarrow> world \<Rightarrow> bool" where
  "life_within pf R w0 rx w \<longleftrightarrow> life_inv pf R rx w
     \<and> (\<forall>p. contents w0 p = (if p \<in> set (owned rx) then None else contents w p))"

lemma life_within_start:
  assumes "life_within pf R w0 rx w"
  shows "\<exists>rc rx' w'. st2110rx_start env pf (Some rx) w = Some (rc, Some rx', w') \<and> life_within pf R w0 rx' w'"
proof -
  have inv: "life_inv pf R rx w" and mem: "\<And>p. contents w0 p = (if p \<in> set (owned rx) then None else contents w p)"
    using assms by (simp_all add: life_within_def)
  obtain rc rx' w' where s: "st2110rx_start env pf (Some rx) w = Some (rc, Some rx', w')" "start_result pf R rx w rc rx' w'"
    using start_outcomes [OF inv] by blast
  have r: "life_inv pf R rx' w'" "\<And>q. q \<notin> set (owned rx') \<Longrightarrow> contents w' q = contents w q"
      "\<And>q. q \<in> set (owned rx') \<Longrightarrow> q \<in> set (owned rx) \<or> contents w q = None" "same_core rx rx'"
    using s(2) by (simp_all add: start_result_def)
  have "contents w0 p = (if p \<in> set (owned rx') then None else contents w' p)" for p
  proof (cases "p \<in> set (owned rx) \<and> p \<notin> set (owned rx')")
    case True
    then have "p = r_iocp_buffers rx" "\<not> idle rx" "p \<noteq> None"
      using r(4) by (auto simp: owned_def same_core_def idle_def split: if_splits)
    then have "st2110rx_start env pf (Some rx) w = Some (ST2110RX_OK, Some rx, w)"
      using inv by (simp add: life_inv_def active_def st2110rx_start_def)
    then show ?thesis using True s(1) by simp
  next
    case False
    then show ?thesis using mem [of p] r(2,3) [of p] by auto
  qed
  with s(1) r(1) show ?thesis by (auto simp: life_within_def)
qed

lemma life_within_stop:
  assumes "life_within pf R w0 rx w"
  shows "\<exists>rx' w'. st2110rx_stop pf (Some rx) w = Some (Some rx', w') \<and> life_within pf R w0 rx' w'"
proof -
  have inv: "life_inv pf R rx w" and mem: "\<And>p. contents w0 p = (if p \<in> set (owned rx) then None else contents w p)"
    using assms by (simp_all add: life_within_def)
  obtain w' where w': "st2110rx_stop pf (Some rx) w = Some (Some (shut rx), w')" "holding w' R" "heap_wf w'"
      "\<forall>p. contents w' p = (if p = r_iocp_buffers rx then None else contents w p)"
    using stop_outcomes [OF inv] by blast
  have "contents w None = None" by (simp add: contents_def)
  then have "contents w0 p = (if p \<in> set (owned (shut rx)) then None else contents w' p)" for p
    using mem [of p] w'(4) by (auto simp: owned_def shut_def split: if_splits)
  with w'(1) stop_life_inv [OF inv w'(2-4)] show ?thesis by (auto simp: life_within_def)
qed

lemma life_within_calls:
  assumes "life_within pf R w0 rx w"
  shows "\<exists>rx' w'. run_calls env pf cs (Some rx) w = Some (Some rx', w') \<and> life_within pf R w0 rx' w'"
  using assms
proof (induction cs arbitrary: rx w)
  case (Cons c cs)
  show ?case
  proof (cases c)
    case Call_start
    obtain rc rx1 w1 where "st2110rx_start env pf (Some rx) w = Some (rc, Some rx1, w1)" "life_within pf R w0 rx1 w1"
      using life_within_start [OF Cons.prems] by blast
    with Cons.IH show ?thesis using Call_start by auto
  next
    case Call_stop
    obtain rx1 w1 where "st2110rx_stop pf (Some rx) w = Some (Some rx1, w1)" "life_within pf R w0 rx1 w1"
      using life_within_stop [OF Cons.prems] by blast
    with Cons.IH show ?thesis using Call_stop by auto
  qed
qed simp

text \<open>C3: creating a receiver, calling start and stop on it in any order and any number of
  times, and destroying it never misuses a block or a resource, and leaves the operating
  system's resources and the contents of memory exactly as they were, for every
  configuration, on both platforms, whatever allocation or system call fails.\<close>

lemma life_balanced:
  fixes w :: world
  assumes "heap_wf w" and "holding w R"
  shows "\<exists>rx w1 rx' w2 w3. st2110rx_create env config w = Some (rx, w1)
    \<and> run_calls env pf cs rx w1 = Some (rx', w2) \<and> st2110rx_destroy pf rx' w2 = Some w3
    \<and> holding w3 R \<and> (\<forall>p. contents w3 p = contents w p)"
proof -
  have null: "run_calls env pf cs None v = Some (None, v)" for v
    by (induction env pf cs "None :: st2110rx option" v rule: run_calls.induct)
      (simp_all add: st2110rx_start_def st2110rx_stop_def)
  show ?thesis
  proof (cases config)
    case None
    then show ?thesis using assms(2) null by (simp add: st2110rx_create_def st2110rx_destroy_def)
  next
    case (Some c)
    show ?thesis
    proof (cases "valid_config c \<and> enough_memory w")
      case False
      obtain w1 where w1: "st2110rx_create env (Some c) w = Some (None, w1)" "same_memory w w1"
        using create_fails [OF False assms(1)] by blast
      then have "holding w1 R" "contents w1 p = contents w p" for p
        using assms(2) world_more_eq [of w1 w]
        by (simp_all add: same_memory_def holding_def contents_def split: option.split)
      then show ?thesis using Some w1(1) null by (simp add: st2110rx_destroy_def)
    next
      case True
      then have c: "valid_config c" by simp
      let ?rx = "fresh_rx c (next_blk w)"
      obtain w1 where w1: "st2110rx_create env (Some c) w = Some (Some ?rx, w1)"
          "blocks w1 = fresh_rx_blocks env c w" "heap_wf w1" "heap.more w1 = heap.more w"
        using create_succeeds [OF c _ assms(1), of env] True by blast
      have "contents w p = (if p \<in> set (owned ?rx) then None else contents w1 p)" for p
      proof (cases p)
        case (Some b)
        then show ?thesis
          using fresh_rx_contents(4) [OF w1(2), of b] fresh_blocks [OF assms(1), of b]
          by (auto simp: owned_fresh contents_def eval_nat_numeral less_Suc_eq)
      qed (simp add: contents_def)
      then have "life_within pf R w ?rx w1"
        using fresh_life_inv [OF w1(2-4) assms(2)] by (simp add: life_within_def)
      then obtain rx' w2 where w2: "run_calls env pf cs (Some ?rx) w1 = Some (Some rx', w2)" "life_within pf R w rx' w2"
        using life_within_calls by blast
      obtain w3 where "st2110rx_destroy pf (Some rx') w2 = Some w3" "holding w3 R"
          "\<forall>p. contents w3 p = (if p \<in> set (owned rx') then None else contents w2 p)"
        using destroy_outcome [of pf R rx' w2] w2(2) by (auto simp: life_within_def)
      then show ?thesis using Some w1(1) w2 by (auto simp: life_within_def)
    qed
  qed
qed

lemma life_balanced_witness:
  "\<exists>rx w1 rx' w2 w3. st2110rx_create demo_env (Some demo_config) demo_world = Some (rx, w1)
    \<and> run_calls demo_env WIN32 [Call_start, Call_start, Call_stop, Call_start] rx w1 = Some (rx', w2)
    \<and> st2110rx_destroy WIN32 rx' w2 = Some w3 \<and> holding w3 {#} \<and> (\<forall>p. contents w3 p = None)"
  using life_balanced [OF demo_world_simps(1,2), of demo_env "Some demo_config" WIN32
      "[Call_start, Call_start, Call_stop, Call_start]"] unfolding demo_world_simps(4) .

text \<open>C38: a start, whether it succeeds or fails, keeps the assembler and the statistics of
  the previous run: the expected sequence number and the last arrival time are not reset,
  so the first packet after a pause is measured against the last one before it.\<close>

lemma restart_keeps_history:
  assumes "life_inv pf R rx w" and "st2110rx_start env pf (Some rx) w = Some (rc, Some rx', w')"
  shows "r_assembler rx' = r_assembler rx \<and> r_stats rx' = r_stats rx \<and> r_config rx' = r_config rx"
  using start_outcomes [OF assms(1), of env] assms(2) by (auto simp: start_result_def same_core_def)

lemma restart_keeps_history_witness:
  "\<exists>(w :: world) rc rx' w'. st2110rx_start demo_env POSIX (Some (fresh_rx demo_config 0)) w = Some (rc, Some rx', w')
    \<and> r_stats rx' = rx_stats_init"
proof -
  obtain w :: world where w: "life_inv POSIX {#} (fresh_rx demo_config 0) w" using demo_life [of POSIX] by blast
  then obtain rc rx' w' where "st2110rx_start demo_env POSIX (Some (fresh_rx demo_config 0)) w = Some (rc, Some rx', w')"
    using start_outcomes by blast
  with restart_keeps_history [OF w this] show ?thesis by auto
qed

section \<open>The receive loops\<close>

interpretation rec_rx: receiver_client record_cb "\<lambda>_. True" "{}" "\<lambda>_. True" seen "\<lambda>f. [f]" rx
  for rx :: st2110rx
  by unfold_locales simp

text \<open>\<open>rx_process_packet\<close> on any bytes, for any user callback that meets the contract
  and does not own the convert buffer: no access out of bounds, no undefined arithmetic;
  the callback is given the frames the specification completes, converted to the output
  format; the statistics are those of the packet, its loss and its frame; and the
  assembler is left as the specification says.\<close>

lemma packet_at_receiver:
  fixes user_cb :: "'z user_cb"
  assumes "receiver_client (user_cb st) ok own accepts seen_by observe rx"
    and "packet_inv ok own accepts rx h" and "packet_stats now_us pkt (r_stats rx) = Some st"
  shows "\<exists>rx' h'. rx_process_packet user_cb now_us pkt rx h = Some (rx', h') \<and> packet_inv ok own accepts rx' h'
    \<and> r_stats rx' = note_packet (packet_gap (layout_of (r_assembler rx)) pkt (asm_abs (r_assembler rx) h))
        (packet_frames rx pkt h) st
    \<and> asm_abs (r_assembler rx') h' = snd (spec_packet (layout_of (r_assembler rx)) (c_input_fmt (r_config rx)) pkt
        (asm_abs (r_assembler rx) h))
    \<and> seen_by h' = seen_by h @ concat (map observe (concat (map (out_views rx) (packet_frames rx pkt h))))"
proof -
  obtain a' h' where r: "rx_process_packet user_cb now_us pkt rx h =
        Some (rx\<lparr>r_stats := note_packet (packet_gap (layout_of (r_assembler rx)) pkt (asm_abs (r_assembler rx) h))
                   (packet_frames rx pkt h) st, r_assembler := a'\<rparr>, h')"
      "packet_inv ok own accepts (rx\<lparr>r_assembler := a'\<rparr>) h'"
      "asm_abs a' h' = snd (spec_packet (layout_of (r_assembler rx)) (c_input_fmt (r_config rx)) pkt (asm_abs (r_assembler rx) h))"
      "seen_by h' = seen_by h @ concat (map observe (concat (map (out_views rx) (packet_frames rx pkt h))))"
    by (rule rx_process_packet_spec [where user_cb = user_cb, OF assms]) blast
  let ?s = "note_packet (packet_gap (layout_of (r_assembler rx)) pkt (asm_abs (r_assembler rx) h)) (packet_frames rx pkt h) st"
  have "packet_inv ok own accepts (rx\<lparr>r_stats := ?s, r_assembler := a'\<rparr>) h'"
    using r(2) by (simp add: update_order packet_inv_stats)
  with r show ?thesis
    by (intro exI [where x = "rx\<lparr>r_stats := ?s, r_assembler := a'\<rparr>"] exI [where x = h']) simp
qed

definition demo_recorder :: recorder where
  "demo_recorder = \<lparr>blocks = (\<lambda>_. None), next_blk = 0, oom = (\<lambda>_. False), junk = (\<lambda>_ _. 0), seen = []\<rparr>"

lemma demo_ready:
  "\<exists>h :: recorder. packet_inv (\<lambda>_. True) {} (\<lambda>_. True) (fresh_rx demo_config 0) h \<and> pkt_ready {} (fresh_rx demo_config 0) h
    \<and> seen h = []"
proof -
  have new: "heap_wf demo_recorder" "enough_memory demo_recorder" "next_blk demo_recorder = 0"
    by (simp_all add: demo_recorder_def heap_wf_def enough_memory_def)
  obtain h where h: "blocks h = fresh_rx_blocks demo_env demo_config demo_recorder" "heap.more h = heap.more demo_recorder"
    using create_succeeds [OF demo_config_valid new(2,1), of demo_env] by metis
  have "packet_inv (\<lambda>_. True) {} (\<lambda>_. True) (fresh_rx demo_config 0) h"
    using fresh_packet_inv(1) [OF demo_config_valid h(1), of "\<lambda>_. True" "{}" "\<lambda>_. True"] new(3) by simp
  moreover have "pkt_ready {} (fresh_rx demo_config 0) h"
    using fresh_rx_contents(6) [OF h(1)] new(3) by (simp add: pkt_ready_def) (simp add: fresh_assembler_def)
  moreover have "seen h = []" using h(2) by (cases h) (simp add: demo_recorder_def)
  ultimately show ?thesis by blast
qed

lemma demo_stats: "packet_stats 1000 [0x80] rx_stats_init = Some (stats_step 1000 0 rx_stats_init)"
  by (simp add: packet_stats_def rx_extract_rtp_timestamp_def rx_stats_packet_eq rx_stats_init_def)

lemma packet_at_receiver_witness:
  "\<exists>(h :: recorder) rx' h'. rx_process_packet (\<lambda>_. record_cb) 1000 [0x80] (fresh_rx demo_config 0) h = Some (rx', h') \<and> seen h' = []"
proof -
  obtain h :: recorder where h: "packet_inv (\<lambda>_. True) {} (\<lambda>_. True) (fresh_rx demo_config 0) h" "seen h = []"
    using demo_ready by blast
  have "packet_stats 1000 [0x80] (r_stats (fresh_rx demo_config 0)) = Some (stats_step 1000 0 rx_stats_init)"
    using demo_stats by simp
  moreover have "packet_frames (fresh_rx demo_config 0) [0x80] h = []"
    by (simp add: packet_frames_def spec_packet_def decode_packet_def parse_rtp_header_def)
  ultimately obtain rx' h' where "rx_process_packet (\<lambda>_. record_cb) 1000 [0x80] (fresh_rx demo_config 0) h = Some (rx', h')"
      "seen h' = []"
    using packet_at_receiver [where user_cb = "\<lambda>_. record_cb", OF rec_rx.receiver_client_axioms h(1), of 1000 "[0x80]"] h(2)
    by auto
  then show ?thesis by blast
qed

text \<open>C2: the receive thread on POSIX, for any schedule of datagrams, failed receives and
  stop requests, under a clock that does not run backwards: it never accesses memory out
  of bounds, returns once it has seen the stop flag, processes exactly the datagrams
  received before that (cut to the packet buffer), gives the user every frame the
  specification makes of them, in order and in the output format, and counts packets,
  frames, incomplete frames and losses as the specification does.\<close>

lemma posix_loop_delivers:
  fixes user_cb :: "'z user_cb"
  assumes "\<And>s. receiver_client (user_cb s) ok own accepts seen_by observe rx"
    and "47721858845 \<le> B" and "B < 2 ^ 53"
    and "packet_inv ok own accepts rx h" and "stats_within B (r_stats rx)" and "pkt_ready own rx h"
    and "has_prev (r_stats rx) \<longrightarrow> last_arrival_us (r_stats rx) = t0"
    and "steady_clock t0 B (map fst (loop_input (r_pkt_buf_size rx) ts))"
  shows "\<exists>rx' h'. rx_receiver_loop user_cb ts rx h = Some (loop_exits (r_pkt_buf_size rx) ts, rx', h')
    \<and> packet_inv ok own accepts rx' h' \<and> pkt_ready own rx' h' \<and> stats_within B (r_stats rx')
    \<and> (let pkts = map snd (loop_input (r_pkt_buf_size rx) ts); frames = stream_frames rx pkts h
       in seen_by h' = seen_by h @ concat (map observe (concat (map (out_views rx) frames)))
          \<and> asm_abs (r_assembler rx') h' = stream_state rx pkts h
          \<and> packets_received (r_stats rx') = packets_received (r_stats rx) + of_nat (length pkts)
          \<and> frames_received (r_stats rx') = frames_received (r_stats rx) + of_nat (length frames)
          \<and> frames_dropped (r_stats rx') = frames_dropped (r_stats rx) + of_nat (length (filter s_incomplete frames))
          \<and> packets_lost (r_stats rx') = packets_lost (r_stats rx) + stream_lost rx pkts h)"
  using rx_receiver_loop_spec [where user_cb = user_cb, OF assms] unfolding received_def Let_def by blast

lemma posix_loop_delivers_witness:
  "\<exists>(h :: recorder) rx' h'. rx_receiver_loop (\<lambda>_. record_cb)
      [\<lparr>t_running = True, t_answer = Recv_bytes [0x80, 96, 0, 1], t_running2 = True, t_now = 1000\<rparr>,
       \<lparr>t_running = True, t_answer = Recv_none, t_running2 = False, t_now = 0\<rparr>] (fresh_rx demo_config 0) h
    = Some (True, rx', h') \<and> packets_received (r_stats rx') = 1"
proof -
  let ?ts = "[\<lparr>t_running = True, t_answer = Recv_bytes [0x80, 96, 0, 1], t_running2 = True, t_now = 1000\<rparr>,
       \<lparr>t_running = True, t_answer = Recv_none, t_running2 = False, t_now = 0\<rparr>]"
  have size: "r_pkt_buf_size (fresh_rx demo_config 0) = 1500" by (simp add: fresh_rx_def demo_config_def)
  obtain h :: recorder where h: "packet_inv (\<lambda>_. True) {} (\<lambda>_. True) (fresh_rx demo_config 0) h"
      "pkt_ready {} (fresh_rx demo_config 0) h"
    using demo_ready by blast
  have st: "stats_within 47721858845 (r_stats (fresh_rx demo_config 0))"
    by (simp add: stats_within_def stats_ok_init) (simp add: rx_stats_init_def)
  have "loop_input 1500 ?ts = [(1000, [0x80, 96, 0, 1])]" "loop_exits 1500 ?ts" by simp_all
  then show ?thesis
    using posix_loop_delivers [where user_cb = "\<lambda>_. record_cb" and ?t0.0 = 1000 and ts = ?ts,
        OF rec_rx.receiver_client_axioms _ _ h(1) st h(2)]
    by (fastforce simp: size rx_stats_init_def Let_def)
qed

text \<open>C11: the Windows receive thread, with its 64 overlapped receives and its batches of
  completions, does exactly what processing the same datagrams one after the other does,
  and never posts a buffer the kernel already holds, for any schedule in which the kernel
  completes only what it was given.\<close>

lemma iocp_loop_sequential:
  assumes "\<And>i. i < RX_IOCP_NUM_BUFFERS \<Longrightarrow> ok i" and "kernel_ok ts {..<RX_IOCP_NUM_BUFFERS}"
  shows "\<exists>p. p \<subseteq> {..<RX_IOCP_NUM_BUFFERS} \<and> rx_receiver_loop_win32 user_cb err ok ts rx w =
     do { (rx, w) \<leftarrow> receive user_cb (win32_input ts) rx w; Some (win32_exits ts, rx, w, p) }"
  using win32_loop_eq [OF assms, where user_cb = user_cb and err = err and rx = rx and w = w] by auto

lemma iocp_loop_sequential_witness:
  "\<exists>p. rx_receiver_loop_win32 (\<lambda>_ _ h. Some h) 0 (\<lambda>_. True)
     [\<lparr>wt_running = True, wt_ok = True, wt_running2 = True,
       wt_entries = [\<lparr>e_completion = Completed 3 [], e_now = 0, e_running = True, e_post_ok = True\<rparr>,
                     \<lparr>e_completion = Wakeup, e_now = 0, e_running = True, e_post_ok = True\<rparr>]\<rparr>,
      \<lparr>wt_running = False, wt_ok = True, wt_running2 = True, wt_entries = []\<rparr>]
     (fresh_rx demo_config 0) demo_world = Some (True, fresh_rx demo_config 0, demo_world, p)"
proof -
  let ?ts = "[\<lparr>wt_running = True, wt_ok = True, wt_running2 = True,
       wt_entries = [\<lparr>e_completion = Completed 3 [], e_now = 0, e_running = True, e_post_ok = True\<rparr>,
                     \<lparr>e_completion = Wakeup, e_now = 0, e_running = True, e_post_ok = True\<rparr>]\<rparr>,
      \<lparr>wt_running = False, wt_ok = True, wt_running2 = True, wt_entries = []\<rparr>]"
  have "kernel_ok ?ts {..<RX_IOCP_NUM_BUFFERS}" by (simp add: kernel_ok_def RX_IOCP_NUM_BUFFERS_def)
  from iocp_loop_sequential [OF _ this, of "\<lambda>_. True" "\<lambda>_ _ h. Some h" 0 "fresh_rx demo_config 0" demo_world]
  show ?thesis by (auto simp: win32_exits_def)
qed

text \<open>C39: when one of the 64 initial receives cannot be posted, the Windows receive
  thread logs it and returns at once, whatever the schedule; the receiver it leaves is
  unchanged, still marked running, so a later \<open>st2110rx_start\<close> returns \<open>ST2110RX_OK\<close>
  without starting anything.\<close>

lemma iocp_prime_failure_is_silent:
  assumes "i < RX_IOCP_NUM_BUFFERS" and "\<not> ok i" and "r_running rx"
  shows "\<exists>w' p. rx_receiver_loop_win32 user_cb err ok ts rx w = Some (True, rx, w', p)
    \<and> st2110rx_start env WIN32 (Some rx) w' = Some (ST2110RX_OK, Some rx, w')"
  using win32_loop_prime_failure [of i ok user_cb err ts rx w, OF assms(1,2)] assms(3)
  by (auto simp: st2110rx_start_def)

lemma iocp_prime_failure_is_silent_witness:
  "\<exists>w' p. rx_receiver_loop_win32 (\<lambda>_ _ h. Some h) 10055 (\<lambda>i. i \<noteq> 63) [] ((fresh_rx demo_config 0)\<lparr>r_running := True\<rparr>) demo_world
    = Some (True, (fresh_rx demo_config 0)\<lparr>r_running := True\<rparr>, w', p)"
  using iocp_prime_failure_is_silent [of 63 "\<lambda>i. i \<noteq> 63" "(fresh_rx demo_config 0)\<lparr>r_running := True\<rparr>"
      "\<lambda>_ _ h. Some h" 10055 "[]" demo_world demo_env]
  by (auto simp: RX_IOCP_NUM_BUFFERS_def)

end
