(* ===== verification/Rx_Threads.thy ===== *)
theory Rx_Threads
  imports Rx_Session
begin

text \<open>
  The receive thread of \<open>rx_core.c\<close> on POSIX and a client thread that stops and destroys the
  receiver, as interleaved steps: one step per access to \<open>running\<close> or \<open>sock\<close> and per call.
  The fields of the receiver only the thread uses (assembler, statistics, buffers) are
  \<open>v_rx\<close> and the heap; \<open>turns\<close> is history, read by no step. The thread is taken up after its
  call of \<open>rx_thread_set_high_priority\<close>, which touches none of this.

  There are three parties: \<open>thread_step\<close> is what the thread does by itself or because of what
  the client did to its socket, \<open>stop_step\<close> is the client, and \<open>network_step\<close> is what nobody
  can count on, a datagram or an error that ends a \<open>recvfrom\<close>. That something gets done is
  said of the first two only.

  Two more things are up to the system. \<open>wakes\<close> says whether closing a socket wakes a
  \<open>recvfrom\<close> that another thread is blocked in; it is false on Linux. A number that was
  closed is taken not to be handed out again before the thread has ended.
\<close>

section \<open>The code\<close>

datatype thread_pc =
    T_load                        \<comment> \<open>the loop condition\<close>
  | T_call                        \<comment> \<open>about to call \<open>recvfrom\<close>\<close>
  | T_recv bool                   \<comment> \<open>in \<open>recvfrom\<close>; whether its socket was open at the call\<close>
  | T_check                       \<comment> \<open>\<open>n <= 0\<close>: the second load\<close>
  | T_packet "byte list" u64      \<comment> \<open>a datagram to process, and the clock\<close>
  | T_done

datatype stop_pc =
    S_idle                        \<comment> \<open>between \<open>start\<close> and \<open>stop\<close>\<close>
  | S_close                       \<comment> \<open>\<open>running\<close> is 0, the socket is to be closed\<close>
  | S_forget                      \<comment> \<open>closed, \<open>sock\<close> not yet overwritten\<close>
  | S_join
  | S_free                        \<comment> \<open>stopped; the rest of \<open>st2110rx_destroy\<close>\<close>
  | S_end

record 'z threads =
  v_running :: bool
  v_sock :: rx_socket_t
  v_open :: bool                  \<comment> \<open>the socket, not the field\<close>
  v_rx :: st2110rx
  v_world :: "'z world_scheme"
  t_pc :: thread_pc
  s_pc :: stop_pc
  turns :: "recv_turn list"

definition threads_init :: "st2110rx \<Rightarrow> 'z world_scheme \<Rightarrow> 'z threads" where
  "threads_init rx w = \<lparr>v_running = True, v_sock = r_sock rx, v_open = True, v_rx = rx, v_world = w,
     t_pc = T_load, s_pc = S_idle, turns = []\<rparr>"

text \<open>\<open>recvfrom\<close> into the packet buffer, which cuts the datagram, and \<open>rx_process_packet\<close> on it.\<close>

definition handle_datagram ::
    "'z user_cb \<Rightarrow> byte list \<Rightarrow> u64 \<Rightarrow> st2110rx \<Rightarrow> 'z heap_scheme \<Rightarrow> (st2110rx \<times> 'z heap_scheme) option" where
  "handle_datagram user_cb d now_us rx h =
     (let bs = take (r_pkt_buf_size rx) d
      in do { h \<leftarrow> store h (r_pkt_buf rx) 0 bs;
              buf \<leftarrow> contents h (r_pkt_buf rx);
              pkt \<leftarrow> rd_range buf 0 (length bs);
              rx_process_packet user_cb now_us pkt rx h })"

abbreviation turn_of :: "bool \<Rightarrow> recv_answer \<Rightarrow> bool \<Rightarrow> u64 \<Rightarrow> recv_turn" where
  "turn_of a b c n \<equiv> \<lparr>t_running = a, t_answer = b, t_running2 = c, t_now = n\<rparr>"

inductive thread_step :: "'z world_ext user_cb \<Rightarrow> bool \<Rightarrow> 'z threads \<Rightarrow> 'z threads \<Rightarrow> bool" for user_cb wakes where
  load_stop: "t_pc s = T_load \<Longrightarrow> \<not> v_running s \<Longrightarrow>
     thread_step user_cb wakes s (s\<lparr>t_pc := T_done, turns := turns s @ [turn_of False Recv_none False 0]\<rparr>)"
| load_go: "t_pc s = T_load \<Longrightarrow> v_running s \<Longrightarrow> thread_step user_cb wakes s (s\<lparr>t_pc := T_call\<rparr>)"
| call: "t_pc s = T_call \<Longrightarrow>
     thread_step user_cb wakes s (s\<lparr>t_pc := T_recv (v_sock s \<noteq> RX_INVALID_SOCKET \<and> v_open s)\<rparr>)"
| refused: "t_pc s = T_recv False \<Longrightarrow> thread_step user_cb wakes s (s\<lparr>t_pc := T_check\<rparr>)"
| woken: "t_pc s = T_recv True \<Longrightarrow> \<not> v_open s \<Longrightarrow> wakes \<Longrightarrow> thread_step user_cb wakes s (s\<lparr>t_pc := T_check\<rparr>)"
| check_stop: "t_pc s = T_check \<Longrightarrow> \<not> v_running s \<Longrightarrow>
     thread_step user_cb wakes s (s\<lparr>t_pc := T_done, turns := turns s @ [turn_of True Recv_none False 0]\<rparr>)"
| check_go: "t_pc s = T_check \<Longrightarrow> v_running s \<Longrightarrow>
     thread_step user_cb wakes s (s\<lparr>t_pc := T_load, turns := turns s @ [turn_of True Recv_none True 0]\<rparr>)"
| packet: "t_pc s = T_packet d now_us \<Longrightarrow> handle_datagram user_cb d now_us (v_rx s) (v_world s) = Some (rx', w') \<Longrightarrow>
     thread_step user_cb wakes s (s\<lparr>t_pc := T_load, v_rx := rx', v_world := w',
       turns := turns s @ [turn_of True (Recv_bytes d) True now_us]\<rparr>)"

text \<open>How else a \<open>recvfrom\<close> returns: with a datagram, or with an error on an open socket.\<close>

inductive network_step :: "'z threads \<Rightarrow> 'z threads \<Rightarrow> bool" where
  data: "t_pc s = T_recv True \<Longrightarrow> take (r_pkt_buf_size (v_rx s)) d \<noteq> [] \<Longrightarrow>
     network_step s (s\<lparr>t_pc := T_packet d now_us\<rparr>)"
| error: "t_pc s = T_recv True \<Longrightarrow> v_open s \<Longrightarrow> network_step s (s\<lparr>t_pc := T_check\<rparr>)"

text \<open>\<open>st2110rx_stop\<close>, and what \<open>st2110rx_destroy\<close> does after it.\<close>

inductive stop_step :: "'z threads \<Rightarrow> 'z threads \<Rightarrow> bool" where
  stop: "s_pc s = S_idle \<Longrightarrow> stop_step s (s\<lparr>v_running := False, s_pc := S_close\<rparr>)"
| close: "s_pc s = S_close \<Longrightarrow> stop_step s (s\<lparr>v_open := False, s_pc := S_forget\<rparr>)"
| forget: "s_pc s = S_forget \<Longrightarrow> stop_step s (s\<lparr>v_sock := RX_INVALID_SOCKET, s_pc := S_join\<rparr>)"
| join: "s_pc s = S_join \<Longrightarrow> t_pc s = T_done \<Longrightarrow> stop_step s (s\<lparr>s_pc := S_free\<rparr>)"
| free: "s_pc s = S_free \<Longrightarrow> free_receiver (v_rx s) (v_world s) = Some w' \<Longrightarrow>
     stop_step s (s\<lparr>v_world := w', s_pc := S_end\<rparr>)"

inductive_cases thread_stepE [elim]: "thread_step user_cb wakes s t"
inductive_cases network_stepE [elim]: "network_step s t"
inductive_cases stop_stepE [elim]: "stop_step s t"

inductive threads_step :: "'z world_ext user_cb \<Rightarrow> bool \<Rightarrow> 'z threads \<Rightarrow> 'z threads \<Rightarrow> bool" for user_cb wakes where
  by_thread: "thread_step user_cb wakes s t \<Longrightarrow> threads_step user_cb wakes s t"
| by_network: "network_step s t \<Longrightarrow> threads_step user_cb wakes s t"
| by_client: "stop_step s t \<Longrightarrow> threads_step user_cb wakes s t"

inductive threads_reach :: "'z world_ext user_cb \<Rightarrow> bool \<Rightarrow> st2110rx \<Rightarrow> 'z world_scheme \<Rightarrow> 'z threads \<Rightarrow> bool"
    for user_cb wakes rx w where
  started: "threads_reach user_cb wakes rx w (threads_init rx w)"
| stepped: "threads_reach user_cb wakes rx w s \<Longrightarrow> threads_step user_cb wakes s t \<Longrightarrow> threads_reach user_cb wakes rx w t"

section \<open>The thread's run is a run of the loop\<close>

lemma loop_append:
  "rx_receiver_loop user_cb ts rx h = Some (False, rx1, h1) \<Longrightarrow>
     rx_receiver_loop user_cb (ts @ us) rx h = rx_receiver_loop user_cb us rx1 h1"
proof (induction user_cb ts rx h rule: rx_receiver_loop.induct)
  case (2 user_cb t ts rx h)
  then show ?case by (auto simp: Let_def Option.bind_eq_Some_conv split: if_splits)
qed simp

lemma loop_turn:
  assumes "rx_receiver_loop user_cb ts rx h = Some (False, rx1, h1)"
  shows "rx_receiver_loop user_cb (ts @ [turn_of False Recv_none False 0]) rx h = Some (True, rx1, h1)"
    and "rx_receiver_loop user_cb (ts @ [turn_of True Recv_none b 0]) rx h = Some (\<not> b, rx1, h1)"
    and "take (r_pkt_buf_size rx1) d \<noteq> [] \<Longrightarrow> handle_datagram user_cb d now_us rx1 h1 = Some (rx2, h2) \<Longrightarrow>
      rx_receiver_loop user_cb (ts @ [turn_of True (Recv_bytes d) True now_us]) rx h = Some (False, rx2, h2)"
  using loop_append [OF assms]
  by (auto simp: handle_datagram_def Let_def Option.bind_eq_Some_conv)

text \<open>
  The invariant: the stop request comes before the socket is closed, the join before the
  memory is freed; and until then the thread is where the loop is on the schedule so far.
\<close>

definition threads_inv :: "'z world_ext user_cb \<Rightarrow> st2110rx \<Rightarrow> 'z world_scheme \<Rightarrow> 'z threads \<Rightarrow> bool" where
  "threads_inv user_cb rx w s \<longleftrightarrow>
     (v_running s \<longleftrightarrow> s_pc s = S_idle) \<and> (s_pc s \<in> {S_free, S_end} \<longrightarrow> t_pc s = T_done)
     \<and> (v_open s \<longleftrightarrow> s_pc s \<in> {S_idle, S_close})
     \<and> (s_pc s \<noteq> S_end \<longrightarrow> rx_receiver_loop user_cb (turns s) rx w = Some (t_pc s = T_done, v_rx s, v_world s))
     \<and> (case t_pc s of T_packet d now_us \<Rightarrow> take (r_pkt_buf_size (v_rx s)) d \<noteq> [] | _ \<Rightarrow> True)"

lemma threads_inv_thread:
  assumes "thread_step user_cb wakes s t" and "threads_inv user_cb rx w s"
  shows "threads_inv user_cb rx w t"
  using assms(1)
proof cases
  case load_stop
  then show ?thesis using assms(2) by (auto simp: threads_inv_def loop_turn(1))
next
  case check_stop
  then show ?thesis using assms(2) by (auto simp: threads_inv_def loop_turn(2))
next
  case check_go
  then show ?thesis using assms(2) by (auto simp: threads_inv_def loop_turn(2))
next
  case (packet d now_us rx' w')
  then show ?thesis using assms(2) by (auto simp: threads_inv_def loop_turn(3))
qed (use assms(2) in \<open>auto simp: threads_inv_def\<close>)

lemma threads_inv_network: "network_step s t \<Longrightarrow> threads_inv user_cb rx w s \<Longrightarrow> threads_inv user_cb rx w t"
  by (elim network_stepE) (auto simp: threads_inv_def)

lemma threads_inv_stop: "stop_step s t \<Longrightarrow> threads_inv user_cb rx w s \<Longrightarrow> threads_inv user_cb rx w t"
  by (elim stop_stepE) (auto simp: threads_inv_def split: thread_pc.splits)

lemma threads_reach_inv: "threads_reach user_cb wakes rx w s \<Longrightarrow> threads_inv user_cb rx w s"
proof (induction rule: threads_reach.induct)
  case started
  then show ?case by (simp add: threads_inv_def threads_init_def)
next
  case (stepped s t)
  then show ?case by (auto elim!: threads_step.cases intro: threads_inv_thread threads_inv_network threads_inv_stop)
qed

section \<open>No step goes wrong\<close>

text \<open>The schedule with the datagram that is being processed.\<close>

definition all_turns :: "'z threads \<Rightarrow> recv_turn list" where
  "all_turns s = turns s @ (case t_pc s of T_packet d now_us \<Rightarrow> [turn_of True (Recv_bytes d) True now_us] | _ \<Rightarrow> [])"

definition next_defined :: "'z world_ext user_cb \<Rightarrow> 'z threads \<Rightarrow> bool" where
  "next_defined user_cb s \<longleftrightarrow>
     (case t_pc s of T_packet d now_us \<Rightarrow> handle_datagram user_cb d now_us (v_rx s) (v_world s) \<noteq> None | _ \<Rightarrow> True)
     \<and> (s_pc s = S_free \<longrightarrow> free_receiver (v_rx s) (v_world s) \<noteq> None)"

lemma loop_defined_handles:
  assumes "rx_receiver_loop user_cb ts rx w = Some (False, rx1, w1)" and "take (r_pkt_buf_size rx1) d \<noteq> []"
    and "rx_receiver_loop user_cb (ts @ [turn_of True (Recv_bytes d) True now_us]) rx w \<noteq> None"
  shows "handle_datagram user_cb d now_us rx1 w1 \<noteq> None"
  using assms(2,3) unfolding loop_append [OF assms(1)]
  by (auto simp: handle_datagram_def Let_def split: bind_splits)

lemma threads_defined:
  fixes w :: "'z world_scheme"
  assumes client: "\<And>s. receiver_client (user_cb s) ok {} (\<lambda>_. True) seen_by observe rx"
    and ready: "thread_ready POSIX ok R c n rx w" and c: "valid_config c"
    and okD: "\<And>h. ok h \<Longrightarrow> heap_wf h \<and> trace h = trace w"
    and B: "47721858845 \<le> B" "B < 2 ^ 53"
    and clock: "steady_clock t0 B (map fst (loop_input (r_pkt_buf_size rx) (all_turns s)))"
    and reach: "threads_reach user_cb wakes rx w s"
  shows "next_defined user_cb s"
proof -
  note inv = threads_reach_inv [OF reach, unfolded threads_inv_def]
  obtain b rx' w' where all: "rx_receiver_loop user_cb (all_turns s) rx w = Some (b, rx', w')" "life_inv POSIX R rx' w'"
    using session_loop [where user_cb = user_cb and ok = ok and seen_by = seen_by and observe = observe,
        OF client ready c okD B clock] by metis
  show ?thesis
  proof (cases "t_pc s")
    case (T_packet d now_us)
    then have "s_pc s \<noteq> S_end" "s_pc s \<noteq> S_free" using inv by auto
    moreover have "handle_datagram user_cb d now_us (v_rx s) (v_world s) \<noteq> None"
      using loop_defined_handles [of user_cb "turns s" rx w "v_rx s" "v_world s" d now_us] inv T_packet all(1) calculation
      by (simp add: all_turns_def)
    ultimately show ?thesis using T_packet by (simp add: next_defined_def)
  next
    case T_done
    have "free_receiver (v_rx s) (v_world s) \<noteq> None" if "s_pc s = S_free"
      using inv that all free_owned T_done by (auto simp: all_turns_def life_inv_def)
    then show ?thesis using T_done by (simp add: next_defined_def)
  qed (use inv in \<open>auto simp: next_defined_def\<close>)
qed

section \<open>Stopping ends\<close>

text \<open>The steps that are left once the stop has been requested.\<close>

fun thread_fuel :: "thread_pc \<Rightarrow> nat" where
  "thread_fuel T_call = 4"
| "thread_fuel (T_recv b) = 3"
| "thread_fuel (T_packet d n) = 2"
| "thread_fuel T_load = 1"
| "thread_fuel T_check = 1"
| "thread_fuel T_done = 0"

fun stop_fuel :: "stop_pc \<Rightarrow> nat" where
  "stop_fuel S_idle = 5"
| "stop_fuel S_close = 4"
| "stop_fuel S_forget = 3"
| "stop_fuel S_join = 2"
| "stop_fuel S_free = 1"
| "stop_fuel S_end = 0"

definition threads_fuel :: "'z threads \<Rightarrow> nat" where
  "threads_fuel s = thread_fuel (t_pc s) + stop_fuel (s_pc s)"

lemma threads_fuel_bound: "s_pc s \<noteq> S_idle \<Longrightarrow> threads_fuel s \<le> 8"
  by (cases "t_pc s"; cases "s_pc s") (simp_all add: threads_fuel_def)

lemma threads_fuel_step:
  assumes "threads_step user_cb wakes s t" and "threads_inv user_cb rx w s" and "s_pc s \<noteq> S_idle"
  shows "threads_fuel t < threads_fuel s \<and> s_pc t \<noteq> S_idle"
  using assms(1)
proof cases
  case by_thread
  then show ?thesis using assms(2,3) by (elim thread_stepE) (auto simp: threads_fuel_def threads_inv_def)
next
  case by_network
  then show ?thesis using assms(3) by (elim network_stepE) (auto simp: threads_fuel_def)
next
  case by_client
  then show ?thesis using assms(3) by (elim stop_stepE) (auto simp: threads_fuel_def)
qed

lemma threads_fuel_steps:
  assumes "threads_reach user_cb wakes rx w s" and "s_pc s \<noteq> S_idle" and "(threads_step user_cb wakes ^^ n) s t"
  shows "threads_reach user_cb wakes rx w t \<and> n + threads_fuel t \<le> threads_fuel s \<and> s_pc t \<noteq> S_idle"
  using assms(3)
proof (induction n arbitrary: t)
  case 0
  then show ?case using assms(1,2) by simp
next
  case (Suc n)
  then obtain u where u: "(threads_step user_cb wakes ^^ n) s u" "threads_step user_cb wakes u t" by auto
  then show ?case
    using Suc.IH [OF u(1)] threads_fuel_step [OF u(2)] threads_reach_inv threads_reach.stepped by fastforce
qed

text \<open>
  Where closing wakes the thread, the thread or the client can always step until the end. A
  thread in a \<open>recvfrom\<close> on an open socket has no step of its own, so this rests on the
  client having closed the socket before it waits.
\<close>

lemma threads_progress:
  assumes inv: "threads_inv user_cb rx w s" and def: "next_defined user_cb s" and "s_pc s \<notin> {S_idle, S_end}"
  shows "\<exists>t. thread_step user_cb True s t \<or> stop_step s t"
proof (cases "t_pc s")
  case T_done
  then show ?thesis
    using assms(3) def by (cases "s_pc s") (auto simp: next_defined_def intro: stop_step.intros)
next
  case (T_packet d now_us)
  then show ?thesis using def by (auto simp: next_defined_def intro: thread_step.packet)
next
  case (T_recv opened)
  show ?thesis
  proof (cases "opened \<and> v_open s")
    case True
    then have "s_pc s = S_close" using inv assms(3) by (auto simp: threads_inv_def)
    then show ?thesis by (auto intro: stop_step.close)
  next
    case False
    then show ?thesis using T_recv by (cases opened) (auto intro: thread_step.refused thread_step.woken)
  qed
qed (use inv in \<open>auto simp: threads_inv_def intro: thread_step.intros\<close>)

end
