(* ===== verification/Rx_Entry.thy ===== *)
theory Rx_Entry
  imports Rx_Session Rx_Core_Iocp
begin

text \<open>
  The receive thread from its entry point to its return, on either platform, and what a
  client of the library gets out of a session with it. A client is an interface: a frame
  callback that meets the contract of a frame consumer and does not mind the events of the
  operating system. The command line tool and the plugin are its instances.
\<close>

section \<open>The thread\<close>

text \<open>What each load and call of the thread returns, on the platform it runs on.\<close>

record thread_schedule =
  posix_turns :: "recv_turn list"
  win_posts :: "nat \<Rightarrow> bool"            \<comment> \<open>the initial post of each buffer\<close>
  win_error :: int                      \<comment> \<open>the error code if one fails\<close>
  win_turns :: "win_turn list"

definition rx_thread_entry ::
    "platform \<Rightarrow> 'z world_ext user_cb \<Rightarrow> thread_schedule \<Rightarrow> st2110rx \<Rightarrow> 'z world_scheme
       \<Rightarrow> (bool \<times> st2110rx \<times> 'z world_scheme) option" where
  "rx_thread_entry pf user_cb sch rx w =
     (let w = rx_thread_set_high_priority pf w
      in case pf of
           POSIX \<Rightarrow> rx_receiver_loop user_cb (posix_turns sch) rx w
         | WIN32 \<Rightarrow>
             do { (exited, rx, w, posted) \<leftarrow>
                    rx_receiver_loop_win32 user_cb (win_error sch) (win_posts sch) (win_turns sch) rx w;
                  Some (exited, rx, w) })"

text \<open>The datagrams it gets, with their times, for a packet buffer of \<open>cap\<close> bytes.\<close>

definition primes :: "thread_schedule \<Rightarrow> bool" where
  "primes sch \<longleftrightarrow> (\<forall>i < RX_IOCP_NUM_BUFFERS. win_posts sch i)"

definition thread_input :: "platform \<Rightarrow> nat \<Rightarrow> thread_schedule \<Rightarrow> (u64 \<times> byte list) list" where
  "thread_input pf cap sch =
     (case pf of POSIX \<Rightarrow> loop_input cap (posix_turns sch)
      | WIN32 \<Rightarrow> if primes sch then win32_input (win_turns sch) else [])"

text \<open>On Windows the kernel completes only the buffers it was given.\<close>

definition schedule_ok :: "platform \<Rightarrow> thread_schedule \<Rightarrow> bool" where
  "schedule_ok pf sch \<longleftrightarrow> (pf = WIN32 \<longrightarrow> kernel_ok (win_turns sch) {..<RX_IOCP_NUM_BUFFERS})"

section \<open>Clients\<close>

text \<open>What a session that got the datagrams \<open>ps\<close> leaves: the receiver, its memory, and what the client saw.\<close>

definition session_result ::
    "(os_event list \<Rightarrow> 'z world_scheme \<Rightarrow> bool) \<Rightarrow> ('z world_scheme \<Rightarrow> 'o list) \<Rightarrow> (seen_frame \<Rightarrow> 'o list)
       \<Rightarrow> platform \<Rightarrow> resource multiset \<Rightarrow> st2110rx_config_t \<Rightarrow> byte list list
       \<Rightarrow> st2110rx \<Rightarrow> 'z world_scheme \<Rightarrow> st2110rx \<Rightarrow> 'z world_scheme \<Rightarrow> bool" where
  "session_result ok seen_by observe pf R c ps rx w rx' w' \<longleftrightarrow>
     life_inv pf R rx' w' \<and> set (owned rx') = set (owned rx)
     \<and> (\<forall>p. p \<notin> set (owned rx) \<longrightarrow> contents w' p = contents w p) \<and> ok (trace w') w'
     \<and> seen_by w' = seen_by w @ concat (map observe (session_frames c ps))"

locale session_client =
  fixes user_cb :: "'z world_ext user_cb" and ok :: "os_event list \<Rightarrow> 'z world_scheme \<Rightarrow> bool"
    and seen_by :: "'z world_scheme \<Rightarrow> 'o list" and observe :: "seen_frame \<Rightarrow> 'o list"
  assumes client: "receiver_client (user_cb s) (ok tr) {} (\<lambda>_. True) seen_by observe rx"
    and ok_world: "ok tr w \<Longrightarrow> heap_wf w \<and> trace w = tr"
    and ok_emit: "ok (trace w) w \<Longrightarrow> ok (trace w @ [e]) (emit e w)"
    and seen_emit: "seen_by (emit e w) = seen_by w"
begin

lemma ok_log: "ok (trace w) w \<Longrightarrow> ok (trace (rx_log c l m w)) (rx_log c l m w)"
  using ok_emit by (simp add: rx_log_def)

lemma seen_log: "seen_by (rx_log c l m w) = seen_by w"
  by (simp add: rx_log_def seen_emit)

lemma ok_ready: "thread_ready pf (ok (trace w)) R c n rx w \<Longrightarrow> ok (trace w) w"
  by (simp add: thread_ready_def packet_inv_def sink_inv_def)

lemma ready_emit:
  assumes "thread_ready pf (ok (trace w)) R c n rx w" and "life_inv pf R rx (emit e w)"
  shows "thread_ready pf (ok (trace (emit e w))) R c n rx (emit e w)"
  using assms ok_emit [OF ok_ready [OF assms(1)], of e]
  by (auto simp: thread_ready_def packet_inv_def sink_inv_def asm_inv_def asm_buffers_def convert_ready_def
      pkt_ready_def asm_abs_def)

lemma ready_priority:
  assumes "thread_ready pf (ok (trace w)) R c n rx w"
  shows "thread_ready pf (ok (trace (rx_thread_set_high_priority pf w))) R c n rx (rx_thread_set_high_priority pf w)"
proof -
  obtain e where e: "rx_thread_set_high_priority pf w = emit (Sys_set_priority e) w"
    using set_high_priority_emit by blast
  have "life_inv pf R rx w" using assms by (simp add: thread_ready_def)
  then have "life_inv pf R rx (emit (Sys_set_priority e) w)"
    using holding_priority [of pf w] unfolding e by (simp add: life_inv_def owns_def heap_wf_def)
  then show ?thesis unfolding e by (rule ready_emit [OF assms])
qed

text \<open>A session of the thread on POSIX, and one on Windows whose buffers could be posted, or could not.\<close>

lemma session_posix:
  assumes ready: "thread_ready POSIX (ok (trace w)) R c n rx w" and c: "valid_config c"
    and B: "47721858845 \<le> B" "B < 2 ^ 53" and clock: "steady_clock t0 B (map fst (loop_input (r_pkt_buf_size rx) ts))"
  shows "\<exists>exited rx' w'. rx_receiver_loop user_cb ts rx w = Some (exited, rx', w')
    \<and> session_result ok seen_by observe POSIX R c (map snd (loop_input (r_pkt_buf_size rx) ts)) rx w rx' w'"
proof -
  obtain rx' w' where l: "rx_receiver_loop user_cb ts rx w = Some (loop_exits (r_pkt_buf_size rx) ts, rx', w')"
      "life_inv POSIX R rx' w'" "set (owned rx') = set (owned rx)"
      "\<And>p. p \<notin> set (owned rx) \<Longrightarrow> contents w' p = contents w p" "ok (trace w) w'"
      "seen_by w' = seen_by w @ concat (map observe (session_frames c (map snd (loop_input (r_pkt_buf_size rx) ts))))"
    using session_loop [where user_cb = user_cb and ok = "ok (trace w)" and seen_by = seen_by and observe = observe,
        OF client ready c ok_world B clock] by metis
  moreover have "trace w' = trace w" using ok_world [OF l(5)] by simp
  ultimately show ?thesis by (auto simp: session_result_def)
qed

lemma session_win32:
  assumes ready: "thread_ready WIN32 (ok (trace w)) R c n rx w" and c: "valid_config c"
    and sch: "kernel_ok ts {..<RX_IOCP_NUM_BUFFERS}" and posts: "\<forall>i < RX_IOCP_NUM_BUFFERS. posts i"
    and B: "47721858845 \<le> B" "B < 2 ^ 53" and clock: "steady_clock t0 B (map fst (win32_input ts))"
  shows "\<exists>exited rx' w' q. rx_receiver_loop_win32 user_cb err posts ts rx w = Some (exited, rx', w', q)
    \<and> session_result ok seen_by observe WIN32 R c (map snd (win32_input ts)) rx w rx' w'"
proof -
  obtain rx' w' where l: "receive user_cb (win32_input ts) rx w = Some (rx', w')"
      "life_inv WIN32 R rx' w'" "set (owned rx') = set (owned rx)"
      "\<And>p. p \<notin> set (owned rx) \<Longrightarrow> contents w' p = contents w p" "ok (trace w) w'"
      "seen_by w' = seen_by w @ concat (map observe (session_frames c (map snd (win32_input ts))))"
    using session_receive [where user_cb = user_cb and ok = "ok (trace w)" and seen_by = seen_by and observe = observe,
        OF client ready c ok_world B clock] by metis
  moreover have "trace w' = trace w" using ok_world [OF l(5)] by simp
  moreover have "\<exists>q. rx_receiver_loop_win32 user_cb err posts ts rx w = Some (win32_exits ts, rx', w', q)"
    using win32_loop_eq [of posts ts user_cb err rx w] posts sch l(1) by auto
  ultimately show ?thesis by (auto simp: session_result_def)
qed

lemma session_not_primed:
  assumes ready: "thread_ready WIN32 (ok (trace w)) R c n rx w" and fail: "i < RX_IOCP_NUM_BUFFERS" "\<not> posts i"
  shows "\<exists>exited rx' w' q. rx_receiver_loop_win32 user_cb err posts ts rx w = Some (exited, rx', w', q)
    \<and> session_result ok seen_by observe WIN32 R c [] rx w rx' w'"
proof -
  let ?w = "rx_log (r_config rx) ST2110RX_LOG_ERROR (Msg_prime_failed err) w"
  have "\<exists>q. rx_receiver_loop_win32 user_cb err posts ts rx w = Some (True, rx, ?w, q)"
    using win32_loop_prime_failure [of i posts, OF fail, of user_cb err ts rx w] by blast
  moreover have "ok (trace ?w) ?w" using ok_ready [OF ready] by (rule ok_log)
  moreover have "life_inv WIN32 R rx ?w" using ready by (simp add: thread_ready_def life_inv_log)
  ultimately show ?thesis by (auto simp: session_result_def session_frames_def seen_log)
qed

text \<open>A session: the thread returns what the specification makes of its datagrams.\<close>

lemma session_entry:
  assumes ready: "thread_ready pf (ok (trace w)) R c n rx w" and c: "valid_config c"
    and sch: "schedule_ok pf sch" and B: "47721858845 \<le> B" "B < 2 ^ 53"
    and clock: "steady_clock t0 B (map fst (thread_input pf (r_pkt_buf_size rx) sch))"
  shows "\<exists>exited rx' w'. rx_thread_entry pf user_cb sch rx w = Some (exited, rx', w')
    \<and> session_result ok seen_by observe pf R c (map snd (thread_input pf (r_pkt_buf_size rx) sch)) rx w rx' w'"
proof -
  let ?w = "rx_thread_set_high_priority pf w"
  note ready' = ready_priority [OF ready]
  have "\<exists>e. ?w = emit e w" using set_high_priority_emit by blast
  then have sw: "contents ?w p = contents w p" "seen_by ?w = seen_by w" for p by (auto simp: seen_emit)
  have same: "session_result ok seen_by observe pf R c ps rx ?w rx' w' = session_result ok seen_by observe pf R c ps rx w rx' w'"
    for ps rx' w' by (simp add: session_result_def sw)
  show ?thesis
  proof (cases pf)
    case POSIX
    from session_posix [OF ready' [unfolded POSIX] c B clock [unfolded thread_input_def POSIX platform.case]] show ?thesis
      using same by (auto simp: rx_thread_entry_def POSIX thread_input_def)
  next
    case win: WIN32
    show ?thesis
    proof (cases "primes sch")
      case True
      from session_win32 [OF ready' [unfolded win] c _ _ B, of "win_turns sch" "win_posts sch" t0 "win_error sch"] show ?thesis
        using same True sch clock
        by (fastforce simp: rx_thread_entry_def win thread_input_def primes_def schedule_ok_def)
    next
      case False
      then obtain i where "i < RX_IOCP_NUM_BUFFERS" "\<not> win_posts sch i" by (auto simp: primes_def)
      from session_not_primed [OF ready' [unfolded win], of i "win_posts sch" "win_error sch" "win_turns sch", OF this] show ?thesis
        using same False by (fastforce simp: rx_thread_entry_def win thread_input_def)
    qed
  qed
qed

lemma session_thread:
  assumes "thread_ready pf (ok (trace w)) R c n rx w" and "valid_config c" and "schedule_ok pf sch"
    and "47721858845 \<le> B" and "B < 2 ^ 53"
    and "steady_clock t0 B (map fst (thread_input pf (r_pkt_buf_size rx) sch))"
  obtains exited rx' w' where "rx_thread_entry pf user_cb sch rx w = Some (exited, rx', w')"
    and "life_inv pf R rx' w'" and "set (owned rx') = set (owned rx)"
    and "\<And>p. p \<notin> set (owned rx) \<Longrightarrow> contents w' p = contents w p" and "ok (trace w') w'"
    and "seen_by w' = seen_by w @ concat (map observe
           (session_frames c (map snd (thread_input pf (r_pkt_buf_size rx) sch))))"
  using session_entry [OF assms] unfolding session_result_def by blast

end

end
