(* ===== verification/Tool_Args.thy ===== *)
theory Tool_Args
  imports Rx_Prelude "HOL-Library.Char_ord"
begin

text \<open>
  \<open>parse_u32\<close> of the two command line tools, on top of the C library's
  \<open>strtoul(s, &end, 10)\<close>. The width of \<open>unsigned long\<close> differs between the platforms
  the tools build on (64 bits on Linux, 32 on Windows) and is an argument.
\<close>

section \<open>The code\<close>

definition is_space :: "char \<Rightarrow> bool" where
  "is_space c \<longleftrightarrow> (of_char c :: nat) = 32 \<or> (9 \<le> (of_char c :: nat) \<and> (of_char c :: nat) \<le> 13)"

definition is_digit :: "char \<Rightarrow> bool" where
  "is_digit c \<longleftrightarrow> 48 \<le> (of_char c :: nat) \<and> (of_char c :: nat) \<le> 57"

definition digit_value :: "char \<Rightarrow> nat" where
  "digit_value c = of_char c - 48"

definition digits_value :: "string \<Rightarrow> nat" where
  "digits_value ds = foldl (\<lambda>v c. 10 * v + digit_value c) 0 ds"

text \<open>The sign, and what follows it.\<close>

fun split_sign :: "string \<Rightarrow> bool \<times> string" where
  "split_sign (c # cs) = (if c = CHR ''-'' then (True, cs) else if c = CHR ''+'' then (False, cs) else (False, c # cs))"
| "split_sign [] = (False, [])"

text \<open>
  The value and the rest of the string (\<open>end\<close>); \<open>None\<close> when there are no digits, where
  \<open>end == s\<close>. A value out of range gives the largest \<open>unsigned long\<close>; a minus sign
  negates in \<open>unsigned long\<close>.
\<close>

definition strtoul :: "nat \<Rightarrow> string \<Rightarrow> (nat \<times> string) option" where
  "strtoul bits s =
     (let (neg, t) = split_sign (dropWhile is_space s);
          ds = takeWhile is_digit t;
          v = digits_value ds
      in if ds = [] then None
         else Some (if v \<ge> 2 ^ bits then 2 ^ bits - 1
                    else if neg then (2 ^ bits - v) mod 2 ^ bits else v,
                    dropWhile is_digit t))"

definition parse_u32 :: "nat \<Rightarrow> string \<Rightarrow> u32 option" where
  "parse_u32 bits s =
     (case strtoul bits s of
        None \<Rightarrow> None
      | Some (v, rest) \<Rightarrow> if rest \<noteq> [] \<or> v > 0xFFFFFFFF then None else Some (of_nat v))"

section \<open>Decimal numerals\<close>

fun decimal :: "nat \<Rightarrow> string" where
  "decimal n = (if n < 10 then [char_of (48 + n)] else decimal (n div 10) @ [char_of (48 + n mod 10)])"

declare decimal.simps [simp del]

lemma digit_char: "d < 10 \<Longrightarrow> is_digit (char_of (48 + d)) \<and> digit_value (char_of (48 + d)) = d"
  by (simp add: is_digit_def digit_value_def)

lemma digits_value_snoc: "digits_value (ds @ [c]) = 10 * digits_value ds + digit_value c"
  by (simp add: digits_value_def)

lemma decimal_digits: "list_all is_digit (decimal n) \<and> decimal n \<noteq> [] \<and> digits_value (decimal n) = n"
proof (induction n rule: decimal.induct)
  case (1 n)
  show ?case
  proof (cases "n < 10")
    case True
    then show ?thesis using digit_char [of n] by (subst (1 2 3) decimal.simps) (simp add: digits_value_def)
  next
    case False
    then show ?thesis using digit_char [of "n mod 10"] 1 False
      by (subst (1 2 3) decimal.simps) (simp add: digits_value_snoc)
  qed
qed

lemma digit_not_space: "is_digit c \<Longrightarrow> \<not> is_space c"
  by (simp add: is_digit_def is_space_def)

lemma digit_not_sign: "is_digit c \<Longrightarrow> c \<noteq> CHR ''-'' \<and> c \<noteq> CHR ''+''"
  by (auto simp: is_digit_def)

lemma strtoul_digits:
  assumes "list_all is_digit ds" and "ds \<noteq> []"
  shows "strtoul bits ds = Some (if digits_value ds \<ge> 2 ^ bits then 2 ^ bits - 1 else digits_value ds, [])"
proof -
  obtain c cs where ds: "ds = c # cs" using assms(2) by (cases ds) auto
  then have start: "dropWhile is_space ds = ds" "split_sign ds = (False, ds)"
    using assms(1) digit_not_space digit_not_sign by auto
  have all: "takeWhile is_digit ds = ds" "dropWhile is_digit ds = []"
    using assms(1) by (simp_all add: takeWhile_eq_all_conv dropWhile_eq_Nil_conv list_all_iff)
  show ?thesis
    unfolding strtoul_def start prod.case Let_def all using assms(2) by simp
qed

text \<open>Every 32-bit number written in decimal is read back.\<close>

lemma parse_decimal:
  assumes "32 \<le> bits"
  shows "parse_u32 bits (decimal (unat x)) = Some x"
proof -
  have "unat x < 2 ^ bits"
    using unat_u32_less [of x] assms power_increasing [of 32 bits "2 :: nat"] by simp
  then show ?thesis
    using decimal_digits [of "unat x"] strtoul_digits [of "decimal (unat x)" bits] unat_u32_less [of x]
    by (simp add: parse_u32_def)
qed

lemma split_sign_set: "split_sign u = (neg, t) \<Longrightarrow> set u \<subseteq> set t \<union> {CHR ''-'', CHR ''+''}"
  by (cases u) (auto split: if_splits)

text \<open>Text with a character that is neither white space, sign nor digit is refused.\<close>

lemma parse_u32_chars:
  assumes "parse_u32 bits s = Some x" and "c \<in> set s"
  shows "is_space c \<or> is_digit c \<or> c = CHR ''-'' \<or> c = CHR ''+''"
proof -
  let ?t = "dropWhile is_space s"
  obtain neg t where t: "split_sign ?t = (neg, t)" by (cases "split_sign ?t")
  have "dropWhile is_digit t = []"
    using assms(1) t by (auto simp: parse_u32_def strtoul_def Let_def split: if_splits)
  then have digits: "\<forall>c \<in> set t. is_digit c" by (simp add: dropWhile_eq_Nil_conv)
  have "set ?t \<subseteq> set t \<union> {CHR ''-'', CHR ''+''}" by (rule split_sign_set [OF t])
  moreover have "c \<in> set ?t \<or> is_space c"
    using assms(2) by (metis set_takeWhileD takeWhile_dropWhile_id Un_iff set_append)
  ultimately show ?thesis using digits by auto
qed

end
