(* ===== verification/Rx_Cli.thy ===== *)
theory Rx_Cli
  imports Rx_Entry Tool_Args
begin

text \<open>
  \<open>st2110rx-cli.c\<close>: the command line, the frame callback with its output file, and
  \<open>main\<close> from creating the receiver to destroying it. The global \<open>g_cli\<close> and the lines
  printed are fields of the world; so is the output file, whose writes succeed.
\<close>

section \<open>The command line\<close>

record cli_opts =
  o_addr :: string
  o_iface :: string
  o_output_path :: "string option"
  o_port :: u32
  o_width :: u32
  o_height :: u32
  o_count :: u32
  o_stats_every :: u32

definition cli_defaults :: cli_opts where
  "cli_defaults = \<lparr>o_addr = ''239.1.0.1'', o_iface = ''0.0.0.0'', o_output_path = None, o_port = 20000,
     o_width = 1920, o_height = 1080, o_count = 0, o_stats_every = 0\<rparr>"

text \<open>
  One option with a value; \<open>None\<close> is an unknown option or a value that is refused. Each
  number is read by \<open>parse_u32\<close>.
\<close>

definition cli_option :: "nat \<Rightarrow> string \<Rightarrow> string \<Rightarrow> cli_opts \<Rightarrow> cli_opts option" where
  "cli_option bits a v o' =
     (if a = ''--addr'' then Some (o'\<lparr>o_addr := v\<rparr>)
      else if a = ''--port'' then
        do { n \<leftarrow> parse_u32 bits v; if n > 65535 then None else Some (o'\<lparr>o_port := n\<rparr>) }
      else if a = ''--iface'' then Some (o'\<lparr>o_iface := v\<rparr>)
      else if a = ''--width'' then
        do { n \<leftarrow> parse_u32 bits v; if n = 0 then None else Some (o'\<lparr>o_width := n\<rparr>) }
      else if a = ''--height'' then
        do { n \<leftarrow> parse_u32 bits v; if n = 0 then None else Some (o'\<lparr>o_height := n\<rparr>) }
      else if a = ''--count'' then do { n \<leftarrow> parse_u32 bits v; Some (o'\<lparr>o_count := n\<rparr>) }
      else if a = ''--output'' then Some (o'\<lparr>o_output_path := Some v\<rparr>)
      else if a = ''--stats'' then do { n \<leftarrow> parse_u32 bits v; Some (o'\<lparr>o_stats_every := n\<rparr>) }
      else None)"

text \<open>The loop over \<open>argv\<close>: \<open>Inl\<close> is an exit code.\<close>

fun cli_args :: "nat \<Rightarrow> string list \<Rightarrow> cli_opts \<Rightarrow> nat + cli_opts" where
  "cli_args bits [] o' = Inr o'"
| "cli_args bits [a] o' = (if a = ''--help'' then Inl 0 else Inl 1)"
| "cli_args bits (a # v # rest) o' =
     (if a = ''--help'' then Inl 0
      else case cli_option bits a v o' of None \<Rightarrow> Inl 1 | Some o'' \<Rightarrow> cli_args bits rest o'')"

definition cli_config :: "cli_opts \<Rightarrow> st2110rx_config_t" where
  "cli_config o' = \<lparr>c_multicast_addr = Some (o_addr o'), c_port = ucast (o_port o'),
     c_interface_addr = Some (o_iface o'), c_width = o_width o', c_height = o_height o',
     c_input_fmt = ST2110RX_FMT_YCBCR422_10BIT, c_output_fmt = ST2110RX_FMT_UYVY,
     c_socket_buffer_size = 0, c_enable_jumbo = False, c_has_frame_cb = True, c_has_log_cb = False\<rparr>"

section \<open>The frame callback\<close>

datatype cli_line =
    Line_frame u32 u32 u32 u32 bool      \<comment> \<open>number, width, height, bytes, incomplete\<close>
  | Line_stats st2110rx_stats_t
  | Line_final st2110rx_stats_t

record cli_world = world +
  g_output :: "byte list option"         \<comment> \<open>the open output file, as written so far\<close>
  g_count_limit :: u32
  g_stats_every :: u32
  g_frames_seen :: u32
  g_stop_requested :: bool
  g_rx_set :: bool
  g_stdout :: "cli_line list"
  g_written :: "byte list option"        \<comment> \<open>the output file once it is closed\<close>

definition cli_frame_cb :: "'z cli_world_ext world_ext user_cb" where
  "cli_frame_cb stats frame h =
     do { let count = g_frames_seen h + 1;
          let h = h\<lparr>g_frames_seen := count,
                    g_stdout := g_stdout h @ [Line_frame (f_frame_number frame) (f_width frame) (f_height frame)
                                               (f_linesize frame ! 0 * f_height frame) (f_incomplete frame)]\<rparr>;
          h \<leftarrow> (case g_output h of
                 None \<Rightarrow> Some h
               | Some file \<Rightarrow>
                   do { buf \<leftarrow> contents h (f_data frame ! 0);
                        bytes \<leftarrow> rd_range buf 0 (unat (f_linesize frame ! 0) * unat (f_height frame));
                        Some (h\<lparr>g_output := Some (file @ bytes)\<rparr>) });
          let h = (if g_stats_every h > 0 \<and> count mod g_stats_every h = 0 \<and> g_rx_set h
                   then h\<lparr>g_stdout := g_stdout h @ [Line_stats (snapshot_of stats)]\<rparr> else h);
          Some (if g_count_limit h > 0 \<and> count \<ge> g_count_limit h then h\<lparr>g_stop_requested := True\<rparr> else h) }"

text \<open>Its memory is the world's, and it stores nothing there.\<close>

definition cli_ok :: "os_event list \<Rightarrow> bool \<Rightarrow> 'z cli_world_scheme \<Rightarrow> bool" where
  "cli_ok tr out h \<longleftrightarrow> heap_wf h \<and> trace h = tr \<and> (out \<longleftrightarrow> g_output h \<noteq> None)"

definition file_bytes :: "'z cli_world_scheme \<Rightarrow> byte list" where
  "file_bytes h = (case g_output h of None \<Rightarrow> [] | Some bs \<Rightarrow> bs)"

definition frame_line :: "seen_frame \<Rightarrow> cli_line" where
  "frame_line v = Line_frame (s_number v) (s_width v) (s_height v) (s_linesize v * s_height v) (s_incomplete v)"

definition frame_lines :: "'z cli_world_scheme \<Rightarrow> cli_line list" where
  "frame_lines h = filter (\<lambda>l. case l of Line_frame _ _ _ _ _ \<Rightarrow> True | _ \<Rightarrow> False) (g_stdout h)"

lemma store_keeps_wf: "store h p i ys = Some h' \<Longrightarrow> heap_wf h \<Longrightarrow> heap_wf h'"
  by (auto simp: store_def heap_wf_def split: option.splits if_splits)

lemma cli_store:
  "store h p i ys = Some h' \<Longrightarrow> cli_ok tr out h \<Longrightarrow> cli_ok tr out h'"
  "store h p i ys = Some h' \<Longrightarrow> file_bytes h' = file_bytes h"
  "store h p i ys = Some h' \<Longrightarrow> frame_lines h' = frame_lines h"
  by (auto simp: store_def cli_ok_def heap_wf_def file_bytes_def frame_lines_def split: option.splits if_splits)

lemma cli_frame_cb_result:
  assumes "cli_frame_cb st f h = Some h'"
  shows "blocks h' = blocks h" "next_blk h' = next_blk h" "trace h' = trace h"
    "g_output h' \<noteq> None \<longleftrightarrow> g_output h \<noteq> None"
  using assms
  by (auto simp: cli_frame_cb_def Let_def split: bind_splits option.splits if_splits)

lemma cli_frame_cb_log:
  assumes "cli_frame_cb st f h = Some h'" and "contents h (f_data f ! 0) = Some bs"
    and "frame_data_ok f h"
  shows "g_output h \<noteq> None \<Longrightarrow> file_bytes h' = file_bytes h @ bs"
    and "frame_lines h' = frame_lines h @ [frame_line (view_frame f bs)]"
    and "g_frames_seen h' = g_frames_seen h + 1"
  using assms
  by (auto simp: cli_frame_cb_def Let_def file_bytes_def frame_lines_def frame_line_def view_frame_def
      frame_data_ok_def rd_range_def contents_def split: bind_splits option.splits if_splits)

lemma cli_frame_cb_total:
  assumes "frame_data_ok f h"
  shows "cli_frame_cb st f h \<noteq> None"
  using assms
  by (auto simp: cli_frame_cb_def Let_def frame_data_ok_def rd_range_def contents_def
      split: bind_splits option.splits if_splits)

interpretation cli_file: frame_log "cli_frame_cb st" "cli_ok tr True" "{}" "\<lambda>_. True" file_bytes s_bytes
  for st :: rx_stats_state_t and tr :: "os_event list"
proof (unfold_locales, goal_cases)
  case (1 h f)
  then show ?case by (simp add: cli_frame_cb_total)
next
  case (2 h f h')
  then show ?case using cli_frame_cb_result [OF 2(3)] by (simp add: cli_ok_def heap_wf_def)
next
  case (3 h f h' p)
  then show ?case using cli_frame_cb_result [OF 3(3)] by (simp add: contents_def split: option.split)
next
  case (4 h p i ys h')
  then show ?case by (simp add: cli_store)
next
  case (5 h f bs h')
  then show ?case using cli_frame_cb_log(1) [OF 5(6,3,5)] by (simp add: cli_ok_def view_frame_def)
next
  case (6 p h i ys h')
  then show ?case by (simp add: cli_store)
qed

interpretation cli_stdout: frame_log "cli_frame_cb st" "cli_ok tr out" "{}" "\<lambda>_. True" frame_lines "\<lambda>v. [frame_line v]"
  for st :: rx_stats_state_t and tr :: "os_event list" and out :: bool
proof (unfold_locales, goal_cases)
  case (1 h f)
  then show ?case by (simp add: cli_frame_cb_total)
next
  case (2 h f h')
  then show ?case using cli_frame_cb_result [OF 2(3)] by (simp add: cli_ok_def heap_wf_def)
next
  case (3 h f h' p)
  then show ?case using cli_frame_cb_result [OF 3(3)] by (simp add: contents_def split: option.split)
next
  case (4 h p i ys h')
  then show ?case by (simp add: cli_store)
next
  case (5 h f bs h')
  then show ?case using cli_frame_cb_log(2) [OF 5(6,3,5)] by simp
next
  case (6 p h i ys h')
  then show ?case by (simp add: cli_store)
qed

interpretation cli_rx: receiver_client "cli_frame_cb st" "cli_ok tr True" "{}" "\<lambda>_. True" file_bytes s_bytes rx
  for st :: rx_stats_state_t and tr :: "os_event list" and rx :: st2110rx
  by unfold_locales simp

interpretation cli_rx_lines: receiver_client "cli_frame_cb st" "cli_ok tr out" "{}" "\<lambda>_. True" frame_lines
    "\<lambda>v. [frame_line v]" rx
  for st :: rx_stats_state_t and tr :: "os_event list" and out :: bool and rx :: st2110rx
  by unfold_locales simp

lemma cli_emit:
  "cli_ok tr out h \<Longrightarrow> heap_wf h \<and> trace h = tr" "cli_ok (trace h) out h \<Longrightarrow> cli_ok (trace h @ [e]) out (emit e h)"
  "file_bytes (emit e h) = file_bytes h" "frame_lines (emit e h) = frame_lines h"
  for h :: cli_world
  by (simp_all add: cli_ok_def heap_wf_def file_bytes_def frame_lines_def emit_def)

interpretation cli_recording: session_client cli_frame_cb "\<lambda>tr. cli_ok tr True" "file_bytes :: cli_world \<Rightarrow> byte list" s_bytes
  by unfold_locales (erule cli_emit(1), erule cli_emit(2), rule cli_emit(3))

interpretation cli_printing: session_client cli_frame_cb "\<lambda>tr. cli_ok tr out" "frame_lines :: cli_world \<Rightarrow> cli_line list"
    "\<lambda>v. [frame_line v]"
  for out :: bool
  by unfold_locales (erule cli_emit(1), erule cli_emit(2), rule cli_emit(4))

section \<open>The program\<close>

definition close_output :: "cli_world \<Rightarrow> cli_world" where
  "close_output w = (case g_output w of None \<Rightarrow> w | Some bs \<Rightarrow> w\<lparr>g_output := None, g_written := Some bs\<rparr>)"

definition print_final :: "st2110rx option \<Rightarrow> cli_world \<Rightarrow> cli_world" where
  "print_final rx w =
     (case st2110rx_get_stats rx True of
        (rc, Some stats) \<Rightarrow> if rc = ST2110RX_OK then w\<lparr>g_stdout := g_stdout w @ [Line_final stats]\<rparr> else w
      | _ \<Rightarrow> w)"

text \<open>
  The main thread sleeps until the callback has requested the stop, and otherwise until
  \<open>SIGINT\<close> arrives.
\<close>

definition signal_handler :: "cli_world \<Rightarrow> cli_world" where
  "signal_handler w = w\<lparr>g_stop_requested := True\<rparr>"

definition wait_for_stop :: "cli_world \<Rightarrow> cli_world" where
  "wait_for_stop w = (if g_stop_requested w then w else signal_handler w)"

text \<open>
  \<open>main\<close>. Its second half, from the creation of the receiver on, with the schedule of the
  receive thread between start and stop: the waiting of the main thread happens while it
  runs.
\<close>

definition cli_receive :: "os_env \<Rightarrow> platform \<Rightarrow> cli_opts \<Rightarrow> thread_schedule \<Rightarrow> cli_world \<Rightarrow> (nat \<times> cli_world) option" where
  "cli_receive env pf o' sch w =
     do { (rx, w) \<leftarrow> st2110rx_create env (Some (cli_config o')) w;
          if rx = None then Some (1, close_output w)
          else do {
            let w = w\<lparr>g_rx_set := True\<rparr>;
            (rc, rx, w) \<leftarrow> st2110rx_start env pf rx w;
            if rc \<noteq> ST2110RX_OK
            then do { w \<leftarrow> st2110rx_destroy pf rx w; Some (1, close_output w) }
            else case rx of None \<Rightarrow> None
            | Some r \<Rightarrow>
                do { (exited, r, w) \<leftarrow> rx_thread_entry pf cli_frame_cb sch r w;
                     let w = wait_for_stop w;
                     (rx, w) \<leftarrow> st2110rx_stop pf (Some r) w;
                     let w = print_final rx w;
                     w \<leftarrow> st2110rx_destroy pf rx w;
                     Some (0, close_output w) } } }"

text \<open>Its first half: the initial values, the arguments and the output file.\<close>

definition cli_main ::
    "os_env \<Rightarrow> platform \<Rightarrow> nat \<Rightarrow> string list \<Rightarrow> bool \<Rightarrow> thread_schedule \<Rightarrow> cli_world \<Rightarrow> (nat \<times> cli_world) option" where
  "cli_main env pf bits args fopen_ok sch w =
     (let w = w\<lparr>g_output := None, g_count_limit := 0, g_stats_every := 0, g_frames_seen := 0,
                g_stop_requested := False, g_rx_set := False\<rparr>
      in case cli_args bits args cli_defaults of
           Inl rc \<Rightarrow> Some (rc, w)
         | Inr o' \<Rightarrow>
             if o_output_path o' \<noteq> None \<and> \<not> fopen_ok then Some (1, w)
             else
               let w = w\<lparr>g_output := (if o_output_path o' = None then None else Some []),
                         g_count_limit := o_count o', g_stats_every := o_stats_every o'\<rparr>
               in cli_receive env pf o' sch w)"

section \<open>What the program does\<close>

text \<open>The receive thread, and the end of the program after it.\<close>

lemma life_inv_stdout: "life_inv pf R rx (w\<lparr>g_stdout := x\<rparr>) \<longleftrightarrow> life_inv pf R rx w" for w :: cli_world
  by (simp add: life_inv_def holding_def heap_wf_def owns_def contents_def split: option.split)

lemma wait_for_stop_eq: "\<exists>b. wait_for_stop w = w\<lparr>g_stop_requested := b\<rparr>"
proof -
  have "w = w\<lparr>g_stop_requested := g_stop_requested w\<rparr>" by simp
  then show ?thesis unfolding wait_for_stop_def signal_handler_def by metis
qed

lemma wait_for_stop_simps [simp]:
  "life_inv pf R rx (wait_for_stop w) \<longleftrightarrow> life_inv pf R rx w" "contents (wait_for_stop w) p = contents w p"
  "g_output (wait_for_stop w) = g_output w" "g_stdout (wait_for_stop w) = g_stdout w"
proof -
  obtain b where b: "wait_for_stop w = w\<lparr>g_stop_requested := b\<rparr>" using wait_for_stop_eq by blast
  show "life_inv pf R rx (wait_for_stop w) \<longleftrightarrow> life_inv pf R rx w" "contents (wait_for_stop w) p = contents w p"
    "g_output (wait_for_stop w) = g_output w" "g_stdout (wait_for_stop w) = g_stdout w"
    by (simp_all add: b life_inv_def holding_def heap_wf_def owns_def contents_def split: option.split)
qed

lemma cli_more:
  "world.more v = world.more w \<Longrightarrow> g_output v = g_output w \<and> g_stdout v = g_stdout w" for v w :: cli_world
  by (cases v; cases w) simp

lemma print_final_eq: "\<exists>x. print_final rx w = w\<lparr>g_stdout := x\<rparr> \<and> frame_lines (print_final rx w) = frame_lines w"
proof -
  obtain rc st where s: "st2110rx_get_stats rx True = (rc, st)" by fastforce
  have "\<exists>x. w = w\<lparr>g_stdout := x\<rparr>" by (rule exI [where x = "g_stdout w"]) simp
  then show ?thesis
    by (auto simp: print_final_def s frame_lines_def split: option.split)
qed

lemma cli_thread:
  fixes w :: cli_world
  assumes ready: "thread_ready pf (cli_ok (trace w) out) R (cli_config o') n rx w" and c: "valid_config (cli_config o')"
    and sch: "schedule_ok pf sch" and B: "47721858845 \<le> B" "B < 2 ^ 53"
    and clock: "steady_clock t0 B (map fst (thread_input pf (r_pkt_buf_size rx) sch))"
  obtains exited rx' w' where "rx_thread_entry pf cli_frame_cb sch rx w = Some (exited, rx', w')"
    and "life_inv pf R rx' w'" and "set (owned rx') = set (owned rx)"
    and "\<And>p. p \<notin> set (owned rx) \<Longrightarrow> contents w' p = contents w p" and "g_output w' \<noteq> None \<longleftrightarrow> out"
    and "out \<longrightarrow> file_bytes w' = file_bytes w @ concat (map s_bytes
           (session_frames (cli_config o') (map snd (thread_input pf (r_pkt_buf_size rx) sch))))"
    and "frame_lines w' = frame_lines w @ map frame_line
           (session_frames (cli_config o') (map snd (thread_input pf (r_pkt_buf_size rx) sch)))"
proof -
  obtain exited rx' w' where l: "rx_thread_entry pf cli_frame_cb sch rx w = Some (exited, rx', w')"
      "life_inv pf R rx' w'" "set (owned rx') = set (owned rx)"
      "\<And>p. p \<notin> set (owned rx) \<Longrightarrow> contents w' p = contents w p" "cli_ok (trace w') out w'"
      "frame_lines w' = frame_lines w @ concat (map (\<lambda>v. [frame_line v])
           (session_frames (cli_config o') (map snd (thread_input pf (r_pkt_buf_size rx) sch))))"
    by (rule cli_printing.session_thread [OF ready c sch B clock], rule that)
  have "file_bytes w' = file_bytes w @ concat (map s_bytes
      (session_frames (cli_config o') (map snd (thread_input pf (r_pkt_buf_size rx) sch))))" if "out"
  proof -
    have "thread_ready pf (cli_ok (trace w) True) R (cli_config o') n rx w" using ready that by simp
    from cli_recording.session_thread [OF this c sch B clock] show ?thesis using l(1) by (metis option.inject prod.inject)
  qed
  then show ?thesis
    using that [OF l(1-4)] l(5,6) by (simp add: cli_ok_def concat_map_singleton)
qed

lemma cli_session:
  fixes w :: cli_world
  assumes ready: "thread_ready pf (cli_ok (trace w) out) R (cli_config o') n rx w" and c: "valid_config (cli_config o')"
    and sch: "schedule_ok pf sch" and B: "47721858845 \<le> B" "B < 2 ^ 53"
    and clock: "steady_clock t0 B (map fst (thread_input pf (r_pkt_buf_size rx) sch))"
  obtains exited rx' w1 w2 w3 where "rx_thread_entry pf cli_frame_cb sch rx w = Some (exited, rx', w1)"
    and "st2110rx_stop pf (Some rx') (wait_for_stop w1) = Some (Some (shut rx'), w2)"
    and "st2110rx_destroy pf (Some (shut rx')) (print_final (Some (shut rx')) w2) = Some w3"
    and "holding w3 R" and "\<And>p. contents w3 p = (if p \<in> set (owned rx) then None else contents w p)"
    and "g_output w3 \<noteq> None \<longleftrightarrow> out"
    and "out \<longrightarrow> file_bytes w3 = file_bytes w @ concat (map s_bytes
           (session_frames (cli_config o') (map snd (thread_input pf (r_pkt_buf_size rx) sch))))"
    and "frame_lines w3 = frame_lines w @ map frame_line
           (session_frames (cli_config o') (map snd (thread_input pf (r_pkt_buf_size rx) sch)))"
proof -
  obtain exited rx' w1 where loop: "rx_thread_entry pf cli_frame_cb sch rx w = Some (exited, rx', w1)"
      "life_inv pf R rx' w1" "set (owned rx') = set (owned rx)"
      "\<And>p. p \<notin> set (owned rx) \<Longrightarrow> contents w1 p = contents w p" "g_output w1 \<noteq> None \<longleftrightarrow> out"
      "out \<longrightarrow> file_bytes w1 = file_bytes w @ concat (map s_bytes
           (session_frames (cli_config o') (map snd (thread_input pf (r_pkt_buf_size rx) sch))))"
      "frame_lines w1 = frame_lines w @ map frame_line
           (session_frames (cli_config o') (map snd (thread_input pf (r_pkt_buf_size rx) sch)))"
    by (rule cli_thread [OF ready c sch B clock], rule that)
  let ?w1 = "wait_for_stop w1"
  have life1: "life_inv pf R rx' ?w1" using loop(2) by simp
  obtain w2 where stop: "st2110rx_stop pf (Some rx') ?w1 = Some (Some (shut rx'), w2)" "holding w2 R" "heap_wf w2"
      "world.more w2 = world.more ?w1"
      "\<forall>p. contents w2 p = (if p = r_iocp_buffers rx' then None else contents ?w1 p)"
    using stop_outcomes [OF life1] by blast
  have life2: "life_inv pf R (shut rx') w2" by (rule stop_life_inv [OF life1 stop(2,3,5)])
  obtain x where x: "print_final (Some (shut rx')) w2 = w2\<lparr>g_stdout := x\<rparr>"
      "frame_lines (print_final (Some (shut rx')) w2) = frame_lines w2"
    using print_final_eq by metis
  obtain w3 where w3: "st2110rx_destroy pf (Some (shut rx')) (print_final (Some (shut rx')) w2) = Some w3" "holding w3 R"
      "world.more w3 = world.more (print_final (Some (shut rx')) w2)"
      "\<forall>p. contents w3 p = (if p \<in> set (owned (shut rx')) then None else contents (print_final (Some (shut rx')) w2) p)"
    using destroy_outcome [of pf R "shut rx'" "print_final (Some (shut rx')) w2"] life2 by (auto simp: x(1) life_inv_stdout)
  have more1: "g_output w2 = g_output w1" "g_stdout w2 = g_stdout w1"
    using cli_more [OF stop(4)] by simp_all
  have more3: "g_output w3 = g_output w2" "frame_lines w3 = frame_lines w2"
    using cli_more [OF w3(3)] x(2) by (simp_all add: x(1) frame_lines_def)
  have "set (owned rx') = set (owned (shut rx')) \<union> (if r_iocp_buffers rx' = None then {} else {r_iocp_buffers rx'})"
    by (auto simp: owned_def shut_def)
  moreover have "contents (print_final (Some (shut rx')) w2) p = contents w2 p" for p
    by (simp add: x(1) contents_def split: option.split)
  moreover have "contents w1 None = None" by (simp add: contents_def)
  ultimately have mem: "contents w3 p = (if p \<in> set (owned rx) then None else contents w p)" for p
    using w3(4) stop(5) loop(3,4) by (auto split: if_splits)
  show ?thesis
    using that [OF loop(1) stop(1) w3(1,2) mem] loop(5-7) more1 more3
    by (simp add: file_bytes_def frame_lines_def)
qed

text \<open>
  The whole program. Whatever the arguments, the allocations and the answers of the
  operating system, it returns an exit code, gives back every resource and every block it
  acquired, and closes the output file; if it got as far as receiving, the file and the
  frame lines are those of the frames of the stream.
\<close>

definition cli_packets :: "platform \<Rightarrow> thread_schedule \<Rightarrow> (u64 \<times> byte list) list" where
  "cli_packets pf sch = thread_input pf 1500 sch"

definition clean_exit :: "resource multiset \<Rightarrow> cli_world \<Rightarrow> cli_world \<Rightarrow> bool" where
  "clean_exit R w w' \<longleftrightarrow> holding w' R \<and> (\<forall>p. contents w' p = contents w p) \<and> g_output w' = None"

definition shows_frames :: "cli_opts \<Rightarrow> seen_frame list \<Rightarrow> cli_world \<Rightarrow> cli_world \<Rightarrow> bool" where
  "shows_frames o' frames w w' \<longleftrightarrow>
     (o_output_path o' \<noteq> None \<longrightarrow> g_written w' = Some (concat (map s_bytes frames)))
     \<and> frame_lines w' = frame_lines w @ map frame_line frames"

lemma close_output_simps:
  "holding (close_output w) R = holding w R" "contents (close_output w) p = contents w p"
  "g_output (close_output w) = None" "frame_lines (close_output w) = frame_lines w"
  "g_output w \<noteq> None \<Longrightarrow> g_written (close_output w) = Some (file_bytes w)"
  by (auto simp: close_output_def holding_def contents_def frame_lines_def file_bytes_def split: option.split)

lemma cli_receiver:
  assumes c: "valid_config (cli_config o')" and wf: "heap_wf w" and R: "holding w R"
    and cr: "blocks w1 = fresh_rx_blocks env (cli_config o') w" "heap_wf w1" "heap.more w1 = heap.more w"
    and sch: "schedule_ok pf sch" and B: "47721858845 \<le> B" "B < 2 ^ 53" and clock: "steady_clock t0 B (map fst (cli_packets pf sch))"
    and start: "st2110rx_start env pf (Some (fresh_rx (cli_config o') (next_blk w))) (w1\<lparr>g_rx_set := True\<rparr>)
      = Some (rc, Some rx, w2)"
  shows "rc \<noteq> ST2110RX_OK \<Longrightarrow> \<exists>w3. st2110rx_destroy pf (Some rx) w2 = Some w3 \<and> clean_exit R w (close_output w3)"
    and "rc = ST2110RX_OK \<Longrightarrow> \<exists>ex rx' w3 rx'' w4 w5. rx_thread_entry pf cli_frame_cb sch rx w2 = Some (ex, rx', w3)
      \<and> st2110rx_stop pf (Some rx') (wait_for_stop w3) = Some (rx'', w4) \<and> st2110rx_destroy pf rx'' (print_final rx'' w4) = Some w5
      \<and> clean_exit R w (close_output w5)
      \<and> (g_output w = (if o_output_path o' = None then None else Some []) \<longrightarrow>
          shows_frames o' (session_frames (cli_config o') (map snd (cli_packets pf sch))) w (close_output w5))"
proof -
  let ?c = "cli_config o'" and ?rx = "fresh_rx (cli_config o') (next_blk w)" and ?w1 = "w1\<lparr>g_rx_set := True\<rparr>"
  have w1: "blocks ?w1 = fresh_rx_blocks env ?c w" "heap_wf ?w1" "trace ?w1 = trace w"
    using cr world_more_eq [OF cr(3)] by (simp_all add: heap_wf_def)
  note started = session_started [OF c w1 R start]
  note res = started(1)
  have life: "life_inv pf R rx w2" and core: "same_core ?rx rx" using res by (simp_all add: start_result_def)
  have more: "g_output w2 = g_output w" "frame_lines w2 = frame_lines w"
    using res cli_more [of w2 ?w1] cli_more [of w1 w] world_more_eq [OF cr(3)]
    by (simp_all add: start_result_def keeps_live_def frame_lines_def)
  have "cli_ok (trace w2) (g_output w \<noteq> None) w2" using life more by (simp add: cli_ok_def life_inv_def)
  then have ready: "thread_ready pf (cli_ok (trace w2) (g_output w \<noteq> None)) R ?c (next_blk w) rx w2" if "rc = ST2110RX_OK"
    using started(2) that by simp
  note dead = session_memory [OF wf w1(1) res]
  show "\<exists>w3. st2110rx_destroy pf (Some rx) w2 = Some w3 \<and> clean_exit R w (close_output w3)"
    if "rc \<noteq> ST2110RX_OK"
    using destroy_outcome [OF life] dead by (auto simp: clean_exit_def close_output_simps)
  assume ok: "rc = ST2110RX_OK"
  have size: "r_pkt_buf_size rx = 1500" using core by (simp add: same_core_def cli_config_def fresh_rx_def)
  have clk: "steady_clock t0 B (map fst (thread_input pf (r_pkt_buf_size rx) sch))"
    using clock by (simp add: size cli_packets_def)
  obtain ex rx' w3 w4 w5 where s: "rx_thread_entry pf cli_frame_cb sch rx w2 = Some (ex, rx', w3)"
      "st2110rx_stop pf (Some rx') (wait_for_stop w3) = Some (Some (shut rx'), w4)"
      "st2110rx_destroy pf (Some (shut rx')) (print_final (Some (shut rx')) w4) = Some w5"
      "holding w5 R" "\<And>p. contents w5 p = (if p \<in> set (owned rx) then None else contents w2 p)"
      "g_output w5 \<noteq> None \<longleftrightarrow> g_output w \<noteq> None"
      "g_output w \<noteq> None \<longrightarrow> file_bytes w5 = file_bytes w2 @ concat (map s_bytes
           (session_frames ?c (map snd (thread_input pf (r_pkt_buf_size rx) sch))))"
      "frame_lines w5 = frame_lines w2 @ map frame_line
           (session_frames ?c (map snd (thread_input pf (r_pkt_buf_size rx) sch)))"
    by (rule cli_session [OF ready [OF ok] c sch B clk], rule that)
  have "clean_exit R w (close_output w5)"
    using s(4,5) dead by (simp add: clean_exit_def close_output_simps)
  moreover have "shows_frames o' (session_frames ?c (map snd (cli_packets pf sch))) w (close_output w5)"
    if "g_output w = (if o_output_path o' = None then None else Some [])"
    using s(6-8) more that
    by (auto simp: shows_frames_def close_output_simps size cli_packets_def file_bytes_def)
  ultimately show "\<exists>ex rx' w3 rx'' w4 w5. rx_thread_entry pf cli_frame_cb sch rx w2 = Some (ex, rx', w3)
      \<and> st2110rx_stop pf (Some rx') (wait_for_stop w3) = Some (rx'', w4) \<and> st2110rx_destroy pf rx'' (print_final rx'' w4) = Some w5
      \<and> clean_exit R w (close_output w5)
      \<and> (g_output w = (if o_output_path o' = None then None else Some []) \<longrightarrow>
          shows_frames o' (session_frames ?c (map snd (cli_packets pf sch))) w (close_output w5))"
    using s(1-3) by blast
qed

lemma cli_receive_spec:
  assumes wf: "heap_wf w" and R: "holding w R" and out: "g_output w = (if o_output_path o' = None then None else Some [])"
    and sch: "schedule_ok pf sch" and B: "47721858845 \<le> B" "B < 2 ^ 53" and clock: "steady_clock t0 B (map fst (cli_packets pf sch))"
  shows "\<exists>rc w'. cli_receive env pf o' sch w = Some (rc, w') \<and> clean_exit R w w' \<and> (comes_up pf env (cli_config o') w \<longrightarrow> rc = 0)
    \<and> (rc = 0 \<longrightarrow> shows_frames o' (session_frames (cli_config o') (map snd (cli_packets pf sch))) w w')"
proof (cases "valid_config (cli_config o') \<and> enough_memory w")
  case bad: False
  obtain w1 where cr: "st2110rx_create env (Some (cli_config o')) w = Some (None, w1)" "same_memory w w1"
    using create_fails [OF bad wf] by blast
  have "holding w1 R" "contents w1 p = contents w p" for p
    using cr(2) R world_more_eq [of w1 w] by (simp_all add: same_memory_def holding_def contents_def split: option.split)
  then show ?thesis
    using bad by (auto simp: cli_receive_def cr(1) clean_exit_def close_output_simps comes_up_def)
next
  case True
  let ?rx = "fresh_rx (cli_config o') (next_blk w)"
  have c: "valid_config (cli_config o')" using True by simp
  obtain w1 where cr: "st2110rx_create env (Some (cli_config o')) w = Some (Some ?rx, w1)"
      "blocks w1 = fresh_rx_blocks env (cli_config o') w" "heap_wf w1" "heap.more w1 = heap.more w"
      "oom w1 = oom w" "next_blk w1 = next_blk w + 5"
    using create_succeeds [OF c _ wf, of env] True by blast
  have "life_inv pf R ?rx (w1\<lparr>g_rx_set := True\<rparr>)"
    using fresh_life_inv [OF cr(2-4) R, of pf]
    by (simp add: life_inv_def holding_def owns_def heap_wf_def contents_def split: option.splits)
  then obtain rc rx w2 where start: "st2110rx_start env pf (Some ?rx) (w1\<lparr>g_rx_set := True\<rparr>) = Some (rc, Some rx, w2)"
    using start_outcomes by blast
  have "rc = ST2110RX_OK" if "comes_up pf env (cli_config o') w"
    using that by (intro start_obliging [OF _ _ _ start]) (simp_all add: comes_up_def fresh_rx_def zero_rx_def cr(5,6))
  note r = cli_receiver [OF c wf R cr(2-4) sch B clock start] this
  show ?thesis
  proof (cases "rc = ST2110RX_OK")
    case ok: True
    show ?thesis
      using r(2) [OF ok] out by (auto simp: cli_receive_def cr(1) start ok)
  next
    case bad: False
    show ?thesis
      using r(1) [OF bad] r(3) bad by (auto simp: cli_receive_def cr(1) start)
  qed
qed

lemma cli_main_spec:
  assumes wf: "heap_wf w" and R: "holding w R"
    and sch: "schedule_ok pf sch" and B: "47721858845 \<le> B" "B < 2 ^ 53" and clock: "steady_clock t0 B (map fst (cli_packets pf sch))"
  shows "\<exists>rc w'. cli_main env pf bits args fopen_ok sch w = Some (rc, w') \<and> clean_exit R w w'
    \<and> (\<forall>o'. cli_args bits args cli_defaults = Inr o' \<longrightarrow>
         (rc = 0 \<longrightarrow> shows_frames o' (session_frames (cli_config o') (map snd (cli_packets pf sch))) w w')
         \<and> (comes_up pf env (cli_config o') w \<and> (o_output_path o' \<noteq> None \<longrightarrow> fopen_ok) \<longrightarrow> rc = 0))"
proof (cases "cli_args bits args cli_defaults")
  case (Inl rc)
  then show ?thesis
    using R by (simp add: cli_main_def clean_exit_def holding_def contents_def split: option.split)
next
  case (Inr o')
  define w0 where "w0 = w\<lparr>g_output := None, g_count_limit := 0, g_stats_every := 0, g_frames_seen := 0,
    g_stop_requested := False, g_rx_set := False,
    g_output := (if o_output_path o' = None then None else Some []),
    g_count_limit := o_count o', g_stats_every := o_stats_every o'\<rparr>"
  have w0: "heap_wf w0" "holding w0 R" "frame_lines w0 = frame_lines w" "comes_up pf env (cli_config o') w0 = comes_up pf env (cli_config o') w"
      "g_output w0 = (if o_output_path o' = None then None else Some [])" "contents w0 p = contents w p" for p
    using wf R by (simp_all add: w0_def heap_wf_def holding_def frame_lines_def contents_def comes_up_def enough_memory_def
        split: option.split)
  have exit: "clean_exit R w0 v = clean_exit R w v" "shows_frames o' fs w0 v = shows_frames o' fs w v" for v fs
    by (simp_all add: clean_exit_def shows_frames_def w0(3,6))
  show ?thesis
  proof (cases "o_output_path o' \<noteq> None \<and> \<not> fopen_ok")
    case True
    then show ?thesis
      using R Inr by (simp add: cli_main_def clean_exit_def holding_def contents_def split: option.split)
  next
    case False
    have main: "cli_main env pf bits args fopen_ok sch w = cli_receive env pf o' sch w0"
      unfolding cli_main_def Let_def Inr sum.case w0_def if_not_P [OF False] ..
    show ?thesis
      using cli_receive_spec [OF w0(1,2,5) sch B clock, of env] by (auto simp: main exit w0(4) Inr)
  qed
qed

end
