(* ===== verification/Thread_Props.thy ===== *)
theory Thread_Props
  imports Rx_Threads Rx_Cli
begin

text \<open>
  What holds while the receive thread runs and the client stops and destroys the receiver,
  in every interleaving of their steps.
\<close>

section \<open>A started receiver\<close>

definition demo_session :: st2110rx_config_t where
  "demo_session = \<lparr>c_multicast_addr = Some ''239.1.1.1'', c_port = 0, c_interface_addr = None, c_width = 2,
     c_height = 1, c_input_fmt = ST2110RX_FMT_YCBCR422_10BIT, c_output_fmt = ST2110RX_FMT_UYVY,
     c_socket_buffer_size = 0, c_enable_jumbo = False, c_has_frame_cb = True, c_has_log_cb = False\<rparr>"

definition demo_system :: os_env where
  "demo_system = \<lparr>e_startup = (\<lambda>_. True), e_socket = (\<lambda>_. 5), e_rcvbuf = (\<lambda>_. None), e_bind = (\<lambda>_. True),
     e_join_group = (\<lambda>_. True), e_iocp = (\<lambda>_. Some 8), e_thread = (\<lambda>_. Some 9), e_errno = (\<lambda>_. 0),
     e_multicast_if = (\<lambda>_. True), e_send = (\<lambda>_. True), e_rand = (\<lambda>_. 0), e_monotonic = (\<lambda>_. (0, 0)),
     e_tick_count = (\<lambda>_. 0), e_inet_addr = (\<lambda>_. 1), e_sizeof_rx = 8, e_sizeof_iocp_buffer = 8\<rparr>"

definition demo_client :: cli_world where
  "demo_client = \<lparr>blocks = (\<lambda>_. None), next_blk = 0, oom = (\<lambda>_. False), junk = (\<lambda>_ _. 0), trace = [],
     g_output = None, g_count_limit = 0, g_stats_every = 0, g_frames_seen = 0, g_stop_requested = False,
     g_rx_set = False, g_stdout = [], g_written = None\<rparr>"

lemma demo_session_valid: "valid_config demo_session"
  by (simp add: valid_config_def demo_session_def supported_def)

lemma demo_obliging: "obliging pf demo_system demo_session"
  by (simp add: obliging_def demo_system_def demo_session_def interface_ip_def RX_INVALID_SOCKET_def INADDR_NONE_def)

lemma demo_started:
  obtains rx and w :: cli_world where "thread_ready pf (cli_ok (trace w) False) {#} demo_session 0 rx w"
proof -
  have new: "heap_wf demo_client" "enough_memory demo_client" "holding demo_client {#}" "next_blk demo_client = 0"
      "g_output demo_client = None" "oom demo_client = (\<lambda>_. False)"
    by (simp_all add: demo_client_def heap_wf_def enough_memory_def holding_def resources_of_def)
  let ?rx = "fresh_rx demo_session 0"
  obtain w1 where w1: "blocks w1 = fresh_rx_blocks demo_system demo_session demo_client" "heap_wf w1"
      "heap.more w1 = heap.more demo_client" and oom: "oom w1 = oom demo_client"
    by (rule create_succeeds [OF demo_session_valid new(2,1), of demo_system])
  have tr: "trace w1 = trace demo_client" using world_more_eq [OF w1(3)] by simp
  have "life_inv pf {#} ?rx w1" using fresh_life_inv [OF w1 new(3)] new(4) by simp
  then obtain rc rx w2 where start: "st2110rx_start demo_system pf (Some ?rx) w1 = Some (rc, Some rx, w2)"
      "start_result pf {#} ?rx w1 rc rx w2"
    using start_outcomes by blast
  have ok: "rc = ST2110RX_OK"
    by (rule start_obliging [OF _ _ _ start(1)]) (simp_all add: demo_obliging oom new(6) fresh_rx_def zero_rx_def)
  have "g_output w2 = None"
    using start(2) cli_more [of w2 w1] cli_more [of w1 demo_client] world_more_eq [OF w1(3)] new(5)
    by (simp add: start_result_def keeps_live_def)
  then have "cli_ok (trace w2) False w2" using start(2) by (simp add: cli_ok_def start_result_def life_inv_def)
  then have "thread_ready pf (cli_ok (trace w2) False) {#} demo_session 0 rx w2"
    using session_started(2) [OF demo_session_valid w1(1,2) tr new(3)] start(1) ok new(4) by simp
  then show ?thesis by (rule that)
qed

lemma started_socket: "thread_ready pf ok R c n rx w \<Longrightarrow> r_sock rx \<noteq> RX_INVALID_SOCKET"
  by (simp add: thread_ready_def active_def)

section \<open>The schedule of the thread\<close>

text \<open>C12: the receive thread and a client that stops the receiver, interleaved in any way: until
  the memory is freed, what the thread has done is exactly what \<open>rx_receiver_loop\<close> does on
  the schedule of its loads and receives so far, and it has ended exactly when the loop has
  returned. So every theorem about the loop, for every schedule, is one about the running
  thread; and the client frees nothing before the thread has ended.\<close>

lemma threads_schedule:
  assumes "threads_reach user_cb wakes rx w s"
  shows "(s_pc s \<noteq> S_end \<longrightarrow> rx_receiver_loop user_cb (turns s) rx w = Some (t_pc s = T_done, v_rx s, v_world s))
    \<and> (s_pc s \<in> {S_free, S_end} \<longrightarrow> t_pc s = T_done)"
  using threads_reach_inv [OF assms] by (simp add: threads_inv_def)

text \<open>The thread in a \<open>recvfrom\<close>, and the client all the way to its \<open>join\<close>.\<close>

lemma blocked_reach:
  assumes "r_sock rx \<noteq> RX_INVALID_SOCKET"
  shows "\<exists>s. threads_reach user_cb wakes rx w s \<and> t_pc s = T_recv True \<and> s_pc s = S_join \<and> \<not> v_open s \<and> turns s = []"
proof -
  let ?s0 = "threads_init rx w"
  let ?s1 = "?s0\<lparr>t_pc := T_call\<rparr>"
  let ?s2 = "?s1\<lparr>t_pc := T_recv True\<rparr>"
  let ?s3 = "?s2\<lparr>v_running := False, s_pc := S_close\<rparr>"
  let ?s4 = "?s3\<lparr>v_open := False, s_pc := S_forget\<rparr>"
  let ?s5 = "?s4\<lparr>v_sock := RX_INVALID_SOCKET, s_pc := S_join\<rparr>"
  have "thread_step user_cb wakes ?s0 ?s1" by (rule load_go) (simp_all add: threads_init_def)
  moreover have "thread_step user_cb wakes ?s1 ?s2" using thread_step.call [of ?s1] assms by (simp add: threads_init_def)
  moreover have "stop_step ?s2 ?s3" by (rule stop) (simp add: threads_init_def)
  moreover have "stop_step ?s3 ?s4" by (rule close) simp
  moreover have "stop_step ?s4 ?s5" by (rule forget) simp
  ultimately have "threads_reach user_cb wakes rx w ?s5" by (meson threads_reach.intros threads_step.intros)
  then show ?thesis by (intro exI [of _ ?s5]) (simp add: threads_init_def)
qed

lemma threads_schedule_witness:
  "\<exists>(w :: cli_world) rx s. threads_reach cli_frame_cb False rx w s \<and> s_pc s = S_join
    \<and> rx_receiver_loop cli_frame_cb (turns s) rx w = Some (False, v_rx s, v_world s)"
proof -
  obtain rx and w :: cli_world where r: "thread_ready POSIX (cli_ok (trace w) False) {#} demo_session 0 rx w"
    by (rule demo_started)
  then obtain s where s: "threads_reach cli_frame_cb False rx w s" "t_pc s = T_recv True" "s_pc s = S_join"
    using blocked_reach [of rx cli_frame_cb False w] started_socket [OF r] by auto
  from threads_schedule [OF s(1)] s show ?thesis by auto
qed

section \<open>Memory\<close>

text \<open>C6: a started receiver of any client that meets the contract, in any interleaving with
  a client that stops and destroys it at any moment: a datagram the thread has received is
  processed without an access out of bounds or to freed memory, the final frees are of
  live blocks, and they happen only after the thread has ended.\<close>

lemma threads_memory_safe:
  fixes w :: "'z world_scheme"
  assumes "\<And>st. receiver_client (user_cb st) ok {} (\<lambda>_. True) seen_by observe rx"
    and "thread_ready POSIX ok R c n rx w" and "valid_config c" and "\<And>h. ok h \<Longrightarrow> heap_wf h \<and> trace h = trace w"
    and "47721858845 \<le> B" and "B < 2 ^ 53"
    and "steady_clock t0 B (map fst (loop_input (r_pkt_buf_size rx) (all_turns s)))"
    and "threads_reach user_cb wakes rx w s"
  shows "(\<forall>d now_us. t_pc s = T_packet d now_us \<longrightarrow> handle_datagram user_cb d now_us (v_rx s) (v_world s) \<noteq> None)
    \<and> (s_pc s = S_free \<longrightarrow> free_receiver (v_rx s) (v_world s) \<noteq> None)
    \<and> (s_pc s \<in> {S_free, S_end} \<longrightarrow> t_pc s = T_done)"
proof -
  have "next_defined user_cb s"
    by (rule threads_defined [where user_cb = user_cb and ok = ok and seen_by = seen_by and observe = observe, OF assms])
  moreover have "s_pc s \<in> {S_free, S_end} \<longrightarrow> t_pc s = T_done"
    using threads_reach_inv [OF assms(8)] by (simp add: threads_inv_def)
  ultimately show ?thesis by (auto simp: next_defined_def)
qed

lemma demo_client_ok: "cli_ok tr out h \<Longrightarrow> heap_wf h \<and> trace h = tr" for h :: cli_world
  by (simp add: cli_ok_def)

lemma threads_memory_safe_witness:
  "\<exists>(w :: cli_world) rx s. threads_reach cli_frame_cb False rx w s \<and> t_pc s = T_packet [1, 2, 3] 1000
    \<and> handle_datagram cli_frame_cb [1, 2, 3] 1000 (v_rx s) (v_world s) \<noteq> None"
proof -
  obtain rx and w :: cli_world where r: "thread_ready POSIX (cli_ok (trace w) False) {#} demo_session 0 rx w"
    by (rule demo_started)
  have size: "r_pkt_buf_size rx = 1500"
    using r by (simp add: thread_ready_def same_core_def fresh_rx_def demo_session_def)
  obtain s where s: "threads_reach cli_frame_cb False rx w s" "t_pc s = T_recv True" "s_pc s = S_join" "turns s = []"
    using blocked_reach [of rx cli_frame_cb False w] started_socket [OF r] by auto
  let ?t = "s\<lparr>t_pc := T_packet [1, 2, 3] 1000\<rparr>"
  have "r_pkt_buf_size (v_rx s) = 1500" using threads_reach_inv [OF s(1)] s(3,4) size by (simp add: threads_inv_def)
  then have "network_step s ?t" by (intro network_step.data) (simp_all add: s(2))
  then have t: "threads_reach cli_frame_cb False rx w ?t" using s(1) by (meson threads_reach.stepped threads_step.by_network)
  have "steady_clock 1000 47721858845 (map fst (loop_input (r_pkt_buf_size rx) (all_turns ?t)))"
    by (simp add: all_turns_def s(4) size)
  note safe = threads_memory_safe [where user_cb = cli_frame_cb, OF cli_rx_lines.receiver_client_axioms r demo_session_valid
      demo_client_ok _ _ this t]
  have "handle_datagram cli_frame_cb [1, 2, 3] 1000 (v_rx ?t) (v_world ?t) \<noteq> None" by (rule safe [THEN conjunct1, rule_format]) simp_all
  then show ?thesis using t by (intro exI [of _ w] exI [of _ rx] exI [of _ ?t]) simp
qed

section \<open>Does stopping end?\<close>

text \<open>C16: where closing a socket wakes a thread blocked on it, stopping and destroying a receiver
  ends: from the moment the stop is requested at most eight more steps are made,
  whatever the interleaving and whatever still arrives, and as long as the receiver is not
  destroyed the thread or the client can step, without a datagram or an error that the
  network would have to supply. A thread blocked in \<open>recvfrom\<close> can because
  \<open>st2110rx_stop\<close> has closed its socket, or is about to.\<close>

lemma stop_completes:
  fixes w :: "'z world_scheme"
  assumes "\<And>st. receiver_client (user_cb st) ok {} (\<lambda>_. True) seen_by observe rx"
    and "thread_ready POSIX ok R c n rx w" and "valid_config c" and "\<And>h. ok h \<Longrightarrow> heap_wf h \<and> trace h = trace w"
    and "47721858845 \<le> B" and "B < 2 ^ 53"
    and "steady_clock t0 B (map fst (loop_input (r_pkt_buf_size rx) (all_turns t)))"
    and "threads_reach user_cb True rx w s" and "s_pc s \<noteq> S_idle" and "(threads_step user_cb True ^^ k) s t"
  shows "k \<le> 8 \<and> (s_pc t = S_end \<or> (\<exists>u. thread_step user_cb True t u \<or> stop_step t u))"
proof -
  note t = threads_fuel_steps [OF assms(8-10)]
  have "next_defined user_cb t"
    by (rule threads_defined [where user_cb = user_cb and ok = ok and seen_by = seen_by and observe = observe,
        OF assms(1-7) t [THEN conjunct1]])
  then have "s_pc t \<noteq> S_end \<Longrightarrow> \<exists>u. thread_step user_cb True t u \<or> stop_step t u"
    using threads_progress [OF threads_reach_inv [OF t [THEN conjunct1]]] t by blast
  then show ?thesis using t threads_fuel_bound [OF assms(9)] by auto
qed

lemma stop_completes_witness:
  "\<exists>(w :: cli_world) rx s. threads_reach cli_frame_cb True rx w s \<and> s_pc s = S_join
    \<and> t_pc s = T_recv True \<and> (\<exists>u. thread_step cli_frame_cb True s u)"
proof -
  obtain rx and w :: cli_world where r: "thread_ready POSIX (cli_ok (trace w) False) {#} demo_session 0 rx w"
    by (rule demo_started)
  obtain s where s: "threads_reach cli_frame_cb True rx w s" "t_pc s = T_recv True" "s_pc s = S_join" "turns s = []"
    using blocked_reach [of rx cli_frame_cb True w] started_socket [OF r] by auto
  have clock: "steady_clock 0 47721858845 (map fst (loop_input (r_pkt_buf_size rx) (all_turns s)))"
    by (simp add: all_turns_def s(2,4))
  have "(threads_step cli_frame_cb True ^^ 0) s s" by simp
  from stop_completes [where user_cb = cli_frame_cb, OF cli_rx_lines.receiver_client_axioms r demo_session_valid
      demo_client_ok _ _ clock s(1) _ this] s(3)
  have "\<exists>u. thread_step cli_frame_cb True s u \<or> stop_step s u" by simp
  moreover have "\<not> stop_step s u" for u using s(2,3) by (auto elim: stop_stepE)
  ultimately show ?thesis using s by blast
qed

text \<open>C35: where closing a socket does not wake a thread blocked on it, as on Linux, stopping a
  started receiver can hang: there is an interleaving after which \<open>st2110rx_stop\<close> waits in
  its \<open>join\<close>, the socket is closed, and nothing can happen any more unless a datagram
  still arrives.\<close>

lemma stop_can_hang:
  assumes "r_sock rx \<noteq> RX_INVALID_SOCKET"
  shows "\<exists>s. threads_reach user_cb False rx w s \<and> s_pc s = S_join \<and> \<not> v_running s \<and> \<not> v_open s
    \<and> (\<forall>t. threads_step user_cb False s t \<longrightarrow> s_pc t = S_join \<and> (\<exists>d now_us. t_pc t = T_packet d now_us))"
proof -
  obtain s where s: "threads_reach user_cb False rx w s" "t_pc s = T_recv True" "s_pc s = S_join" "\<not> v_open s"
    using blocked_reach [OF assms] by blast
  have "\<not> v_running s" using threads_reach_inv [OF s(1)] s(3) by (simp add: threads_inv_def)
  moreover have "s_pc t = S_join \<and> (\<exists>d now_us. t_pc t = T_packet d now_us)" if "threads_step user_cb False s t" for t
    using that s(2-4) by (auto elim!: threads_step.cases)
  ultimately show ?thesis using s by blast
qed

lemma stop_can_hang_witness:
  "\<exists>(w :: cli_world) rx s. threads_reach cli_frame_cb False rx w s \<and> s_pc s = S_join
    \<and> (\<forall>t. threads_step cli_frame_cb False s t \<longrightarrow> s_pc t = S_join)"
proof -
  obtain rx and w :: cli_world where r: "thread_ready POSIX (cli_ok (trace w) False) {#} demo_session 0 rx w"
    by (rule demo_started)
  from stop_can_hang [OF started_socket [OF r], of cli_frame_cb w] show ?thesis by blast
qed

end
