(* ===== verification/Rx_Threads_Win.thy ===== *)
theory Rx_Threads_Win
  imports Rx_Session Rx_Core_Iocp
begin

text \<open>
  The receive thread of \<open>rx_core.c\<close> on Windows, a client thread that stops and destroys the
  receiver, and the kernel, as interleaved steps: one step per load of \<open>running\<close> and per
  call. Every buffer of the pool has one owner: the kernel (a receive is pending on it), the
  completion port, the thread (dequeued, not yet posted again), or nobody. The buffers are
  part of the state: a completion says how many bytes were received into which buffer
  (\<open>Completed i bs\<close>, where only the length of \<open>bs\<close> is used and the rest is history), and the
  thread reads the buffer when it comes to it, whatever is there by then. The thread is
  taken up after its call of \<open>rx_thread_set_high_priority\<close>.

  A call that fails with nothing wrong on the side of the program is a \<open>fault_step\<close>, which
  nobody can count on: that something gets done is said of the thread and the client only.

  Closing the socket cancels the pending receives; each cancelled receive completes at
  some later moment of the kernel's choice, with no bytes. The wakeup that
  \<open>st2110rx_stop\<close> posts arrives.
\<close>

section \<open>The code\<close>

definition RX_IOCP_BATCH :: nat where "RX_IOCP_BATCH = 64"

datatype win_pc =
    W_prime nat                                   \<comment> \<open>about to post this buffer for the first time\<close>
  | W_load                                        \<comment> \<open>the loop condition\<close>
  | W_wait                                        \<comment> \<open>in \<open>GetQueuedCompletionStatusEx\<close>\<close>
  | W_check bool "completion list"                \<comment> \<open>the second load; success, and what was dequeued\<close>
  | W_drain "completion list"                     \<comment> \<open>the rest of the batch\<close>
  | W_repost nat "byte list" u64 "completion list"   \<comment> \<open>the load before posting again\<close>
  | W_post nat "byte list" u64 "completion list"
  | W_done

datatype win_stop_pc =
    N_idle
  | N_wake                        \<comment> \<open>\<open>running\<close> is 0, the wakeup is to be posted\<close>
  | N_close
  | N_join
  | N_port                        \<comment> \<open>the port is to be closed and the pool freed\<close>
  | N_free                        \<comment> \<open>stopped; the rest of \<open>st2110rx_destroy\<close>\<close>
  | N_end

record 'z win_threads =
  n_running :: bool
  n_open :: bool
  n_kernel :: "nat set"           \<comment> \<open>the buffers the kernel may write\<close>
  n_queue :: "completion list"    \<comment> \<open>the completion port\<close>
  n_bytes :: "nat \<Rightarrow> byte list"    \<comment> \<open>\<open>iocp_buffers[i].buf\<close>\<close>
  n_rx :: st2110rx
  n_world :: "'z world_scheme"
  n_pc :: win_pc
  n_stop :: win_stop_pc
  n_turns :: "win_turn list"      \<comment> \<open>history, read by no step\<close>
  n_batch :: "entry list"
  n_failed :: "(nat \<times> int) option"

definition blank_buffer :: "byte list" where "blank_buffer = replicate RX_IOCP_BUFFER_SIZE 0"

definition win_init :: "st2110rx \<Rightarrow> 'z world_scheme \<Rightarrow> 'z win_threads" where
  "win_init rx w = \<lparr>n_running = True, n_open = True, n_kernel = {}, n_queue = [],
     n_bytes = (\<lambda>_. blank_buffer), n_rx = rx, n_world = w,
     n_pc = W_prime 0, n_stop = N_idle, n_turns = [], n_batch = [], n_failed = None\<rparr>"

abbreviation win_turn_of :: "bool \<Rightarrow> bool \<Rightarrow> bool \<Rightarrow> entry list \<Rightarrow> win_turn" where
  "win_turn_of a b c es \<equiv> \<lparr>wt_running = a, wt_ok = b, wt_running2 = c, wt_entries = es\<rparr>"

abbreviation entry_of :: "completion \<Rightarrow> u64 \<Rightarrow> bool \<Rightarrow> bool \<Rightarrow> entry" where
  "entry_of c t r p \<equiv> \<lparr>e_completion = c, e_now = t, e_running = r, e_post_ok = p\<rparr>"

inductive win_thread_step :: "'z world_ext user_cb \<Rightarrow> 'z win_threads \<Rightarrow> 'z win_threads \<Rightarrow> bool" for user_cb where
  prime_ok: "n_pc s = W_prime i \<Longrightarrow> i < RX_IOCP_NUM_BUFFERS \<Longrightarrow> n_open s \<Longrightarrow>
     win_thread_step user_cb s (s\<lparr>n_kernel := insert i (n_kernel s), n_pc := W_prime (Suc i)\<rparr>)"
| prime_fail: "n_pc s = W_prime i \<Longrightarrow> i < RX_IOCP_NUM_BUFFERS \<Longrightarrow> \<not> n_open s \<Longrightarrow>
     win_thread_step user_cb s (s\<lparr>n_pc := W_done, n_failed := Some (i, err),
       n_world := rx_log (r_config (n_rx s)) ST2110RX_LOG_ERROR (Msg_prime_failed err) (n_world s)\<rparr>)"
| primed: "n_pc s = W_prime RX_IOCP_NUM_BUFFERS \<Longrightarrow> win_thread_step user_cb s (s\<lparr>n_pc := W_load\<rparr>)"
| load_stop: "n_pc s = W_load \<Longrightarrow> \<not> n_running s \<Longrightarrow>
     win_thread_step user_cb s (s\<lparr>n_pc := W_done, n_turns := n_turns s @ [win_turn_of False True False []]\<rparr>)"
| load_go: "n_pc s = W_load \<Longrightarrow> n_running s \<Longrightarrow> win_thread_step user_cb s (s\<lparr>n_pc := W_wait\<rparr>)"
| dequeue: "n_pc s = W_wait \<Longrightarrow> n_queue s = b @ q \<Longrightarrow> b \<noteq> [] \<Longrightarrow> length b \<le> RX_IOCP_BATCH \<Longrightarrow>
     win_thread_step user_cb s (s\<lparr>n_pc := W_check True b, n_queue := q\<rparr>)"
| check_stop: "n_pc s = W_check ok b \<Longrightarrow> \<not> n_running s \<Longrightarrow>
     win_thread_step user_cb s (s\<lparr>n_pc := W_done, n_turns := n_turns s @ [win_turn_of True ok False []]\<rparr>)"
| check_skip: "n_pc s = W_check False [] \<Longrightarrow> n_running s \<Longrightarrow>
     win_thread_step user_cb s (s\<lparr>n_pc := W_load, n_turns := n_turns s @ [win_turn_of True False True []]\<rparr>)"
| check_go: "n_pc s = W_check True b \<Longrightarrow> n_running s \<Longrightarrow>
     win_thread_step user_cb s (s\<lparr>n_pc := W_drain b, n_batch := []\<rparr>)"
| wakeup: "n_pc s = W_drain (Wakeup # cs) \<Longrightarrow>
     win_thread_step user_cb s (s\<lparr>n_pc := W_drain cs, n_batch := n_batch s @ [entry_of Wakeup 0 False False]\<rparr>)"
| no_bytes: "n_pc s = W_drain (Completed i [] # cs) \<Longrightarrow> win_thread_step user_cb s (s\<lparr>n_pc := W_repost i [] 0 cs\<rparr>)"
| datagram: "n_pc s = W_drain (Completed i bs # cs) \<Longrightarrow> bs \<noteq> [] \<Longrightarrow>
     rx_process_packet user_cb now_us (take (length bs) (n_bytes s i)) (n_rx s) (n_world s) = Some (rx', w') \<Longrightarrow>
     win_thread_step user_cb s (s\<lparr>n_pc := W_repost i bs now_us cs, n_rx := rx', n_world := w'\<rparr>)"
| repost_stop: "n_pc s = W_repost i bs t cs \<Longrightarrow> \<not> n_running s \<Longrightarrow>
     win_thread_step user_cb s (s\<lparr>n_pc := W_drain cs, n_batch := n_batch s @ [entry_of (Completed i bs) t False False]\<rparr>)"
| repost_go: "n_pc s = W_repost i bs t cs \<Longrightarrow> n_running s \<Longrightarrow> win_thread_step user_cb s (s\<lparr>n_pc := W_post i bs t cs\<rparr>)"
| post_ok: "n_pc s = W_post i bs t cs \<Longrightarrow> n_open s \<Longrightarrow>
     win_thread_step user_cb s (s\<lparr>n_kernel := insert i (n_kernel s), n_pc := W_drain cs,
       n_batch := n_batch s @ [entry_of (Completed i bs) t True True]\<rparr>)"
| post_fail: "n_pc s = W_post i bs t cs \<Longrightarrow> \<not> n_open s \<Longrightarrow>
     win_thread_step user_cb s (s\<lparr>n_pc := W_drain cs, n_batch := n_batch s @ [entry_of (Completed i bs) t True False]\<rparr>)"
| drained: "n_pc s = W_drain [] \<Longrightarrow>
     win_thread_step user_cb s (s\<lparr>n_pc := W_load, n_turns := n_turns s @ [win_turn_of True True True (n_batch s)],
       n_batch := []\<rparr>)"

inductive fault_step :: "'z win_threads \<Rightarrow> 'z win_threads \<Rightarrow> bool" where
  prime_fault: "n_pc s = W_prime i \<Longrightarrow> i < RX_IOCP_NUM_BUFFERS \<Longrightarrow> n_open s \<Longrightarrow>
     fault_step s (s\<lparr>n_pc := W_done, n_failed := Some (i, err),
       n_world := rx_log (r_config (n_rx s)) ST2110RX_LOG_ERROR (Msg_prime_failed err) (n_world s)\<rparr>)"
| dequeue_fault: "n_pc s = W_wait \<Longrightarrow> fault_step s (s\<lparr>n_pc := W_check False []\<rparr>)"
| post_fault: "n_pc s = W_post i bs t cs \<Longrightarrow> n_open s \<Longrightarrow>
     fault_step s (s\<lparr>n_pc := W_drain cs, n_batch := n_batch s @ [entry_of (Completed i bs) t True False]\<rparr>)"

inductive kernel_step :: "'z win_threads \<Rightarrow> 'z win_threads \<Rightarrow> bool" where
  arrives: "i \<in> n_kernel s \<Longrightarrow> n_open s \<Longrightarrow> length bs \<le> RX_IOCP_BUFFER_SIZE \<Longrightarrow>
     kernel_step s (s\<lparr>n_kernel := n_kernel s - {i}, n_queue := n_queue s @ [Completed i bs],
       n_bytes := (n_bytes s)(i := bs @ drop (length bs) (n_bytes s i))\<rparr>)"
| cancelled: "i \<in> n_kernel s \<Longrightarrow> \<not> n_open s \<Longrightarrow>
     kernel_step s (s\<lparr>n_kernel := n_kernel s - {i}, n_queue := n_queue s @ [Completed i []]\<rparr>)"

inductive win_stop_step :: "'z win_threads \<Rightarrow> 'z win_threads \<Rightarrow> bool" where
  stop: "n_stop s = N_idle \<Longrightarrow> win_stop_step s (s\<lparr>n_running := False, n_stop := N_wake\<rparr>)"
| wake: "n_stop s = N_wake \<Longrightarrow> win_stop_step s (s\<lparr>n_queue := n_queue s @ [Wakeup], n_stop := N_close\<rparr>)"
| close: "n_stop s = N_close \<Longrightarrow> win_stop_step s (s\<lparr>n_open := False, n_stop := N_join\<rparr>)"
| join: "n_stop s = N_join \<Longrightarrow> n_pc s = W_done \<Longrightarrow> win_stop_step s (s\<lparr>n_stop := N_port\<rparr>)"
| port: "n_stop s = N_port \<Longrightarrow> close_iocp WIN32 (n_rx s) (n_world s) = Some (rx', w') \<Longrightarrow>
     win_stop_step s (s\<lparr>n_rx := rx', n_world := w', n_stop := N_free\<rparr>)"
| free: "n_stop s = N_free \<Longrightarrow> free_receiver (n_rx s) (n_world s) = Some w' \<Longrightarrow>
     win_stop_step s (s\<lparr>n_world := w', n_stop := N_end\<rparr>)"

inductive win_step :: "'z world_ext user_cb \<Rightarrow> 'z win_threads \<Rightarrow> 'z win_threads \<Rightarrow> bool" for user_cb where
  win_by_thread: "win_thread_step user_cb s t \<Longrightarrow> win_step user_cb s t"
| win_by_fault: "fault_step s t \<Longrightarrow> win_step user_cb s t"
| win_by_kernel: "kernel_step s t \<Longrightarrow> win_step user_cb s t"
| win_by_client: "win_stop_step s t \<Longrightarrow> win_step user_cb s t"

inductive_cases win_thread_stepE [elim]: "win_thread_step user_cb s t"
inductive_cases fault_stepE [elim]: "fault_step s t"
inductive_cases kernel_stepE [elim]: "kernel_step s t"
inductive_cases win_stop_stepE [elim]: "win_stop_step s t"
inductive_cases win_stepE [elim]: "win_step user_cb s t"

inductive win_reach :: "'z world_ext user_cb \<Rightarrow> st2110rx \<Rightarrow> 'z world_scheme \<Rightarrow> 'z win_threads \<Rightarrow> bool"
    for user_cb rx w where
  win_started: "win_reach user_cb rx w (win_init rx w)"
| win_stepped: "win_reach user_cb rx w s \<Longrightarrow> win_step user_cb s t \<Longrightarrow> win_reach user_cb rx w t"

lemma win_reach_by:
  "win_reach user_cb rx w s \<Longrightarrow> win_thread_step user_cb s t \<Longrightarrow> win_reach user_cb rx w t"
  "win_reach user_cb rx w s \<Longrightarrow> kernel_step s t \<Longrightarrow> win_reach user_cb rx w t"
  "win_reach user_cb rx w s \<Longrightarrow> win_stop_step s t \<Longrightarrow> win_reach user_cb rx w t"
  by (auto intro: win_reach.win_stepped win_step.intros)

section \<open>Who owns a buffer\<close>

definition buffers_in :: "completion list \<Rightarrow> nat list" where
  "buffers_in cs = List.map_filter (\<lambda>c. case c of Wakeup \<Rightarrow> None | Completed i bs \<Rightarrow> Some i) cs"

lemma buffers_in_simps [simp]:
  "buffers_in [] = []" "buffers_in (Wakeup # cs) = buffers_in cs"
  "buffers_in (Completed i bs # cs) = i # buffers_in cs" "buffers_in (cs @ ds) = buffers_in cs @ buffers_in ds"
  by (simp_all add: buffers_in_def map_filter_def)

text \<open>What the thread has dequeued and not handed back.\<close>

fun in_thread :: "win_pc \<Rightarrow> completion list" where
  "in_thread (W_check ok cs) = cs"
| "in_thread (W_drain cs) = cs"
| "in_thread (W_repost i bs t cs) = Completed i bs # cs"
| "in_thread (W_post i bs t cs) = Completed i bs # cs"
| "in_thread pc = []"

definition sizes_ok :: "completion list \<Rightarrow> bool" where
  "sizes_ok cs \<longleftrightarrow> (\<forall>i bs. Completed i bs \<in> set cs \<longrightarrow> length bs \<le> RX_IOCP_BUFFER_SIZE)"

lemma sizes_ok_simps [simp]:
  "sizes_ok []" "sizes_ok (Wakeup # cs) = sizes_ok cs"
  "sizes_ok (Completed i bs # cs) \<longleftrightarrow> length bs \<le> RX_IOCP_BUFFER_SIZE \<and> sizes_ok cs"
  "sizes_ok (cs @ ds) \<longleftrightarrow> sizes_ok cs \<and> sizes_ok ds"
  by (auto simp: sizes_ok_def)

definition owners_inv :: "'z win_threads \<Rightarrow> bool" where
  "owners_inv s \<longleftrightarrow> distinct (buffers_in (n_queue s) @ buffers_in (in_thread (n_pc s)))
     \<and> n_kernel s \<inter> set (buffers_in (n_queue s) @ buffers_in (in_thread (n_pc s))) = {}
     \<and> n_kernel s \<union> set (buffers_in (n_queue s) @ buffers_in (in_thread (n_pc s))) \<subseteq> {..<RX_IOCP_NUM_BUFFERS}
     \<and> sizes_ok (n_queue s @ in_thread (n_pc s))
     \<and> (case n_pc s of W_prime i \<Rightarrow> i \<le> RX_IOCP_NUM_BUFFERS
          \<and> n_kernel s \<union> set (buffers_in (n_queue s)) = {..<i} | _ \<Rightarrow> True)"

lemma owners_inv_init: "owners_inv (win_init rx w)"
  by (simp add: owners_inv_def win_init_def)

lemma owners_inv_thread: "win_thread_step user_cb s t \<Longrightarrow> owners_inv s \<Longrightarrow> owners_inv t"
  by (elim win_thread_stepE) (auto simp: owners_inv_def)

lemma owners_inv_fault: "fault_step s t \<Longrightarrow> owners_inv s \<Longrightarrow> owners_inv t"
  by (elim fault_stepE) (auto simp: owners_inv_def)

lemma owners_inv_kernel: "kernel_step s t \<Longrightarrow> owners_inv s \<Longrightarrow> owners_inv t"
  by (elim kernel_stepE) (auto simp: owners_inv_def split: win_pc.splits)

lemma owners_inv_client: "win_stop_step s t \<Longrightarrow> owners_inv s \<Longrightarrow> owners_inv t"
  by (elim win_stop_stepE) (auto simp: owners_inv_def split: win_pc.splits)

lemma owners_reach: "win_reach user_cb rx w s \<Longrightarrow> owners_inv s"
  by (induction rule: win_reach.induct)
    (auto intro: owners_inv_init owners_inv_thread owners_inv_fault owners_inv_kernel owners_inv_client elim!: win_stepE)

section \<open>The thread's run is a run of the loop\<close>

lemma entries_ok_append: "entries_ok (es @ fs) P = do { p \<leftarrow> entries_ok es P; entries_ok fs p }"
  by (induction es arbitrary: P) (auto split: completion.split)

lemma entry_input_append: "entry_input (es @ fs) = entry_input es @ entry_input fs"
  by (induction es) (auto split: completion.split)

lemma win32_exits_simps [simp]:
  "\<not> win32_exits []" "win32_exits (ts @ us) \<longleftrightarrow> win32_exits ts \<or> win32_exits us"
  "win32_exits (t # ts) \<longleftrightarrow> \<not> wt_running t \<or> \<not> wt_running2 t \<or> win32_exits ts"
  by (auto simp: win32_exits_def)

lemma kernel_run_append:
  "\<not> win32_exits ts \<Longrightarrow> kernel_run (ts @ us) P = do { p \<leftarrow> kernel_run ts P; kernel_run us p }"
  by (induction ts arbitrary: P) (auto split: bind_splits)

lemma win32_input_append:
  "\<not> win32_exits ts \<Longrightarrow> win32_input (ts @ us) = win32_input ts @ win32_input us"
  by (induction ts) auto

text \<open>The turns so far, with the batch that is being drained as one more.\<close>

definition win_history :: "'z win_threads \<Rightarrow> win_turn list" where
  "win_history s = n_turns s @
     (case n_pc s of
        W_drain cs \<Rightarrow> [win_turn_of True True True (n_batch s)]
      | W_repost i bs t cs \<Rightarrow> [win_turn_of True True True (n_batch s @ [entry_of (Completed i bs) t False False])]
      | W_post i bs t cs \<Rightarrow> [win_turn_of True True True (n_batch s @ [entry_of (Completed i bs) t True False])]
      | _ \<Rightarrow> [])"

text \<open>The buffers the loop takes to be posted: those of the kernel and the port, and the rest of the batch.\<close>

fun undrained :: "win_pc \<Rightarrow> completion list" where
  "undrained (W_repost i bs t cs) = cs"
| "undrained (W_post i bs t cs) = cs"
| "undrained pc = in_thread pc"

text \<open>Until the thread has read it, a buffer that was completed holds what was received.\<close>

definition buffers_hold :: "'z win_threads \<Rightarrow> bool" where
  "buffers_hold s \<longleftrightarrow> (\<forall>i bs. Completed i bs \<in> set (n_queue s @ undrained (n_pc s)) \<longrightarrow> take (length bs) (n_bytes s i) = bs)"

lemma completed_owner: "Completed i bs \<in> set cs \<Longrightarrow> i \<in> set (buffers_in cs)"
proof (induction cs)
  case (Cons c cs)
  then show ?case by (cases c) auto
qed simp

lemma undrained_in_thread: "set (undrained pc) \<subseteq> set (in_thread pc)"
  by (cases pc) auto

lemma buffers_hold_kernel: "kernel_step s t \<Longrightarrow> owners_inv s \<Longrightarrow> buffers_hold s \<Longrightarrow> buffers_hold t"
proof (elim kernel_stepE)
  fix i bs
  assume own: "owners_inv s" "i \<in> n_kernel s" and hold: "buffers_hold s"
    and t: "t = s\<lparr>n_kernel := n_kernel s - {i}, n_queue := n_queue s @ [Completed i bs],
       n_bytes := (n_bytes s)(i := bs @ drop (length bs) (n_bytes s i))\<rparr>"
  have "j \<noteq> i" if "Completed j cs \<in> set (n_queue s @ undrained (n_pc s))" for j cs
    using that own completed_owner [of j cs] undrained_in_thread [of "n_pc s"] by (auto simp: owners_inv_def)
  then show "buffers_hold t" using hold by (fastforce simp: buffers_hold_def t)
qed (auto simp: buffers_hold_def)

lemma buffers_hold_reach: "win_reach user_cb rx w s \<Longrightarrow> buffers_hold s"
proof (induction rule: win_reach.induct)
  case (win_stepped s t)
  from win_stepped(2) show ?case
  proof cases
    case win_by_kernel
    then show ?thesis using win_stepped(1,3) owners_reach buffers_hold_kernel by blast
  qed (use win_stepped(3) in \<open>(elim win_thread_stepE fault_stepE win_stop_stepE; auto simp: buffers_hold_def)+\<close>)
qed (simp add: buffers_hold_def win_init_def)

definition taken_posted :: "'z win_threads \<Rightarrow> nat set" where
  "taken_posted s = n_kernel s \<union> set (buffers_in (n_queue s)) \<union> set (buffers_in (undrained (n_pc s)))"

lemma win_history_update [simp]:
  "win_history (s\<lparr>n_kernel := k\<rparr>) = win_history s" "win_history (s\<lparr>n_queue := q\<rparr>) = win_history s"
  "win_history (s\<lparr>n_running := b\<rparr>) = win_history s" "win_history (s\<lparr>n_open := b\<rparr>) = win_history s"
  "win_history (s\<lparr>n_rx := r\<rparr>) = win_history s" "win_history (s\<lparr>n_world := w\<rparr>) = win_history s"
  "win_history (s\<lparr>n_stop := p\<rparr>) = win_history s" "win_history (s\<lparr>n_bytes := f\<rparr>) = win_history s"
  by (simp_all add: win_history_def cong: win_pc.case_cong)

lemma taken_posted_update [simp]:
  "taken_posted (s\<lparr>n_running := b\<rparr>) = taken_posted s" "taken_posted (s\<lparr>n_open := b\<rparr>) = taken_posted s"
  "taken_posted (s\<lparr>n_rx := r\<rparr>) = taken_posted s" "taken_posted (s\<lparr>n_world := w\<rparr>) = taken_posted s"
  "taken_posted (s\<lparr>n_stop := p\<rparr>) = taken_posted s" "taken_posted (s\<lparr>n_bytes := f\<rparr>) = taken_posted s"
  "taken_posted (s\<lparr>n_queue := n_queue s @ [Wakeup]\<rparr>) = taken_posted s"
  "i \<in> n_kernel s \<Longrightarrow>
     taken_posted (s\<lparr>n_kernel := n_kernel s - {i}, n_queue := n_queue s @ [Completed i bs]\<rparr>) = taken_posted s"
  by (auto simp: taken_posted_def)

fun priming :: "win_pc \<Rightarrow> bool" where
  "priming (W_prime i) = True"
| "priming pc = False"

definition stop_order :: "'z win_threads \<Rightarrow> bool" where
  "stop_order s \<longleftrightarrow> (n_running s \<longleftrightarrow> n_stop s = N_idle) \<and> (n_open s \<longleftrightarrow> n_stop s \<in> {N_idle, N_wake, N_close})
     \<and> (n_stop s \<in> {N_port, N_free, N_end} \<longrightarrow> n_pc s = W_done)"

definition run_inv :: "'z world_ext user_cb \<Rightarrow> st2110rx \<Rightarrow> 'z world_scheme \<Rightarrow> 'z win_threads \<Rightarrow> bool" where
  "run_inv user_cb rx w s \<longleftrightarrow> n_failed s = None \<longrightarrow>
     (if priming (n_pc s) then n_turns s = [] \<and> n_rx s = rx \<and> n_world s = w
      else (win32_exits (n_turns s) \<longleftrightarrow> n_pc s = W_done)
        \<and> (if n_pc s = W_done then kernel_ok (win_history s) {..<RX_IOCP_NUM_BUFFERS}
           else kernel_run (win_history s) {..<RX_IOCP_NUM_BUFFERS} = Some (taken_posted s))
        \<and> (n_stop s \<notin> {N_free, N_end} \<longrightarrow> receive user_cb (win32_input (win_history s)) rx w = Some (n_rx s, n_world s)))"

definition fail_inv :: "st2110rx \<Rightarrow> 'z world_scheme \<Rightarrow> 'z win_threads \<Rightarrow> bool" where
  "fail_inv rx w s \<longleftrightarrow>
     (case n_failed s of None \<Rightarrow> True
      | Some (i, err) \<Rightarrow> n_pc s = W_done \<and> i < RX_IOCP_NUM_BUFFERS \<and> n_turns s = []
          \<and> (n_stop s \<notin> {N_free, N_end} \<longrightarrow> n_rx s = rx
              \<and> n_world s = rx_log (r_config rx) ST2110RX_LOG_ERROR (Msg_prime_failed err) w))"

lemma stop_order_reach: "win_reach user_cb rx w s \<Longrightarrow> stop_order s"
proof (induction rule: win_reach.induct)
  case (win_stepped s t)
  from win_stepped(2,3) show ?case
    by (elim win_stepE win_thread_stepE fault_stepE kernel_stepE win_stop_stepE) (auto simp: stop_order_def)
qed (simp add: stop_order_def win_init_def)

lemma receive_one [simp]: "receive user_cb [(t, p)] rx h = rx_process_packet user_cb t p rx h"
  by (cases "rx_process_packet user_cb t p rx h") auto

lemmas history_simps = kernel_ok_def win_history_def taken_posted_def kernel_run_append win32_input_append entries_ok_append
  entry_input_append

text \<open>A completion leaves the batch: the loop takes its buffer back from the kernel.\<close>

lemma kernel_run_dequeue:
  assumes "kernel_run (ts @ [win_turn_of True True True es]) P = Some (insert i Q)" and "i \<notin> Q"
    and "length bs \<le> RX_IOCP_BUFFER_SIZE" and "\<not> win32_exits ts"
  shows "kernel_run (ts @ [win_turn_of True True True (es @ [entry_of (Completed i bs) u r False])]) P = Some Q"
proof -
  obtain y where "kernel_run ts P = Some y" "entries_ok es y = Some (insert i Q)"
    using assms(1,4) by (auto simp: kernel_run_append Option.bind_eq_Some_conv)
  then show ?thesis using assms(2-4) by (simp add: kernel_run_append entries_ok_append)
qed

lemma taken_posted_drain:
  assumes "owners_inv s" and "n_pc s = W_drain (Completed i bs # cs)"
  shows "taken_posted s = insert i (taken_posted (s\<lparr>n_pc := W_repost i bs u cs\<rparr>))"
    and "i \<notin> taken_posted (s\<lparr>n_pc := W_repost i bs u cs\<rparr>)" and "length bs \<le> RX_IOCP_BUFFER_SIZE"
  using assms by (auto simp: taken_posted_def owners_inv_def)

lemma run_inv_thread:
  assumes step: "win_thread_step user_cb s t" and inv: "run_inv user_cb rx w s" and own: "owners_inv s"
    and fail: "fail_inv rx w s" and order: "stop_order s" and hold: "buffers_hold s"
  shows "run_inv user_cb rx w t"
proof (cases "n_failed t")
  case (Some x)
  then show ?thesis by (simp add: run_inv_def)
next
  case None
  have ok: "n_failed s = None" using step None by cases (auto split: option.splits)
  note inv' = inv [unfolded run_inv_def, rule_format, OF ok]
  from step show ?thesis
  proof cases
    case (prime_ok i)
    then show ?thesis using inv' by (simp add: run_inv_def)
  next
    case (prime_fail i err)
    then show ?thesis by (simp add: run_inv_def)
  next
    case primed
    then show ?thesis using inv' own by (auto simp: run_inv_def owners_inv_def history_simps)
  next
    case (datagram i bs cs now_us rx' w')
    have live: "n_stop s \<notin> {N_free, N_end}" using order datagram(2) by (auto simp: stop_order_def)
    have held: "take (length bs) (n_bytes s i) = bs" using hold datagram(2) by (simp add: buffers_hold_def)
    have "kernel_run (win_history t) {..<RX_IOCP_NUM_BUFFERS} = Some (taken_posted t)"
      using inv' datagram taken_posted_drain(1,2) [OF own datagram(2), of now_us] taken_posted_drain(3) [OF own datagram(2)]
      by (simp add: win_history_def kernel_run_dequeue)
    moreover have "receive user_cb (win32_input (win_history t)) rx w = Some (n_rx t, n_world t)"
      using inv' datagram live held
      by (auto simp: win_history_def win32_input_append entry_input_append receive_append Option.bind_eq_Some_conv)
    ultimately show ?thesis using inv' datagram by (simp add: run_inv_def)
  next
    case (no_bytes i cs)
    have "kernel_run (win_history t) {..<RX_IOCP_NUM_BUFFERS} = Some (taken_posted t)"
      using inv' no_bytes taken_posted_drain(1,2) [OF own no_bytes(2), of 0]
      by (simp add: win_history_def kernel_run_dequeue)
    moreover have "win32_input (win_history t) = win32_input (win_history s)"
      using inv' no_bytes by (simp add: win_history_def win32_input_append entry_input_append)
    ultimately show ?thesis using inv' no_bytes by (simp add: run_inv_def)
  next
    case (post_ok i bs u cs)
    have k: "kernel_run (win_history s) {..<RX_IOCP_NUM_BUFFERS} = Some (taken_posted s)" "\<not> win32_exits (n_turns s)"
      using inv' post_ok by simp_all
    obtain y q where y: "kernel_run (n_turns s) {..<RX_IOCP_NUM_BUFFERS} = Some y" "entries_ok (n_batch s) y = Some q"
        "i \<in> q" "q - {i} = taken_posted s"
      using k post_ok(2)
      by (simp add: win_history_def kernel_run_append entries_ok_append Option.bind_eq_Some_conv split: if_splits)
    have "taken_posted t = insert i (taken_posted s)" "length bs \<le> RX_IOCP_BUFFER_SIZE"
      using own post_ok by (auto simp: taken_posted_def owners_inv_def)
    then have "kernel_run (win_history t) {..<RX_IOCP_NUM_BUFFERS} = Some (taken_posted t)"
      using inv' post_ok y by (auto simp: win_history_def kernel_run_append entries_ok_append)
    moreover have "win32_input (win_history t) = win32_input (win_history s)"
      using inv' post_ok by (simp add: win_history_def win32_input_append entry_input_append)
    ultimately show ?thesis using inv' post_ok by (auto simp: run_inv_def)
  qed (use inv' own in \<open>auto simp: run_inv_def owners_inv_def history_simps Option.bind_eq_Some_conv split: if_splits\<close>)
qed

lemma run_inv_fault:
  assumes "fault_step s t" and inv: "run_inv user_cb rx w s" and own: "owners_inv s" and fail: "fail_inv rx w s"
  shows "run_inv user_cb rx w t"
  using assms(1)
proof cases
  case (prime_fault i err)
  then show ?thesis by (simp add: run_inv_def)
next
  case dequeue_fault
  then show ?thesis using inv by (auto simp: run_inv_def history_simps)
next
  case (post_fault i bs u cs)
  then show ?thesis
    using inv own by (auto simp: run_inv_def owners_inv_def history_simps Option.bind_eq_Some_conv split: if_splits)
qed

text \<open>The kernel moves buffers to the port, which the loop does not notice; the client frees when it is over.\<close>

lemma run_inv_kernel: "kernel_step s t \<Longrightarrow> run_inv user_cb rx w s \<Longrightarrow> run_inv user_cb rx w t"
  by (elim kernel_stepE) (simp_all add: run_inv_def)

lemma run_inv_client:
  assumes "win_stop_step s t" and "run_inv user_cb rx w s" and "stop_order s"
  shows "run_inv user_cb rx w t"
  using assms by (elim win_stop_stepE) (auto simp: run_inv_def stop_order_def)

lemma fail_inv_step:
  assumes "win_step user_cb s t" and "fail_inv rx w s" and "run_inv user_cb rx w s" and "stop_order s"
  shows "fail_inv rx w t"
  using assms
  by (elim win_stepE win_thread_stepE fault_stepE kernel_stepE win_stop_stepE)
    (auto simp: fail_inv_def run_inv_def stop_order_def split: option.splits)

lemma run_reach: "win_reach user_cb rx w s \<Longrightarrow> run_inv user_cb rx w s \<and> fail_inv rx w s"
proof (induction rule: win_reach.induct)
  case (win_stepped s t)
  note old = owners_reach [OF win_stepped(1)] stop_order_reach [OF win_stepped(1)] buffers_hold_reach [OF win_stepped(1)]
    win_stepped(3)
  have "run_inv user_cb rx w t"
    using win_stepped(2) old by (elim win_stepE) (auto intro: run_inv_thread run_inv_fault run_inv_kernel run_inv_client)
  moreover have "fail_inv rx w t" using fail_inv_step [OF win_stepped(2)] old by blast
  ultimately show ?case ..
qed (simp add: run_inv_def fail_inv_def win_init_def)

text \<open>So the thread does what \<open>rx_receiver_loop\<close> does on a schedule the kernel may produce.\<close>

lemma win_run_is_loop:
  assumes "win_reach user_cb rx w s" and "n_stop s \<notin> {N_free, N_end}" and "\<not> priming (n_pc s)"
  shows "\<exists>err ok p. rx_receiver_loop_win32 user_cb err ok (win_history s) rx w
      = Some (n_pc s = W_done, n_rx s, n_world s, p)"
    and "n_failed s = None \<Longrightarrow> kernel_ok (win_history s) {..<RX_IOCP_NUM_BUFFERS}"
proof -
  note inv = run_reach [OF assms(1)]
  show k: "kernel_ok (win_history s) {..<RX_IOCP_NUM_BUFFERS}" if "n_failed s = None"
    using inv that assms(3) by (simp add: run_inv_def kernel_ok_def split: if_splits)
  show "\<exists>err ok p. rx_receiver_loop_win32 user_cb err ok (win_history s) rx w = Some (n_pc s = W_done, n_rx s, n_world s, p)"
  proof (cases "n_failed s")
    case None
    have "win32_exits (win_history s) \<longleftrightarrow> n_pc s = W_done" and
      "receive user_cb (win32_input (win_history s)) rx w = Some (n_rx s, n_world s)"
      using inv None assms(2,3) by (auto simp: run_inv_def win_history_def split: win_pc.splits)
    then show ?thesis
      using win32_loop_eq [of "\<lambda>_. True" "win_history s" user_cb 0 rx w] k [OF None] by auto
  next
    case (Some x)
    obtain i err where "x = (i, err)" by (cases x)
    then have f: "n_pc s = W_done" "i < RX_IOCP_NUM_BUFFERS" "n_rx s = rx"
        "n_world s = rx_log (r_config rx) ST2110RX_LOG_ERROR (Msg_prime_failed err) w"
      using inv Some assms(2) by (auto simp: fail_inv_def)
    then show ?thesis
      using win32_loop_prime_failure [of i "\<lambda>k. k \<noteq> i" user_cb err "win_history s" rx w] by metis
  qed
qed

section \<open>No step goes wrong\<close>

text \<open>What the thread leaves, and what the client makes of it.\<close>

definition thread_left :: "'z world_ext user_cb \<Rightarrow> st2110rx \<Rightarrow> 'z world_scheme \<Rightarrow> 'z win_threads \<Rightarrow> st2110rx \<Rightarrow> 'z world_scheme \<Rightarrow> bool"
  where "thread_left user_cb rx w s rx1 w1 \<longleftrightarrow>
     (case n_failed s of
        None \<Rightarrow> receive user_cb (win32_input (win_history s)) rx w = Some (rx1, w1)
      | Some (i, err) \<Rightarrow> rx1 = rx \<and> w1 = rx_log (r_config rx) ST2110RX_LOG_ERROR (Msg_prime_failed err) w)"

lemma thread_left_now:
  assumes "win_reach user_cb rx w s" and "n_stop s \<notin> {N_free, N_end}" and "\<not> priming (n_pc s)"
  shows "thread_left user_cb rx w s (n_rx s) (n_world s)"
  using run_reach [OF assms(1)] assms(2,3)
  by (auto simp: thread_left_def run_inv_def fail_inv_def split: option.splits)

lemma done_steps:
  assumes "win_step user_cb s t" and "n_pc s = W_done"
  shows "n_pc t = W_done \<and> n_failed t = n_failed s \<and> win_history t = win_history s"
  using assms by (elim win_stepE win_thread_stepE fault_stepE kernel_stepE win_stop_stepE) auto

lemma port_reach:
  "win_reach user_cb rx w s \<Longrightarrow> n_stop s = N_free \<Longrightarrow>
     \<exists>rx1 w1. thread_left user_cb rx w s rx1 w1 \<and> close_iocp WIN32 rx1 w1 = Some (n_rx s, n_world s)"
proof (induction rule: win_reach.induct)
  case win_started
  then show ?case by (simp add: win_init_def)
next
  case (win_stepped s t)
  have order: "stop_order s" by (rule stop_order_reach [OF win_stepped(1)])
  show ?case
  proof (cases "n_stop s = N_free")
    case True
    then have fin: "n_pc s = W_done" using order by (auto simp: stop_order_def)
    have "n_rx t = n_rx s" "n_world t = n_world s"
      using win_stepped(2,4) True fin
      by (auto elim!: win_stepE win_thread_stepE fault_stepE kernel_stepE win_stop_stepE)
    then show ?thesis
      using win_stepped(3) [OF True] done_steps [OF win_stepped(2) fin] by (simp add: thread_left_def cong: option.case_cong)
  next
    case False
    then have port: "n_stop s = N_port" "close_iocp WIN32 (n_rx s) (n_world s) = Some (n_rx t, n_world t)"
      using win_stepped(2,4) by (auto elim!: win_stepE win_thread_stepE fault_stepE kernel_stepE win_stop_stepE)
    then have fin: "n_pc s = W_done" using order by (simp add: stop_order_def)
    then have "thread_left user_cb rx w s (n_rx s) (n_world s)"
      using port(1) by (intro thread_left_now [OF win_stepped(1)]) auto
    then show ?thesis
      using port(2) done_steps [OF win_stepped(2) fin] by (auto simp: thread_left_def cong: option.case_cong)
  qed
qed

lemma close_iocp_life:
  assumes "life_inv WIN32 R rx w"
  obtains (closed) rx' w' where "close_iocp WIN32 rx w = Some (rx', w')" and "owns rx' w'"
    and "contents w' (r_iocp_buffers rx) = None"
proof -
  have own: "owns rx w" and hold: "holding w (iocp_held rx + (thread_held rx + joined_socket (r_sock rx) (r_mreq rx)
      + (if r_sockets_initialized rx then startup_held WIN32 else {#}) + R))"
    using assms by (simp_all add: life_inv_def held_def ac_simps)
  have live: "r_iocp_buffers rx \<noteq> None \<longrightarrow> contents w (r_iocp_buffers rx) \<noteq> None"
    using own by (auto simp: owns_def owned_def)
  obtain w' where w': "close_iocp WIN32 rx w = Some (rx\<lparr>r_iocp := None, r_iocp_buffers := None\<rparr>, w')"
      "\<And>p. contents w' p = (if p = r_iocp_buffers rx then None else contents w p)"
    by (rule close_iocp_obtain [OF hold live, of WIN32]) simp_all
  have "owns (rx\<lparr>r_iocp := None, r_iocp_buffers := None\<rparr>) w'"
  proof (cases "r_iocp_buffers rx")
    case None
    moreover have "contents w None = None" by (simp add: contents_def)
    ultimately have "contents w' p = contents w p" for p using w'(2) by simp
    then show ?thesis using own None by (simp add: owns_def owned_def)
  next
    case (Some b)
    then show ?thesis using own w'(2) by (auto simp: owns_def owned_def)
  qed
  with w'(1) show ?thesis using w'(2) [of "r_iocp_buffers rx"] by (intro closed) simp_all
qed

text \<open>The datagram that would be processed next, at time \<open>u\<close>.\<close>

fun next_datagram :: "u64 \<Rightarrow> win_pc \<Rightarrow> (u64 \<times> byte list) list" where
  "next_datagram u (W_drain (Completed i bs # cs)) = (if bs = [] then [] else [(u, bs)])"
| "next_datagram u pc = []"

definition win_next_defined :: "'z world_ext user_cb \<Rightarrow> u64 \<Rightarrow> 'z win_threads \<Rightarrow> bool" where
  "win_next_defined user_cb u s \<longleftrightarrow> receive user_cb (next_datagram u (n_pc s)) (n_rx s) (n_world s) \<noteq> None
     \<and> (n_stop s = N_port \<longrightarrow> close_iocp WIN32 (n_rx s) (n_world s) \<noteq> None)
     \<and> (n_stop s = N_free \<longrightarrow> free_receiver (n_rx s) (n_world s) \<noteq> None)"

lemma win_defined:
  fixes w :: "'z world_scheme"
  assumes client: "\<And>s. receiver_client (user_cb s) ok {} (\<lambda>_. True) seen_by observe rx"
    and ready: "thread_ready WIN32 ok R c n rx w" and c: "valid_config c"
    and okD: "\<And>h. ok h \<Longrightarrow> heap_wf h \<and> trace h = trace w"
    and B: "47721858845 \<le> B" "B < 2 ^ 53"
    and clock: "steady_clock t0 B (map fst (win32_input (win_history s) @ next_datagram u (n_pc s)))"
    and reach: "win_reach user_cb rx w s"
  shows "win_next_defined user_cb u s"
proof -
  have order: "stop_order s" by (rule stop_order_reach [OF reach])
  obtain rx2 w2 where all: "receive user_cb (win32_input (win_history s) @ next_datagram u (n_pc s)) rx w = Some (rx2, w2)"
      "life_inv WIN32 R rx2 w2"
    using session_receive [where user_cb = user_cb and ok = ok and seen_by = seen_by and observe = observe,
        OF client ready c okD B clock] by metis
  have left: "life_inv WIN32 R rx1 w1" if "thread_left user_cb rx w s rx1 w1" "n_pc s = W_done" for rx1 w1
    using that all ready by (auto simp: thread_left_def thread_ready_def split: option.splits)
  have "receive user_cb (next_datagram u (n_pc s)) (n_rx s) (n_world s) \<noteq> None"
  proof (cases "next_datagram u (n_pc s) = []")
    case False
    then obtain i bs cs where pc: "n_pc s = W_drain (Completed i bs # cs)" by (cases "(u, n_pc s)" rule: next_datagram.cases) auto
    then have "n_stop s \<notin> {N_free, N_end}" "n_failed s = None"
      using order run_reach [OF reach] by (auto simp: stop_order_def fail_inv_def split: option.splits)
    then have "receive user_cb (win32_input (win_history s)) rx w = Some (n_rx s, n_world s)"
      using thread_left_now [OF reach] pc by (simp add: thread_left_def)
    then show ?thesis using all(1) by (auto simp: receive_append)
  qed simp
  moreover have "close_iocp WIN32 (n_rx s) (n_world s) \<noteq> None" if "n_stop s = N_port"
  proof -
    have fin: "n_pc s = W_done" using that order by (simp add: stop_order_def)
    have "thread_left user_cb rx w s (n_rx s) (n_world s)" using that fin by (intro thread_left_now [OF reach]) auto
    from close_iocp_life [OF left [OF this fin]] show ?thesis by (metis option.distinct(1))
  qed
  moreover have "free_receiver (n_rx s) (n_world s) \<noteq> None" if "n_stop s = N_free"
  proof -
    have fin: "n_pc s = W_done" using that order by (simp add: stop_order_def)
    obtain rx1 w1 where "thread_left user_cb rx w s rx1 w1" "close_iocp WIN32 rx1 w1 = Some (n_rx s, n_world s)"
      using port_reach [OF reach] \<open>n_stop s = N_free\<close> by blast
    then show ?thesis using close_iocp_life [OF left [OF _ fin]] free_owned by (metis option.inject prod.inject)
  qed
  ultimately show ?thesis by (simp add: win_next_defined_def)
qed

lemma steady_clock_prefix: "steady_clock t0 B (xs @ ys) \<Longrightarrow> steady_clock t0 B xs"
  by (induction xs arbitrary: t0) (auto simp: steady_clock_Cons)

text \<open>Until the client has freed the pool, its block is live.\<close>

lemma pool_live:
  fixes w :: "'z world_scheme"
  assumes client: "\<And>s. receiver_client (user_cb s) ok {} (\<lambda>_. True) seen_by observe rx"
    and ready: "thread_ready WIN32 ok R c n rx w" and c: "valid_config c"
    and okD: "\<And>h. ok h \<Longrightarrow> heap_wf h \<and> trace h = trace w"
    and B: "47721858845 \<le> B" "B < 2 ^ 53"
    and clock: "steady_clock t0 B (map fst (win32_input (win_history s) @ next_datagram u (n_pc s)))"
    and reach: "win_reach user_cb rx w s" and stop: "n_stop s \<notin> {N_free, N_end}"
  shows "contents (n_world s) (r_iocp_buffers rx) \<noteq> None"
proof -
  have pool: "r_iocp_buffers rx \<in> set (owned rx)" "owns rx w"
    using ready by (auto simp: thread_ready_def active_def owned_def life_inv_def)
  have clk: "steady_clock t0 B (map fst (win32_input (win_history s)))"
    using clock steady_clock_prefix by fastforce
  obtain rx2 w2 where all: "receive user_cb (win32_input (win_history s)) rx w = Some (rx2, w2)"
      "life_inv WIN32 R rx2 w2" "set (owned rx2) = set (owned rx)"
    using session_receive [where user_cb = user_cb and ok = ok and seen_by = seen_by and observe = observe,
        OF client ready c okD B clk] by metis
  then have after: "contents w2 (r_iocp_buffers rx) \<noteq> None" using pool(1) by (auto simp: life_inv_def owns_def)
  have before: "contents w (r_iocp_buffers rx) \<noteq> None" using pool by (simp add: owns_def)
  show ?thesis
  proof (cases "priming (n_pc s)")
    case True
    then have "n_failed s = None" using run_reach [OF reach] by (auto simp: fail_inv_def split: option.splits)
    then show ?thesis using True run_reach [OF reach] before by (simp add: run_inv_def)
  next
    case False
    then show ?thesis
      using thread_left_now [OF reach stop] all(1) after before by (auto simp: thread_left_def split: option.splits)
  qed
qed

section \<open>Stopping ends\<close>

text \<open>
  The wakeup is on the port as long as the thread waits; a batch is never longer than 64.
\<close>

definition wake_inv :: "'z win_threads \<Rightarrow> bool" where
  "wake_inv s \<longleftrightarrow> (n_stop s \<notin> {N_idle, N_wake} \<and> n_pc s = W_wait \<longrightarrow> Wakeup \<in> set (n_queue s))
     \<and> length (in_thread (n_pc s)) \<le> RX_IOCP_BATCH \<and> (\<forall>b. n_pc s = W_check False b \<longrightarrow> b = [])"

lemma wake_inv_thread: "win_thread_step user_cb s t \<Longrightarrow> wake_inv s \<Longrightarrow> stop_order s \<Longrightarrow> wake_inv t"
  by (elim win_thread_stepE) (auto simp: wake_inv_def stop_order_def)

lemma wake_inv_fault: "fault_step s t \<Longrightarrow> wake_inv s \<Longrightarrow> wake_inv t"
  by (elim fault_stepE) (auto simp: wake_inv_def)

lemma wake_inv_kernel: "kernel_step s t \<Longrightarrow> wake_inv s \<Longrightarrow> wake_inv t"
  by (elim kernel_stepE) (auto simp: wake_inv_def)

lemma wake_inv_client: "win_stop_step s t \<Longrightarrow> wake_inv s \<Longrightarrow> wake_inv t"
  by (elim win_stop_stepE) (auto simp: wake_inv_def)

lemma wake_reach: "win_reach user_cb rx w s \<Longrightarrow> wake_inv s"
proof (induction rule: win_reach.induct)
  case (win_stepped s t)
  then show ?case
    using stop_order_reach [OF win_stepped(1)]
    by (auto intro: wake_inv_thread wake_inv_fault wake_inv_kernel wake_inv_client elim!: win_stepE)
qed (simp add: wake_inv_def win_init_def)

text \<open>The steps that are left once the stop has been requested; posting a buffer gives the kernel one more.\<close>

fun win_thread_fuel :: "win_pc \<Rightarrow> nat" where
  "win_thread_fuel (W_prime i) = 2 * (RX_IOCP_NUM_BUFFERS - i) + 2"
| "win_thread_fuel W_load = 1"
| "win_thread_fuel W_wait = 2"
| "win_thread_fuel (W_check ok b) = 1"
| "win_thread_fuel (W_drain cs) = 2 * length cs + 2"
| "win_thread_fuel (W_repost i bs t cs) = 2 * length cs + 3"
| "win_thread_fuel (W_post i bs t cs) = 2 * length cs + 4"
| "win_thread_fuel W_done = 0"

fun win_stop_fuel :: "win_stop_pc \<Rightarrow> nat" where
  "win_stop_fuel N_idle = 6"
| "win_stop_fuel N_wake = 5"
| "win_stop_fuel N_close = 4"
| "win_stop_fuel N_join = 3"
| "win_stop_fuel N_port = 2"
| "win_stop_fuel N_free = 1"
| "win_stop_fuel N_end = 0"

definition win_fuel :: "'z win_threads \<Rightarrow> nat" where
  "win_fuel s = win_thread_fuel (n_pc s) + card (n_kernel s) + win_stop_fuel (n_stop s)"

lemma owners_finite: "owners_inv s \<Longrightarrow> finite (n_kernel s) \<and> card (n_kernel s) \<le> RX_IOCP_NUM_BUFFERS"
proof -
  assume "owners_inv s"
  then have "n_kernel s \<subseteq> {..<RX_IOCP_NUM_BUFFERS}" by (simp add: owners_inv_def)
  then show ?thesis using card_mono [of "{..<RX_IOCP_NUM_BUFFERS}"] finite_subset by fastforce
qed

lemma win_fuel_bound:
  assumes "owners_inv s" and "wake_inv s" and "n_stop s \<noteq> N_idle"
  shows "win_fuel s \<le> 199"
proof -
  have "win_thread_fuel (n_pc s) \<le> 130"
    using assms(2) by (cases "n_pc s") (auto simp: wake_inv_def RX_IOCP_NUM_BUFFERS_def RX_IOCP_BATCH_def)
  moreover have "win_stop_fuel (n_stop s) \<le> 5" using assms(3) by (cases "n_stop s") simp_all
  ultimately show ?thesis using owners_finite [OF assms(1)] by (simp add: win_fuel_def RX_IOCP_NUM_BUFFERS_def)
qed

lemma win_fuel_step:
  assumes "win_step user_cb s t" and "owners_inv s" and "stop_order s" and "n_stop s \<noteq> N_idle"
  shows "win_fuel t < win_fuel s \<and> n_stop t \<noteq> N_idle"
proof -
  have fin: "finite (n_kernel s)" and run: "\<not> n_running s"
    using owners_finite [OF assms(2)] assms(3,4) by (simp_all add: stop_order_def)
  from assms(1) show ?thesis
  proof cases
    case win_by_thread
    then show ?thesis
      using assms(4) run fin
      by (elim win_thread_stepE) (auto simp: win_fuel_def card_insert_if)
  next
    case win_by_fault
    then show ?thesis using assms(4) by (elim fault_stepE) (auto simp: win_fuel_def)
  next
    case win_by_kernel
    then show ?thesis
      using assms(4) fin by (elim kernel_stepE) (auto simp: win_fuel_def card_gt_0_iff intro!: diff_less)
  next
    case win_by_client
    then show ?thesis using assms(4) by (elim win_stop_stepE) (auto simp: win_fuel_def)
  qed
qed

lemma win_fuel_steps:
  assumes "win_reach user_cb rx w s" and "n_stop s \<noteq> N_idle" and "(win_step user_cb ^^ k) s t"
  shows "win_reach user_cb rx w t \<and> k + win_fuel t \<le> win_fuel s \<and> n_stop t \<noteq> N_idle"
  using assms(3)
proof (induction k arbitrary: t)
  case 0
  then show ?case using assms(1,2) by simp
next
  case (Suc k)
  then obtain u where u: "(win_step user_cb ^^ k) s u" "win_step user_cb u t" by auto
  then show ?case
    using Suc.IH [OF u(1)] win_fuel_step [OF u(2)] owners_reach stop_order_reach win_reach.win_stepped by fastforce
qed

text \<open>The thread or the client can step until the end.\<close>

lemma win_progress:
  assumes def: "win_next_defined user_cb u s" and wake: "wake_inv s" and own: "owners_inv s" and order: "stop_order s"
    and "n_stop s \<notin> {N_idle, N_end}" and hold: "buffers_hold s"
  shows "\<exists>t. win_thread_step user_cb s t \<or> win_stop_step s t"
proof (cases "n_stop s \<in> {N_wake, N_close, N_port, N_free} \<or> n_pc s = W_done")
  case True
  then show ?thesis
    using assms(5) def order
    by (cases "n_stop s") (auto simp: win_next_defined_def stop_order_def intro: win_stop_step.intros)
next
  case False
  then have join: "n_stop s = N_join" "\<not> n_running s" using assms(5) order by (cases "n_stop s"; simp add: stop_order_def)+
  show ?thesis
  proof (cases "n_pc s")
    case (W_prime i)
    then have "i < RX_IOCP_NUM_BUFFERS \<or> i = RX_IOCP_NUM_BUFFERS" using own by (auto simp: owners_inv_def)
    moreover have "\<not> n_open s" using join(1) order by (simp add: stop_order_def)
    ultimately show ?thesis using W_prime by (auto intro: win_thread_step.prime_fail win_thread_step.primed)
  next
    case W_wait
    then obtain c q where "n_queue s = [c] @ q" using wake join by (cases "n_queue s") (auto simp: wake_inv_def)
    from win_thread_step.dequeue [OF W_wait this, of user_cb] show ?thesis by (auto simp: RX_IOCP_BATCH_def)
  next
    case (W_drain cs)
    show ?thesis
    proof (cases "next_datagram u (n_pc s) = []")
      case True
      then show ?thesis using W_drain
        by (cases "(u, n_pc s)" rule: next_datagram.cases)
          (auto intro: win_thread_step.drained win_thread_step.wakeup win_thread_step.no_bytes split: if_splits)
    next
      case False
      then obtain i bs cs where pc: "n_pc s = W_drain (Completed i bs # cs)" "bs \<noteq> []"
        by (cases "(u, n_pc s)" rule: next_datagram.cases) (auto split: if_splits)
      then obtain rx' w' where "rx_process_packet user_cb u bs (n_rx s) (n_world s) = Some (rx', w')"
        using def pc by (auto simp: win_next_defined_def simp del: receive.simps(2))
      moreover have "take (length bs) (n_bytes s i) = bs" using hold pc(1) by (simp add: buffers_hold_def)
      ultimately show ?thesis using win_thread_step.datagram [OF pc, of user_cb u] by auto
    qed
  qed (use False join order in \<open>auto simp: stop_order_def intro: win_thread_step.intros\<close>)
qed

end
