(* ===== verification/Win_Props.thy ===== *)
theory Win_Props
  imports Rx_Threads_Win Thread_Props
begin

text \<open>
  What holds on Windows while the receive thread, the kernel and a client that stops and
  destroys the receiver run, in every interleaving of their steps.
\<close>

section \<open>The schedule of the thread\<close>

text \<open>C13: the receive thread on Windows, the kernel and a client that stops the
  receiver, interleaved in any way: until the memory is freed, what the thread has done is
  exactly what \<open>rx_receiver_loop\<close> does on the schedule of its calls so far, and it has ended
  exactly when the loop has returned. The schedule is one in which a buffer is completed
  only while it is posted, so everything proved of the loop on such schedules holds of the
  running thread.\<close>

lemma win_threads_schedule:
  assumes "win_reach user_cb rx w s" and "n_stop s \<notin> {N_free, N_end}" and "\<not> priming (n_pc s)"
  shows "(\<exists>err ok p. rx_receiver_loop_win32 user_cb err ok (win_history s) rx w
      = Some (n_pc s = W_done, n_rx s, n_world s, p))
    \<and> (n_failed s = None \<longrightarrow> kernel_ok (win_history s) {..<RX_IOCP_NUM_BUFFERS})"
  using win_run_is_loop [OF assms] by blast

text \<open>The thread once all buffers are posted.\<close>

lemma primed_reach:
  assumes "i \<le> RX_IOCP_NUM_BUFFERS"
  shows "win_reach user_cb rx w ((win_init rx w)\<lparr>n_kernel := {..<i}, n_pc := W_prime i\<rparr>)"
  using assms
proof (induction i)
  case 0
  have "(win_init rx w)\<lparr>n_kernel := {..<0}, n_pc := W_prime 0\<rparr> = win_init rx w" by (simp add: win_init_def)
  then show ?case by (metis win_reach.win_started)
next
  case (Suc i)
  let ?s = "(win_init rx w)\<lparr>n_kernel := {..<i}, n_pc := W_prime i\<rparr>"
  have "win_thread_step user_cb ?s (?s\<lparr>n_kernel := insert i (n_kernel ?s), n_pc := W_prime (Suc i)\<rparr>)"
    using Suc.prems by (intro win_thread_step.prime_ok) (simp_all add: win_init_def)
  moreover have "?s\<lparr>n_kernel := insert i (n_kernel ?s), n_pc := W_prime (Suc i)\<rparr>
      = (win_init rx w)\<lparr>n_kernel := {..<Suc i}, n_pc := W_prime (Suc i)\<rparr>"
    by (simp add: win_init_def lessThan_Suc)
  ultimately show ?case
    using Suc by (metis win_reach.win_stepped win_step.win_by_thread Suc_leD)
qed

definition waiting :: "st2110rx \<Rightarrow> 'z world_scheme \<Rightarrow> 'z win_threads" where
  "waiting rx w = (win_init rx w)\<lparr>n_kernel := {..<RX_IOCP_NUM_BUFFERS}, n_pc := W_wait\<rparr>"

lemma waiting_reach: "win_reach user_cb rx w (waiting rx w)"
proof -
  let ?s = "(win_init rx w)\<lparr>n_kernel := {..<RX_IOCP_NUM_BUFFERS}, n_pc := W_prime RX_IOCP_NUM_BUFFERS\<rparr>"
  have "win_thread_step user_cb ?s (?s\<lparr>n_pc := W_load\<rparr>)" by (intro win_thread_step.primed) simp
  moreover have "win_thread_step user_cb (?s\<lparr>n_pc := W_load\<rparr>) (?s\<lparr>n_pc := W_load\<rparr>\<lparr>n_pc := W_wait\<rparr>)"
    by (intro win_thread_step.load_go) (simp_all add: win_init_def)
  moreover have "?s\<lparr>n_pc := W_load\<rparr>\<lparr>n_pc := W_wait\<rparr> = waiting rx w" by (simp add: waiting_def)
  ultimately show ?thesis
    using primed_reach [of RX_IOCP_NUM_BUFFERS user_cb rx w] by (metis win_reach.win_stepped win_step.win_by_thread order_refl)
qed

lemma win_threads_schedule_witness:
  "\<exists>(w :: cli_world) rx s err ok p. win_reach cli_frame_cb rx w s \<and> n_pc s = W_wait
    \<and> rx_receiver_loop_win32 cli_frame_cb err ok [] rx w = Some (False, rx, w, p)"
proof -
  obtain rx and w :: cli_world where "thread_ready WIN32 (cli_ok (trace w) False) {#} demo_session 0 rx w"
    by (rule demo_started)
  have "\<exists>err ok p. rx_receiver_loop_win32 cli_frame_cb err ok (win_history (waiting rx w)) rx w
      = Some (n_pc (waiting rx w) = W_done, n_rx (waiting rx w), n_world (waiting rx w), p)"
    using win_threads_schedule [OF waiting_reach [of cli_frame_cb rx w]] by (simp add: waiting_def win_init_def)
  then have "\<exists>err ok p. rx_receiver_loop_win32 cli_frame_cb err ok [] rx w = Some (False, rx, w, p)"
    by (simp add: waiting_def win_init_def win_history_def)
  moreover have "n_pc (waiting rx w) = W_wait" by (simp add: waiting_def)
  ultimately show ?thesis using waiting_reach [of cli_frame_cb rx w] by blast
qed

section \<open>Buffers and memory\<close>

text \<open>C14: on Windows, in every interleaving of the receive thread, the kernel and a
  client that stops and destroys the receiver: every buffer of the pool has at most one
  owner among the kernel, the completion port and the thread, and a buffer whose completion
  is still to be processed holds the datagram it was completed with, so the thread never
  reads what the kernel may be writing; a datagram is processed without an access out of
  bounds or to freed memory; the pool is live until the client frees it, and it and the
  receiver are freed, each block live, only after the thread has ended. This is about the
  thread, the client, and the kernel while the pool is there; the receives that are still
  pending when the pool is freed are not covered, and that there can be some is
  \<open>pool_freed_in_use\<close>.\<close>

lemma win_threads_memory_safe:
  fixes w :: "'z world_scheme"
  assumes "\<And>st. receiver_client (user_cb st) ok {} (\<lambda>_. True) seen_by observe rx"
    and "thread_ready WIN32 ok R c n rx w" and "valid_config c" and "\<And>h. ok h \<Longrightarrow> heap_wf h \<and> trace h = trace w"
    and "47721858845 \<le> B" and "B < 2 ^ 53"
    and "steady_clock t0 B (map fst (win32_input (win_history s) @ next_datagram u (n_pc s)))"
    and "win_reach user_cb rx w s"
  shows "distinct (buffers_in (n_queue s) @ buffers_in (in_thread (n_pc s)))
    \<and> n_kernel s \<inter> set (buffers_in (n_queue s) @ buffers_in (in_thread (n_pc s))) = {}
    \<and> (\<forall>i bs. Completed i bs \<in> set (n_queue s @ undrained (n_pc s)) \<longrightarrow> take (length bs) (n_bytes s i) = bs)
    \<and> receive user_cb (next_datagram u (n_pc s)) (n_rx s) (n_world s) \<noteq> None
    \<and> (n_stop s \<notin> {N_free, N_end} \<longrightarrow> contents (n_world s) (r_iocp_buffers rx) \<noteq> None)
    \<and> (n_stop s = N_port \<longrightarrow> close_iocp WIN32 (n_rx s) (n_world s) \<noteq> None)
    \<and> (n_stop s = N_free \<longrightarrow> free_receiver (n_rx s) (n_world s) \<noteq> None)
    \<and> (n_stop s \<in> {N_port, N_free, N_end} \<longrightarrow> n_pc s = W_done)"
proof -
  have "win_next_defined user_cb u s"
    by (rule win_defined [where user_cb = user_cb and ok = ok and seen_by = seen_by and observe = observe, OF assms])
  moreover have "n_stop s \<notin> {N_free, N_end} \<Longrightarrow> contents (n_world s) (r_iocp_buffers rx) \<noteq> None"
    by (rule pool_live [where user_cb = user_cb and ok = ok and seen_by = seen_by and observe = observe, OF assms])
  ultimately show ?thesis
    using owners_reach [OF assms(8)] stop_order_reach [OF assms(8)] buffers_hold_reach [OF assms(8)]
    by (simp add: win_next_defined_def owners_inv_def stop_order_def buffers_hold_def del: set_append)
qed

lemma win_threads_memory_safe_witness:
  "\<exists>(w :: cli_world) rx s. win_reach cli_frame_cb rx w s \<and> n_pc s = W_drain [Completed 3 [0x80]]
    \<and> receive cli_frame_cb (next_datagram 1000 (n_pc s)) (n_rx s) (n_world s) \<noteq> None \<and> 3 \<notin> n_kernel s
    \<and> take 1 (n_bytes s 3) = [0x80] \<and> contents (n_world s) (r_iocp_buffers rx) \<noteq> None"
proof -
  obtain rx and w :: cli_world where r: "thread_ready WIN32 (cli_ok (trace w) False) {#} demo_session 0 rx w"
    by (rule demo_started)
  let ?s = "waiting rx w" and ?c = "[Completed 3 [0x80]]"
  let ?s1 = "?s\<lparr>n_kernel := n_kernel ?s - {3}, n_queue := n_queue ?s @ ?c,
    n_bytes := (n_bytes ?s)(3 := [0x80] @ drop (length [0x80 :: byte]) (n_bytes ?s 3))\<rparr>"
  let ?s2 = "?s1\<lparr>n_pc := W_check True ?c, n_queue := []\<rparr>"
  let ?s3 = "?s2\<lparr>n_pc := W_drain ?c, n_batch := []\<rparr>"
  have "kernel_step ?s ?s1"
    by (intro kernel_step.arrives) (simp_all add: waiting_def win_init_def RX_IOCP_NUM_BUFFERS_def RX_IOCP_BUFFER_SIZE_def)
  moreover have "win_thread_step cli_frame_cb ?s1 ?s2"
    by (intro win_thread_step.dequeue) (simp_all add: waiting_def win_init_def RX_IOCP_BATCH_def)
  moreover have "win_thread_step cli_frame_cb ?s2 ?s3"
    by (intro win_thread_step.check_go) (simp_all add: waiting_def win_init_def)
  ultimately have s3: "win_reach cli_frame_cb rx w ?s3"
    by (meson waiting_reach win_reach.win_stepped win_step.win_by_thread win_step.win_by_kernel)
  have "steady_clock 1000 47721858845 (map fst (win32_input (win_history ?s3) @ next_datagram 1000 (n_pc ?s3)))"
    by (simp add: win_history_def waiting_def win_init_def)
  from win_threads_memory_safe [where user_cb = cli_frame_cb, OF cli_rx_lines.receiver_client_axioms r demo_session_valid
      demo_client_ok _ _ this s3] s3
  show ?thesis by (intro exI [of _ w] exI [of _ rx] exI [of _ ?s3]) (simp add: waiting_def win_init_def)
qed

section \<open>Does stopping end?\<close>

text \<open>C15: on Windows stopping and destroying a receiver ends, whatever still arrives: from the
  moment the stop is requested at most 199 more steps are made by the thread, the kernel
  and the client together, in any interleaving, and as long as the receiver is not
  destroyed the thread or the client can step, without a completion from the kernel and
  without a call that fails on its own: a thread that waits for completions is woken by the
  wakeup that \<open>st2110rx_stop\<close> has posted.\<close>

lemma win_stop_completes:
  fixes w :: "'z world_scheme"
  assumes "\<And>st. receiver_client (user_cb st) ok {} (\<lambda>_. True) seen_by observe rx"
    and "thread_ready WIN32 ok R c n rx w" and "valid_config c" and "\<And>h. ok h \<Longrightarrow> heap_wf h \<and> trace h = trace w"
    and "47721858845 \<le> B" and "B < 2 ^ 53"
    and "steady_clock t0 B (map fst (win32_input (win_history t) @ next_datagram u (n_pc t)))"
    and "win_reach user_cb rx w s" and "n_stop s \<noteq> N_idle" and "(win_step user_cb ^^ k) s t"
  shows "k \<le> 199 \<and> (n_stop t = N_end \<or> (\<exists>v. win_thread_step user_cb t v \<or> win_stop_step t v))"
proof -
  note t = win_fuel_steps [OF assms(8-10)]
  have "win_next_defined user_cb u t"
    by (rule win_defined [where user_cb = user_cb and ok = ok and seen_by = seen_by and observe = observe,
        OF assms(1-7) t [THEN conjunct1]])
  then have "n_stop t \<noteq> N_end \<Longrightarrow> \<exists>v. win_thread_step user_cb t v \<or> win_stop_step t v"
    using t owners_reach stop_order_reach wake_reach buffers_hold_reach by (intro win_progress) auto
  then show ?thesis
    using t win_fuel_bound [OF owners_reach [OF assms(8)] wake_reach [OF assms(8)] assms(9)] by auto
qed

lemma stopping_reach:
  "win_reach user_cb rx w (waiting rx w\<lparr>n_running := False, n_queue := [Wakeup], n_open := False, n_stop := N_join\<rparr>)"
proof -
  let ?s = "waiting rx w"
  let ?s1 = "?s\<lparr>n_running := False, n_stop := N_wake\<rparr>"
  let ?s2 = "?s1\<lparr>n_queue := n_queue ?s1 @ [Wakeup], n_stop := N_close\<rparr>"
  let ?s3 = "?s2\<lparr>n_open := False, n_stop := N_join\<rparr>"
  have "win_stop_step ?s ?s1" by (intro win_stop_step.stop) (simp add: waiting_def win_init_def)
  moreover have "win_stop_step ?s1 ?s2" by (intro win_stop_step.wake) simp
  moreover have "win_stop_step ?s2 ?s3" by (intro win_stop_step.close) simp
  ultimately have "win_reach user_cb rx w ?s3"
    by (meson waiting_reach win_reach.win_stepped win_step.win_by_client)
  then show ?thesis by (simp add: waiting_def win_init_def)
qed

lemma win_stop_completes_witness:
  "\<exists>(w :: cli_world) rx s. win_reach cli_frame_cb rx w s \<and> n_stop s = N_join \<and> n_pc s = W_wait
    \<and> (\<exists>v. win_thread_step cli_frame_cb s v)"
proof -
  obtain rx and w :: cli_world where r: "thread_ready WIN32 (cli_ok (trace w) False) {#} demo_session 0 rx w"
    by (rule demo_started)
  let ?s = "waiting rx w\<lparr>n_running := False, n_queue := [Wakeup], n_open := False, n_stop := N_join\<rparr>"
  have clock: "steady_clock 0 47721858845 (map fst (win32_input (win_history ?s) @ next_datagram 0 (n_pc ?s)))"
    by (simp add: win_history_def waiting_def win_init_def)
  have "(win_step cli_frame_cb ^^ 0) ?s ?s" by simp
  from win_stop_completes [where user_cb = cli_frame_cb, OF cli_rx_lines.receiver_client_axioms r demo_session_valid
      demo_client_ok _ _ clock stopping_reach _ this]
  have "\<exists>v. win_thread_step cli_frame_cb ?s v \<or> win_stop_step ?s v" by simp
  moreover have "\<not> win_stop_step ?s v" for v by (auto simp: waiting_def elim: win_stop_stepE)
  ultimately have "\<exists>v. win_thread_step cli_frame_cb ?s v" by blast
  with stopping_reach [of cli_frame_cb rx w] show ?thesis
    by (intro exI [of _ w] exI [of _ rx] exI [of _ ?s]) (simp add: waiting_def)
qed

text \<open>C36: on Windows \<open>st2110rx_stop\<close> waits for the thread, but not for the receives it
  has cancelled: there is an interleaving in which the pool of buffers is freed while the
  kernel still holds all 64 of them, each with a completion to come, which the kernel
  writes into the freed \<open>OVERLAPPED\<close> structure.\<close>

lemma pool_freed_in_use:
  assumes "life_inv WIN32 R rx w" and "r_iocp_buffers rx \<noteq> None"
  shows "\<exists>s. win_reach user_cb rx w s \<and> n_stop s = N_free \<and> n_kernel s = {..<RX_IOCP_NUM_BUFFERS}
    \<and> contents w (r_iocp_buffers rx) \<noteq> None \<and> contents (n_world s) (r_iocp_buffers rx) = None
    \<and> (\<forall>i < RX_IOCP_NUM_BUFFERS. kernel_step s (s\<lparr>n_kernel := n_kernel s - {i}, n_queue := n_queue s @ [Completed i []]\<rparr>))"
proof -
  let ?s = "waiting rx w\<lparr>n_running := False, n_queue := [Wakeup], n_open := False, n_stop := N_join\<rparr>"
  let ?s1 = "?s\<lparr>n_pc := W_check True [Wakeup], n_queue := []\<rparr>"
  let ?s2 = "?s1\<lparr>n_pc := W_done, n_turns := n_turns ?s1 @ [win_turn_of True True False []]\<rparr>"
  let ?s3 = "?s2\<lparr>n_stop := N_port\<rparr>"
  obtain rx' w' where port: "close_iocp WIN32 rx w = Some (rx', w')" "contents w' (r_iocp_buffers rx) = None"
    by (rule close_iocp_life [OF assms(1)])
  let ?s4 = "?s3\<lparr>n_rx := rx', n_world := w', n_stop := N_free\<rparr>"
  have "win_thread_step user_cb ?s ?s1"
    by (intro win_thread_step.dequeue) (simp_all add: waiting_def RX_IOCP_BATCH_def)
  then have s1: "win_reach user_cb rx w ?s1" by (rule win_reach_by(1) [OF stopping_reach])
  have "win_thread_step user_cb ?s1 ?s2" by (intro win_thread_step.check_stop) simp_all
  then have s2: "win_reach user_cb rx w ?s2" by (rule win_reach_by(1) [OF s1])
  have "win_stop_step ?s2 ?s3" by (intro win_stop_step.join) simp_all
  then have s3: "win_reach user_cb rx w ?s3" by (rule win_reach_by(3) [OF s2])
  have "win_stop_step ?s3 ?s4"
    using port(1) by (intro win_stop_step.port) (simp_all add: waiting_def win_init_def)
  then have "win_reach user_cb rx w ?s4" by (rule win_reach_by(3) [OF s3])
  moreover have "kernel_step ?s4 (?s4\<lparr>n_kernel := n_kernel ?s4 - {i}, n_queue := n_queue ?s4 @ [Completed i []]\<rparr>)"
    if "i < RX_IOCP_NUM_BUFFERS" for i
    using that by (intro kernel_step.cancelled) (simp_all add: waiting_def)
  moreover have "contents w (r_iocp_buffers rx) \<noteq> None"
    using assms by (auto simp: life_inv_def owns_def owned_def)
  ultimately show ?thesis using port(2) by (intro exI [of _ ?s4]) (simp add: waiting_def)
qed

lemma pool_freed_in_use_witness:
  "\<exists>(w :: cli_world) rx s. win_reach cli_frame_cb rx w s \<and> n_stop s = N_free \<and> n_kernel s = {..<RX_IOCP_NUM_BUFFERS}"
proof -
  obtain rx and w :: cli_world where r: "thread_ready WIN32 (cli_ok (trace w) False) {#} demo_session 0 rx w"
    by (rule demo_started)
  then have "life_inv WIN32 {#} rx w" "r_iocp_buffers rx \<noteq> None" by (simp_all add: thread_ready_def active_def)
  from pool_freed_in_use [OF this, of cli_frame_cb] show ?thesis by blast
qed

end
