(* ===== verification/Rx_Delivery.thy ===== *)
theory Rx_Delivery
  imports Rx_Stream Rx_Session
begin

text \<open>
  From the sender's pictures to what a client of the library is given: the streams of
  \<open>Rx_Stream\<close> received in a session of \<open>Rx_Session\<close>.
\<close>

definition session_layout :: "st2110rx_config_t \<Rightarrow> layout" where
  "session_layout c = layout_of (r_assembler (fresh_rx c 0))"

definition packets_of :: "sent_frame list \<Rightarrow> byte list list" where
  "packets_of fs = map put_packet (concat (map sf_packets fs))"

lemma session_layout_size: "layout_size (session_layout c) = picture_size c"
  by (simp add: session_layout_def fresh_rx_def picture_size_def)

lemma session_layout_simps [simp]:
  "l_width (session_layout c) = c_width c" "l_height (session_layout c) = c_height c"
  by (simp_all add: session_layout_def fresh_rx_def layout_of_def fresh_assembler_def)

lemma session_frames_sent:
  assumes "wf_arrivals (session_layout c) fs"
  shows "session_frames c (packets_of fs)
    = map (out_view (fresh_rx c 0)) (shown_stream (session_layout c) (c_input_fmt c) None 0 fs)"
proof -
  have "ready_for (session_layout c) t (spec_init (picture_size c))" for t
    by (simp add: session_layout_size [symmetric])
  then have "fst (spec_run (session_layout c) (c_input_fmt c) (stream_packets (session_layout c) fs)
      (spec_init (picture_size c))) = shown_stream (session_layout c) (c_input_fmt c) None 0 fs"
    using spec_run_stream [OF assms] by (simp add: spec_init_def)
  then show ?thesis
    using decode_stream [OF assms]
    unfolding session_frames_def packets_of_def Let_def session_layout_def [symmetric] by simp
qed

text \<open>Nothing lost: every packet arrives, and in sequence.\<close>

definition lossless :: "layout \<Rightarrow> sent_frame list \<Rightarrow> bool" where
  "lossless l fs \<longleftrightarrow> wf_stream l fs \<and> list_all (whole l) fs \<and> consecutive None (concat (map sf_seqs fs))"

lemma session_frames_lossless:
  assumes "lossless (session_layout c) fs"
  shows "session_frames c (packets_of fs)
    = map (out_view (fresh_rx c 0)) (sent_views (session_layout c) (c_input_fmt c) 0 fs)"
  using assms by (simp add: lossless_def session_frames_sent wf_stream_arrivals shown_stream_whole)

text \<open>As UYVY, from the 10-bit format of the wire.\<close>

definition uyvy_of :: "st2110rx_config_t \<Rightarrow> sent_frame \<Rightarrow> byte list" where
  "uyvy_of c f = uyvy_picture (unat (c_width c div 2)) (unat (c_height c)) (sf_picture f)"

lemma out_view_sent:
  assumes "c_output_fmt c = ST2110RX_FMT_UYVY" and "fmt = ST2110RX_FMT_YCBCR422_10BIT"
  shows "out_view (fresh_rx c n) (sent_view (session_layout c) fmt k f)
    = \<lparr>s_bytes = uyvy_of c f, s_linesize = c_width c * 2, s_width = c_width c, s_height = c_height c,
       s_format = ST2110RX_FMT_UYVY, s_timestamp_ns = timestamp_to_ns (sf_ts f), s_number = k, s_incomplete = False\<rparr>"
  using assms by (simp add: out_view_def converts_def sent_view_def uyvy_of_def fresh_rx_def zero_rx_def)

text \<open>As a client that asks for UYVY gets it: converted, or as it was sent.\<close>

definition client_picture :: "st2110rx_config_t \<Rightarrow> sent_frame \<Rightarrow> byte list" where
  "client_picture c f = (if c_input_fmt c = ST2110RX_FMT_YCBCR422_10BIT then uyvy_of c f else sf_picture f)"

lemma session_stride_uyvy:
  assumes "c_width c mod 2 = 0" and "c_input_fmt c = ST2110RX_FMT_UYVY"
  shows "l_stride (session_layout c) = c_width c * 2"
proof -
  have "c_width c div 2 * 2 = c_width c" using div_mult_mod_eq [of "c_width c" 2] assms(1) by simp
  then have "c_width c div 2 * 4 = c_width c * 2" by (metis mult.assoc mult_2_right numeral_Bit0)
  then show ?thesis
    using assms(2)
    by (simp add: session_layout_def fresh_rx_def layout_of_def fresh_assembler_def pgroup_of_fmt_def pgroup_defs)
qed

lemma out_view_client:
  assumes "valid_config c" and "c_output_fmt c = ST2110RX_FMT_UYVY"
  shows "out_view (fresh_rx c n) (sent_view (session_layout c) (c_input_fmt c) k f)
    = \<lparr>s_bytes = client_picture c f, s_linesize = c_width c * 2, s_width = c_width c, s_height = c_height c,
       s_format = ST2110RX_FMT_UYVY, s_timestamp_ns = timestamp_to_ns (sf_ts f), s_number = k, s_incomplete = False\<rparr>"
proof (cases "c_input_fmt c = ST2110RX_FMT_YCBCR422_10BIT")
  case True
  then show ?thesis using out_view_sent [OF assms(2) True] by (simp add: client_picture_def)
next
  case False
  then have "c_input_fmt c = ST2110RX_FMT_UYVY" "c_width c mod 2 = 0"
    using assms(1) by (auto simp: valid_config_def supported_def)
  then show ?thesis
    by (simp add: session_stride_uyvy out_view_def converts_def sent_view_def client_picture_def)
qed

lemma map_sent_views:
  "(\<And>k f. g (sent_view l fmt k f) = h k f) \<Longrightarrow>
     map g (sent_views l fmt n fs) = map2 (\<lambda>i f. h (n + of_nat i) f) [0..<length fs] fs"
proof (induction fs arbitrary: n)
  case (Cons f fs)
  have "[0..<length (f # fs)] = 0 # map Suc [0..<length fs]" 
    by (simp only: map_Suc_upt length_Cons upt_conv_Cons [OF zero_less_Suc])
  then show ?case using Cons by (simp add: zip_map1 case_prod_beta add_ac del: upt_Suc)
qed simp

lemma map2_snd: "length xs = length ys \<Longrightarrow> map2 (\<lambda>x y. h y) xs ys = map h ys"
  by (induction xs ys rule: list_induct2) simp_all

lemma map2_fst: "length xs = length ys \<Longrightarrow> map2 (\<lambda>x y. h x) xs ys = map h xs"
  by (induction xs ys rule: list_induct2) simp_all

text \<open>A schedule on which every receive returns a datagram that fits the buffer.\<close>

lemma loop_input_all:
  assumes "\<And>p. p \<in> set ps \<Longrightarrow> p \<noteq> [] \<and> length p \<le> cap"
  shows "loop_input cap (map (\<lambda>p. \<lparr>t_running = True, t_answer = Recv_bytes p, t_running2 = b, t_now = t\<rparr>) ps)
    = map (Pair t) ps"
  using assms
proof (induction ps)
  case (Cons p ps)
  then have "p \<noteq> []" "length p \<le> cap" by simp_all
  then show ?case using Cons by simp
qed simp

end
