(* ===== verification/Tools_Props.thy ===== *)
theory Tools_Props
  imports Rx_Cli Rx_Delivery
begin

text \<open>
  What the receiving command line tool guarantees: its numbers, and the whole program from
  its arguments to its exit.
\<close>

section \<open>Numbers on the command line\<close>

text \<open>Every 32-bit number written in decimal is read back by \<open>parse_u32\<close>, whatever the
  width of \<open>unsigned long\<close>.\<close>

lemma parse_u32_roundtrip:
  assumes "32 \<le> bits"
  shows "parse_u32 bits (decimal (unat x)) = Some x"
  by (rule parse_decimal [OF assms])

lemma parse_u32_roundtrip_witness: "parse_u32 64 (decimal (unat (4294967295 :: u32))) = Some 4294967295"
  by (rule parse_u32_roundtrip) simp

text \<open>Text with any character that is neither a digit, nor a sign, nor white space is
  refused, wherever the character stands.\<close>

lemma parse_u32_refuses:
  assumes "c \<in> set s" and "\<not> is_space c" and "\<not> is_digit c" and "c \<notin> {CHR ''-'', CHR ''+''}"
  shows "parse_u32 bits s = None"
  using parse_u32_chars [of bits s _ c] assms by (cases "parse_u32 bits s") auto

lemma parse_u32_refuses_witness: "parse_u32 64 ''1080p'' = None"
  by (rule parse_u32_refuses [of "CHR ''p''"]) (simp_all add: is_space_def is_digit_def)

text \<open>C40: a number of \<open>2^32\<close> or more is refused where \<open>unsigned long\<close> has 64 bits; where
  it has 32 bits, as on Windows, \<open>strtoul\<close> saturates and the check \<open>v > 0xFFFFFFFF\<close> never
  fires, so that the number is accepted as 4294967295, and so is \<open>-1\<close>.\<close>

lemma parse_u32_out_of_range:
  assumes "2 ^ 32 \<le> n"
  shows "parse_u32 64 (decimal n) = None \<and> parse_u32 32 (decimal n) = Some 4294967295
    \<and> parse_u32 32 ''-1'' = Some 4294967295"
proof (intro conjI)
  have ds: "list_all is_digit (decimal n)" "decimal n \<noteq> []" "digits_value (decimal n) = n"
    using decimal_digits [of n] by simp_all
  show "parse_u32 64 (decimal n) = None"
    using assms by (simp add: parse_u32_def strtoul_digits [OF ds(1,2)] ds(3))
  show "parse_u32 32 (decimal n) = Some 4294967295"
    using assms by (simp add: parse_u32_def strtoul_digits [OF ds(1,2)] ds(3))
  show "parse_u32 32 ''-1'' = Some 4294967295"
    by (simp add: parse_u32_def strtoul_def is_space_def is_digit_def digits_value_def digit_value_def)
qed

lemma parse_u32_out_of_range_witness: "parse_u32 32 (decimal 4294967296) = Some 4294967295"
  using parse_u32_out_of_range [of 4294967296] by simp

section \<open>The receiving tool\<close>

text \<open>C4: \<open>st2110rx-cli\<close> on either platform, on any command line, any datagrams and stop
  requests, and whatever the operating system and the allocator answer: it returns an exit code without a misuse
  of memory or of a resource, every block and every resource is given back, and the output
  file is closed. If it got as far as receiving, the file holds exactly the UYVY bytes of
  the frames of the stream, in order, and one line was printed for each of them.\<close>

lemma cli_exits_clean:
  assumes "heap_wf w" and "holding w R" and "47721858845 \<le> B" and "B < 2 ^ 53"
    and "schedule_ok pf sch" and "steady_clock t0 B (map fst (cli_packets pf sch))"
  shows "\<exists>rc w'. cli_main env pf bits args fopen_ok sch w = Some (rc, w')
    \<and> holding w' R \<and> (\<forall>p. contents w' p = contents w p) \<and> g_output w' = None
    \<and> (\<forall>o'. rc = 0 \<and> cli_args bits args cli_defaults = Inr o' \<longrightarrow>
         (let frames = session_frames (cli_config o') (map snd (cli_packets pf sch))
          in (o_output_path o' \<noteq> None \<longrightarrow> g_written w' = Some (concat (map s_bytes frames)))
             \<and> frame_lines w' = frame_lines w @ map frame_line frames))"
  using cli_main_spec [OF assms(1,2,5,3,4,6), of env bits args fopen_ok] unfolding clean_exit_def shows_frames_def Let_def by blast

definition demo_cli_world :: cli_world where
  "demo_cli_world = \<lparr>blocks = (\<lambda>_. None), next_blk = 0, oom = (\<lambda>_. False), junk = (\<lambda>_ _. 0), trace = [],
     g_output = None, g_count_limit = 0, g_stats_every = 0, g_frames_seen = 0, g_stop_requested = False,
     g_rx_set = False, g_stdout = [], g_written = None\<rparr>"

definition demo_os :: os_env where
  "demo_os = \<lparr>e_startup = (\<lambda>_. True), e_socket = (\<lambda>_. 5), e_rcvbuf = (\<lambda>_. None), e_bind = (\<lambda>_. True),
     e_join_group = (\<lambda>_. True), e_iocp = (\<lambda>_. None), e_thread = (\<lambda>_. Some 9), e_errno = (\<lambda>_. 0),
     e_multicast_if = (\<lambda>_. True), e_send = (\<lambda>_. True), e_rand = (\<lambda>_. 0), e_monotonic = (\<lambda>_. (0, 0)),
     e_tick_count = (\<lambda>_. 0),
     e_inet_addr = (\<lambda>_. 1), e_sizeof_rx = 8, e_sizeof_iocp_buffer = 8\<rparr>"

definition demo_turns :: thread_schedule where
  "demo_turns = \<lparr>posix_turns = [], win_posts = (\<lambda>_. True), win_error = 0,
     win_turns = [\<lparr>wt_running = True, wt_ok = True, wt_running2 = True,
       wt_entries = [\<lparr>e_completion = Completed 3 [0x80, 96, 0, 1], e_now = 1000, e_running = True, e_post_ok = True\<rparr>]\<rparr>]\<rparr>"

lemma cli_exits_clean_witness:
  "\<exists>rc w'. cli_main demo_os WIN32 32 [''--output'', ''frames.uyvy''] True demo_turns demo_cli_world = Some (rc, w')
    \<and> holding w' {#} \<and> (\<forall>p. contents w' p = None)"
proof -
  have "heap_wf demo_cli_world" "holding demo_cli_world {#}" "contents demo_cli_world p = None" for p
    by (simp_all add: demo_cli_world_def heap_wf_def holding_def resources_of_def contents_def split: option.split)
  moreover have "schedule_ok WIN32 demo_turns" "steady_clock 1000 47721858845 (map fst (cli_packets WIN32 demo_turns))"
    by (auto simp: demo_turns_def cli_packets_def thread_input_def primes_def schedule_ok_def kernel_ok_def
        RX_IOCP_NUM_BUFFERS_def RX_IOCP_BUFFER_SIZE_def)
  ultimately show ?thesis
    using cli_exits_clean [of demo_cli_world "{#}" 47721858845 WIN32 demo_turns 1000
        demo_os 32 "[''--output'', ''frames.uyvy'']" True] by auto
qed

text \<open>C7: the tool from the sender's pictures to the output file, on either platform. On a system that
  gives it what it asks for, with an output file and a stream all of whose packets arrive
  in sequence (each frame cut into RFC 4175 packets in any way that covers its picture,
  its marker last), it exits with code 0; the file holds the pictures sent, one after the
  other, converted to 8-bit UYVY, and one line per frame reports its number, counting up
  from 0, its geometry, and that it is complete.\<close>

lemma cli_records_stream:
  assumes "heap_wf w" and "holding w R" and "47721858845 \<le> B" and "B < 2 ^ 53"
    and "schedule_ok pf sch" and "steady_clock t0 B (map fst (cli_packets pf sch))"
    and args: "cli_args bits args cli_defaults = Inr o'" and out: "o_output_path o' \<noteq> None" "fopen_ok"
    and served: "comes_up pf env (cli_config o') w"
    and stream: "map snd (cli_packets pf sch) = packets_of fs" "lossless (session_layout (cli_config o')) fs"
  shows "\<exists>w'. cli_main env pf bits args fopen_ok sch w = Some (0, w')
    \<and> g_written w' = Some (concat (map (uyvy_of (cli_config o')) fs))
    \<and> frame_lines w' = frame_lines w
        @ map (\<lambda>i. Line_frame (of_nat i) (o_width o') (o_height o') (o_width o' * 2 * o_height o') False) [0..<length fs]"
proof -
  let ?c = "cli_config o'" and ?frames = "session_frames (cli_config o') (packets_of fs)"
  obtain w' where w': "cli_main env pf bits args fopen_ok sch w = Some (0, w')" "shows_frames o' ?frames w w'"
    using cli_main_spec [OF assms(1,2,5,3,4,6), of env bits args fopen_ok] args out served stream(1) by auto
  have fmt: "c_output_fmt ?c = ST2110RX_FMT_UYVY" "c_input_fmt ?c = ST2110RX_FMT_YCBCR422_10BIT"
      "c_width ?c = o_width o'" "c_height ?c = o_height o'"
    by (simp_all add: cli_config_def)
  note sent = session_frames_lossless [OF stream(2)]
  have "map s_bytes ?frames = map2 (\<lambda>i f. uyvy_of ?c f) [0..<length fs] fs"
    unfolding sent map_map by (rule map_sent_views) (simp add: out_view_sent fmt)
  moreover have "map frame_line ?frames = map2 (\<lambda>i f. Line_frame (0 + of_nat i) (o_width o') (o_height o')
      (o_width o' * 2 * o_height o') False) [0..<length fs] fs"
    unfolding sent map_map by (rule map_sent_views) (simp add: out_view_sent fmt frame_line_def)
  ultimately show ?thesis
    using w' out(1) by (simp add: shows_frames_def map2_fst map2_snd)
qed

text \<open>Two pictures of 2 by 1 pixels, one packet each.\<close>

definition demo_datagram :: "u16 \<Rightarrow> u32 \<Rightarrow> byte list \<Rightarrow> wire_packet" where
  "demo_datagram seq ts bs = \<lparr>wp_rtp = \<lparr>w_marker = True, w_ptype = 96, w_seq = seq, w_ts = ts, w_ssrc = 7,
     w_csrcs = [], w_ext = None\<rparr>, wp_ext_seq = 0, wp_segs = [(\<lparr>line_no = 0, pixel_offset = 0, seg_length = 5\<rparr>, bs)]\<rparr>"

definition demo_picture :: "u16 \<Rightarrow> u32 \<Rightarrow> byte list \<Rightarrow> sent_frame" where
  "demo_picture seq ts bs = \<lparr>sf_picture = bs, sf_ts = ts, sf_packets = [demo_datagram seq ts bs]\<rparr>"

definition demo_opts :: cli_opts where
  "demo_opts = cli_defaults\<lparr>o_width := 2, o_height := 1, o_output_path := Some ''out''\<rparr>"

abbreviation demo_stream :: "sent_frame list" where
  "demo_stream \<equiv> [demo_picture 65535 0 [1, 2, 3, 4, 5], demo_picture 0 3000 [6, 7, 8, 9, 10]]"

lemma demo_args: "cli_args 64 [''--width'', ''2'', ''--height'', ''1'', ''--output'', ''out''] cli_defaults = Inr demo_opts"
  by (simp add: cli_option_def parse_u32_def strtoul_def is_space_def is_digit_def digits_value_def digit_value_def
      demo_opts_def)

lemma demo_session_layout:
  "session_layout (cli_config demo_opts) = \<lparr>l_stride = 5, l_width = 2, l_height = 1, l_pgroup = 5, l_ppg = 2\<rparr>"
  by (simp add: session_layout_def fresh_rx_def fresh_assembler_def layout_of_def pgroup_defs pgroup_of_fmt_def
      cli_config_def demo_opts_def)

lemma demo_lossless: "lossless (session_layout (cli_config demo_opts)) demo_stream"
  by (simp add: lossless_def demo_session_layout wf_stream_def wf_sent_def apart_def whole_def sf_marked_def sf_seqs_def
      sf_writes_def demo_picture_def demo_datagram_def packet_writes_def seg_dst_def writes_from_def covered_def
      layout_size_def wf_packet_def wf_rtp_def wf_payload_def wf_segment_def MAX_SEGMENTS_def)

lemma demo_served: "comes_up POSIX demo_os (cli_config demo_opts) demo_cli_world"
  by (simp add: comes_up_def obliging_def valid_config_def supported_def cli_config_def demo_opts_def cli_defaults_def
      enough_memory_def demo_cli_world_def demo_os_def interface_ip_def INADDR_NONE_def RX_INVALID_SOCKET_def
      split: list.split)

definition demo_arrivals :: thread_schedule where
  "demo_arrivals = \<lparr>posix_turns = map (\<lambda>p. \<lparr>t_running = True, t_answer = Recv_bytes p, t_running2 = True, t_now = 1000\<rparr>)
     (packets_of demo_stream), win_posts = (\<lambda>_. True), win_error = 0, win_turns = []\<rparr>"

lemma cli_records_stream_witness:
  "\<exists>w'. cli_main demo_os POSIX 64 [''--width'', ''2'', ''--height'', ''1'', ''--output'', ''out''] True demo_arrivals
      demo_cli_world = Some (0, w')
    \<and> g_written w' = Some (concat (map (uyvy_of (cli_config demo_opts)) demo_stream))"
proof -
  have world: "heap_wf demo_cli_world" "holding demo_cli_world {#}"
    by (simp_all add: demo_cli_world_def heap_wf_def holding_def resources_of_def)
  have len: "p \<noteq> [] \<and> length p \<le> 1500" if "p \<in> set (packets_of demo_stream)" for p
    using that by (auto simp: packets_of_def demo_picture_def demo_datagram_def put_packet_def length_put_rtp_header)
  then have "cli_packets POSIX demo_arrivals = map (\<lambda>p. (1000, p)) (packets_of demo_stream)"
    unfolding cli_packets_def thread_input_def platform.case demo_arrivals_def thread_schedule.select_convs
    by (intro loop_input_all) simp
  then have input: "map snd (cli_packets POSIX demo_arrivals) = packets_of demo_stream"
      "map fst (cli_packets POSIX demo_arrivals) = [1000, 1000]"
    by (simp_all add: comp_def) (simp add: packets_of_def demo_picture_def)
  have clock: "steady_clock 1000 47721858845 (map fst (cli_packets POSIX demo_arrivals))" unfolding input(2) by simp
  show ?thesis
    using cli_records_stream [OF world _ _ _ clock demo_args _ _ demo_served input(1) demo_lossless]
    by (auto simp: demo_opts_def schedule_ok_def)
qed

end
