(* ===== verification/Tx_Test.thy ===== *)
theory Tx_Test
  imports Rx_Socket Tool_Args
begin

text \<open>
  \<open>st2110tx-test.c\<close>: the sending test tool on both platforms. Its arguments, the colour
  bars it draws, its packets, its pacing, and \<open>main\<close>. The lines it prints and \<open>srand\<close> are
  left out: \<open>rand\<close> answers from the environment.
\<close>

section \<open>Arguments\<close>

record tx_config_t =
  tx_addr :: string
  tx_port :: u16
  tx_iface :: string
  tx_width :: u32
  tx_height :: u32
  tx_fps :: u32
  tx_count :: u32
  tx_mtu :: u32
  tx_drop_pct :: u32
  tx_burst :: bool

definition tx_defaults :: tx_config_t where
  "tx_defaults = \<lparr>tx_addr = ''239.1.0.1'', tx_port = 20000, tx_iface = ''0.0.0.0'', tx_width = 1920,
     tx_height = 1080, tx_fps = 30, tx_count = 0, tx_mtu = 1500, tx_drop_pct = 0, tx_burst = False\<rparr>"

text \<open>An option that takes a value.\<close>

definition tx_option :: "nat \<Rightarrow> string \<Rightarrow> string \<Rightarrow> tx_config_t \<Rightarrow> tx_config_t option" where
  "tx_option bits a v cfg =
     (if a = ''--addr'' then Some (cfg\<lparr>tx_addr := v\<rparr>)
      else if a = ''--port'' then
        do { n \<leftarrow> parse_u32 bits v; if n > 65535 then None else Some (cfg\<lparr>tx_port := ucast n\<rparr>) }
      else if a = ''--iface'' then Some (cfg\<lparr>tx_iface := v\<rparr>)
      else if a = ''--width'' then
        do { n \<leftarrow> parse_u32 bits v; if n = 0 \<or> n mod 2 \<noteq> 0 then None else Some (cfg\<lparr>tx_width := n\<rparr>) }
      else if a = ''--height'' then
        do { n \<leftarrow> parse_u32 bits v; if n = 0 then None else Some (cfg\<lparr>tx_height := n\<rparr>) }
      else if a = ''--fps'' then
        do { n \<leftarrow> parse_u32 bits v; if n = 0 then None else Some (cfg\<lparr>tx_fps := n\<rparr>) }
      else if a = ''--count'' then do { n \<leftarrow> parse_u32 bits v; Some (cfg\<lparr>tx_count := n\<rparr>) }
      else if a = ''--mtu'' then
        do { n \<leftarrow> parse_u32 bits v; if n \<noteq> 1500 \<and> n \<noteq> 9000 then None else Some (cfg\<lparr>tx_mtu := n\<rparr>) }
      else if a = ''--drop-pct'' then
        do { n \<leftarrow> parse_u32 bits v; if n > 100 then None else Some (cfg\<lparr>tx_drop_pct := n\<rparr>) }
      else None)"

text \<open>The loop of \<open>parse_args\<close>; \<open>Inl\<close> is its result other than 0.\<close>

fun tx_args :: "nat \<Rightarrow> string list \<Rightarrow> tx_config_t \<Rightarrow> int + tx_config_t" where
  "tx_args bits [] cfg = Inr cfg"
| "tx_args bits [a] cfg =
     (if a = ''--help'' then Inl 1 else if a = ''--burst'' then Inr (cfg\<lparr>tx_burst := True\<rparr>) else Inl (-1))"
| "tx_args bits (a # v # rest) cfg =
     (if a = ''--help'' then Inl 1
      else if a = ''--burst'' then tx_args bits (v # rest) (cfg\<lparr>tx_burst := True\<rparr>)
      else case tx_option bits a v cfg of None \<Rightarrow> Inl (-1) | Some cfg \<Rightarrow> tx_args bits rest cfg)"

definition parse_args :: "nat \<Rightarrow> string list \<Rightarrow> int + tx_config_t" where
  "parse_args bits args = tx_args bits args tx_defaults"

section \<open>The picture\<close>

definition packed_group :: "u16 \<Rightarrow> u16 \<Rightarrow> u16 \<Rightarrow> u16 \<Rightarrow> byte list" where
  "packed_group cb y0 cr y1 =
     [ucast (drop_bit 2 cb),
      ucast (push_bit 6 (cb AND 0x3) OR drop_bit 4 y0),
      ucast (push_bit 4 (y0 AND 0xF) OR drop_bit 6 cr),
      ucast (push_bit 2 (cr AND 0x3F) OR drop_bit 8 y1),
      ucast (y1 AND 0xFF)]"

definition pack_group ::
    "ptr \<Rightarrow> nat \<Rightarrow> u16 \<Rightarrow> u16 \<Rightarrow> u16 \<Rightarrow> u16 \<Rightarrow> 'z heap_scheme \<Rightarrow> 'z heap_scheme option" where
  "pack_group dst i cb y0 cr y1 h = store h dst i (packed_group cb y0 cr y1)"

definition bars :: "(u16 \<times> u16 \<times> u16) list" where
  "bars = [(512, 940, 512), (64, 877, 553), (671, 754, 159), (223, 691, 200),
           (800, 566, 824), (352, 503, 865), (960, 380, 471), (512, 64, 512)]"

text \<open>The bar of group \<open>g\<close>, at most the last one.\<close>

definition bar_of :: "u32 \<Rightarrow> u32 \<Rightarrow> u16 \<times> u16 \<times> u16" where
  "bar_of groups_per_bar g =
     (let bar = g div groups_per_bar; bar = (if bar > 7 then 7 else bar) in bars ! unat bar)"

text \<open>The inner loop: \<open>n\<close> groups are left of a row that starts at \<open>row\<close>, the next one is \<open>g\<close>.\<close>

fun colorbar_row ::
    "ptr \<Rightarrow> nat \<Rightarrow> u32 \<Rightarrow> u32 \<Rightarrow> nat \<Rightarrow> 'z heap_scheme \<Rightarrow> 'z heap_scheme option" where
  "colorbar_row frame row groups_per_bar g 0 h = Some h"
| "colorbar_row frame row groups_per_bar g (Suc n) h =
     (let (cb, y, cr) = bar_of groups_per_bar g
      in do { h \<leftarrow> pack_group frame (row + unat g * 5) cb y cr y h;
              colorbar_row frame row groups_per_bar (g + 1) n h })"

fun colorbar_rows ::
    "ptr \<Rightarrow> nat \<Rightarrow> u32 \<Rightarrow> u32 \<Rightarrow> nat \<Rightarrow> nat \<Rightarrow> 'z heap_scheme \<Rightarrow> 'z heap_scheme option" where
  "colorbar_rows frame stride groups groups_per_bar y 0 h = Some h"
| "colorbar_rows frame stride groups groups_per_bar y (Suc n) h =
     do { h \<leftarrow> colorbar_row frame (y * stride) groups_per_bar 0 (unat groups) h;
          colorbar_rows frame stride groups groups_per_bar (Suc y) n h }"

definition generate_colorbars_be10 ::
    "ptr \<Rightarrow> u32 \<Rightarrow> u32 \<Rightarrow> u32 \<Rightarrow> 'z heap_scheme \<Rightarrow> 'z heap_scheme option" where
  "generate_colorbars_be10 frame width height stride h =
     (let groups = width div 2;
          groups_per_bar = groups div 8;
          groups_per_bar = (if groups_per_bar = 0 then 1 else groups_per_bar)
      in colorbar_rows frame (unat stride) groups groups_per_bar 0 (unat height) h)"

section \<open>Packets\<close>

definition rtp_header_bytes :: "u16 \<Rightarrow> u32 \<Rightarrow> u32 \<Rightarrow> bool \<Rightarrow> byte list" where
  "rtp_header_bytes seq ts ssrc marker =
     [0x80, 96 OR (if marker then 0x80 else 0),
      ucast (drop_bit 8 seq), ucast (seq AND 0xFF),
      ucast (drop_bit 24 ts), ucast (drop_bit 16 ts AND 0xFF), ucast (drop_bit 8 ts AND 0xFF), ucast (ts AND 0xFF),
      ucast (drop_bit 24 ssrc), ucast (drop_bit 16 ssrc AND 0xFF), ucast (drop_bit 8 ssrc AND 0xFF), ucast (ssrc AND 0xFF)]"

definition write_rtp_header ::
    "ptr \<Rightarrow> u16 \<Rightarrow> u32 \<Rightarrow> u32 \<Rightarrow> bool \<Rightarrow> 'z heap_scheme \<Rightarrow> 'z heap_scheme option" where
  "write_rtp_header pkt seq ts ssrc marker h = store h pkt 0 (rtp_header_bytes seq ts ssrc marker)"

text \<open>The six bytes after the RTP header.\<close>

definition tx_line_header :: "nat \<Rightarrow> u32 \<Rightarrow> u16 \<Rightarrow> bool \<Rightarrow> byte list" where
  "tx_line_header seg_len line pixel_offset continuation =
     [of_nat (seg_len div 256), of_nat (seg_len mod 256),
      ucast (drop_bit 8 line), ucast (line AND 0xFF),
      (if continuation then 0x80 else 0) OR ucast (drop_bit 8 pixel_offset), ucast (pixel_offset AND 0xFF)]"

text \<open>What stays the same throughout the sending loops.\<close>

record tx_job =
  j_pf :: platform
  j_cfg :: tx_config_t
  j_sock :: rx_socket_t
  j_dst :: "u32 \<times> u16"
  j_frame :: ptr
  j_packet :: ptr
  j_stride :: nat
  j_max_segment :: nat

definition SSRC :: u32 where "SSRC = 0x11223344"

text \<open>The \<open>drop-pct\<close> test and \<open>sendto\<close>; the result is whether \<open>main\<close> goes on.\<close>

definition tx_send :: "os_env \<Rightarrow> tx_job \<Rightarrow> nat \<Rightarrow> 'z world_scheme \<Rightarrow> (bool \<times> 'z world_scheme) option" where
  "tx_send env job pkt_len w =
     (let pct = tx_drop_pct (j_cfg job);
          (go, w) = (if pct = 0 then (True, w)
                     else let r = e_rand env (now w) in (r mod 100 \<ge> unat pct, emit (Sys_rand r) w))
      in if \<not> go then Some (True, w)
         else do { buf \<leftarrow> contents w (j_packet job);
                   bs \<leftarrow> rd_range buf 0 pkt_len;
                   let ok = e_send env (now w);
                   Some (ok, emit (Sys_sendto (j_sock job) (j_dst job) bs ok) w) })"

text \<open>
  The \<open>while (remaining > 0)\<close> loop of one line. With a \<open>max_segment\<close> of 0, which \<open>main\<close>
  excludes, it would not end (\<open>None\<close>).
\<close>

function tx_line ::
    "os_env \<Rightarrow> tx_job \<Rightarrow> u32 \<Rightarrow> u32 \<Rightarrow> nat \<Rightarrow> u16 \<Rightarrow> u32 \<Rightarrow> 'z world_scheme
       \<Rightarrow> (bool \<times> u32 \<times> 'z world_scheme) option" where
  "tx_line env job ts line remaining pixel_offset seq w =
     (if remaining = 0 then Some (True, seq, w)
      else if j_max_segment job = 0 then None
      else
        let seg_len = (if remaining > j_max_segment job then j_max_segment job else remaining);
            continuation = (remaining > seg_len);
            is_last_packet = (line + 1 = tx_height (j_cfg job) \<and> \<not> continuation)
        in do { w \<leftarrow> write_rtp_header (j_packet job) (ucast seq) ts SSRC is_last_packet w;
                w \<leftarrow> store w (j_packet job) 12 (tx_line_header seg_len line pixel_offset continuation);
                src \<leftarrow> contents w (j_frame job);
                seg \<leftarrow> rd_range src (unat line * j_stride job + (j_stride job - remaining)) seg_len;
                w \<leftarrow> store w (j_packet job) 18 seg;
                (ok, w) \<leftarrow> tx_send env job (12 + 6 + seg_len) w;
                if \<not> ok then Some (False, seq + 1, w)
                else tx_line env job ts line (remaining - seg_len)
                       (pixel_offset + of_nat (seg_len div 5 * 2)) (seq + 1) w })"
  by pat_completeness auto
termination
  by (relation "measure (\<lambda>(env, job, ts, line, remaining, pixel_offset, seq, w). remaining)") auto

declare tx_line.simps [simp del]

text \<open>The loop over the lines: \<open>n\<close> are left, the next one is \<open>line\<close>.\<close>

fun tx_lines ::
    "os_env \<Rightarrow> tx_job \<Rightarrow> u32 \<Rightarrow> u32 \<Rightarrow> nat \<Rightarrow> u32 \<Rightarrow> 'z world_scheme \<Rightarrow> (bool \<times> u32 \<times> 'z world_scheme) option" where
  "tx_lines env job ts line 0 seq w = Some (True, seq, w)"
| "tx_lines env job ts line (Suc n) seq w =
     do { (ok, seq, w) \<leftarrow> tx_line env job ts line (j_stride job) 0 seq w;
          if \<not> ok then Some (False, seq, w) else tx_lines env job ts (line + 1) n seq w }"

text \<open>
  The clock and the sleep of the two platforms. Every reading is an event, so that two
  readings may differ. \<open>tx_pace\<close> is what the loop does after a frame it began to send at
  \<open>frame_start_ms\<close>.
\<close>

definition now_ms :: "os_env \<Rightarrow> platform \<Rightarrow> 'z world_scheme \<Rightarrow> u64 \<times> 'z world_scheme" where
  "now_ms env pf w =
     (let t = (case pf of
                 POSIX \<Rightarrow> let (tv_sec, tv_nsec) = e_monotonic env (now w) in tv_sec * 1000 + tv_nsec div 1000000
               | WIN32 \<Rightarrow> e_tick_count env (now w))
      in (t, emit (Sys_now_ms t) w))"

definition sleep_ms :: "platform \<Rightarrow> u32 \<Rightarrow> 'z world_scheme \<Rightarrow> 'z world_scheme" where
  "sleep_ms pf ms w = emit (Sys_sleep (case pf of POSIX \<Rightarrow> ms * 1000 | WIN32 \<Rightarrow> ms)) w"

definition tx_pace :: "os_env \<Rightarrow> tx_job \<Rightarrow> u64 \<Rightarrow> 'z world_scheme \<Rightarrow> 'z world_scheme" where
  "tx_pace env job frame_start_ms w =
     (if tx_burst (j_cfg job) then w
      else
        let (t, w) = now_ms env (j_pf job) w;
            elapsed_ms = t - frame_start_ms;
            target_ms = 1000 div ucast (tx_fps (j_cfg job))
        in if elapsed_ms < target_ms then sleep_ms (j_pf job) (ucast (target_ms - elapsed_ms)) w else w)"

text \<open>
  The loop over the frames. It has no end of its own when \<open>count\<close> is 0: the last argument
  is how many frames it is observed for, and the result \<open>None\<close> inside is "still running".
\<close>

fun tx_frames ::
    "os_env \<Rightarrow> tx_job \<Rightarrow> u32 \<Rightarrow> u32 \<Rightarrow> u32 \<Rightarrow> nat \<Rightarrow> 'z world_scheme \<Rightarrow> (bool option \<times> 'z world_scheme) option" where
  "tx_frames env job frame_index ts seq fuel w =
     (if \<not> (tx_count (j_cfg job) = 0 \<or> frame_index < tx_count (j_cfg job)) then Some (Some True, w)
      else case fuel of
        0 \<Rightarrow> Some (None, w)
      | Suc fuel \<Rightarrow>
          let (frame_start_ms, w) = now_ms env (j_pf job) w
          in do { (ok, seq, w) \<leftarrow> tx_lines env job ts 0 (unat (tx_height (j_cfg job))) seq w;
                  if \<not> ok then Some (Some False, w)
                  else tx_frames env job (frame_index + 1) (ts + 90000 div tx_fps (j_cfg job)) seq fuel
                         (tx_pace env job frame_start_ms w) })"

declare tx_frames.simps [simp del]

section \<open>The program\<close>

text \<open>The checks and calls between \<open>socket\<close> and the loop: whether it goes on to the loop.\<close>

definition tx_setup :: "os_env \<Rightarrow> tx_config_t \<Rightarrow> rx_socket_t \<Rightarrow> 'z world_scheme \<Rightarrow> bool \<times> 'z world_scheme" where
  "tx_setup env cfg sock w =
     (if e_inet_addr env (tx_addr cfg) = INADDR_NONE then (False, w)
      else if tx_iface cfg \<noteq> [] \<and> tx_iface cfg \<noteq> ''0.0.0.0'' then
        if e_inet_addr env (tx_iface cfg) = INADDR_NONE then (False, w)
        else let ok = e_multicast_if env (now w)
             in (ok, emit (Sys_multicast_if sock (e_inet_addr env (tx_iface cfg)) ok) w)
      else (True, w))"

text \<open>
  The part of \<open>main\<close> from \<open>socket\<close> on, with both buffers allocated and the socket library
  started; \<open>free(packet)\<close>, \<open>free(frame)\<close>, closing the socket and \<open>WSACleanup\<close> are the same on
  both ways out of it.
\<close>

definition tx_run :: "os_env \<Rightarrow> platform \<Rightarrow> tx_config_t \<Rightarrow> ptr \<Rightarrow> ptr \<Rightarrow> u32 \<Rightarrow> nat \<Rightarrow> nat \<Rightarrow> 'z world_scheme
       \<Rightarrow> (nat option \<times> 'z world_scheme) option" where
  "tx_run env pf cfg frame packet stride max_segment fuel w =
     (let sock = e_socket env (now w); w = emit (Sys_socket sock) w
      in if sock = RX_INVALID_SOCKET
         then do { w \<leftarrow> free_blk packet w; w \<leftarrow> free_blk frame w; Some (Some 1, rx_socket_cleanup pf w) }
         else
           let (ok, w) = tx_setup env cfg sock w;
               job = \<lparr>j_pf = pf, j_cfg = cfg, j_sock = sock, j_dst = (e_inet_addr env (tx_addr cfg), tx_port cfg),
                      j_frame = frame, j_packet = packet, j_stride = unat stride, j_max_segment = max_segment\<rparr>
           in do { (r, w) \<leftarrow> (if ok then tx_frames env job 0 0 1 fuel w else Some (Some False, w));
                   case r of
                     None \<Rightarrow> Some (None, w)
                   | Some sent \<Rightarrow>
                       do { w \<leftarrow> free_blk packet w; w \<leftarrow> free_blk frame w;
                            Some (Some (if sent then 0 else 1), rx_socket_cleanup pf (rx_socket_close sock w)) } })"

text \<open>\<open>WSAStartup\<close> is that of \<open>rx_socket_init\<close>: the call on Windows, nothing on POSIX.\<close>

definition tx_launch :: "os_env \<Rightarrow> platform \<Rightarrow> tx_config_t \<Rightarrow> ptr \<Rightarrow> ptr \<Rightarrow> u32 \<Rightarrow> nat \<Rightarrow> nat \<Rightarrow> 'z world_scheme
       \<Rightarrow> (nat option \<times> 'z world_scheme) option" where
  "tx_launch env pf cfg frame packet stride max_segment fuel w =
     (let (rc, w) = rx_socket_init env pf w
      in if rc \<noteq> 0 then do { w \<leftarrow> free_blk packet w; w \<leftarrow> free_blk frame w; Some (Some 1, w) }
         else tx_run env pf cfg frame packet stride max_segment fuel w)"

definition tx_main ::
    "os_env \<Rightarrow> platform \<Rightarrow> nat \<Rightarrow> string list \<Rightarrow> nat \<Rightarrow> 'z world_scheme \<Rightarrow> (nat option \<times> 'z world_scheme) option" where
  "tx_main env pf bits args fuel w =
     (case parse_args bits args of
        Inl r \<Rightarrow> Some (Some (if r = 1 then 0 else 1), w)
      | Inr cfg \<Rightarrow>
          (let stride = (tx_width cfg div 2) * 5;
               (frame, w) = malloc (unat stride * unat (tx_height cfg)) w
           in if frame = None then Some (Some 1, w)
              else
                do { w \<leftarrow> generate_colorbars_be10 frame (tx_width cfg) (tx_height cfg) stride w;
                     if tx_mtu cfg \<le> 28 then do { w \<leftarrow> free_blk frame w; Some (Some 1, w) }
                     else
                       let max_udp_payload = unat (tx_mtu cfg) - 28;
                           (packet, w) = malloc max_udp_payload w
                       in if packet = None then do { w \<leftarrow> free_blk frame w; Some (Some 1, w) }
                          else
                            let max_segment = (max_udp_payload - 12 - 6) div 5 * 5
                            in if max_segment = 0
                               then do { w \<leftarrow> free_blk packet w; w \<leftarrow> free_blk frame w; Some (Some 1, w) }
                               else tx_launch env pf cfg frame packet stride max_segment fuel w }))"

end
