(* ===== verification/Tx_Picture.thy ===== *)
theory Tx_Picture
  imports Tx_Test
begin

text \<open>
  The colour bars of the sending tool: what is drawn when the 32-bit stride did not wrap
  around, and that it draws past the end of its buffer when it did.
\<close>

lemma store_live:
  assumes "blocks h a = Some bs" and "i + length ys \<le> length bs"
  shows "store h (Some a) i ys = Some (h\<lparr>blocks := (blocks h)(a \<mapsto> blit bs i ys)\<rparr>)"
  using assms by (simp add: store_def)

lemma set_block_twice:
  "(h\<lparr>blocks := (blocks h)(a := x)\<rparr>)\<lparr>blocks := (blocks (h\<lparr>blocks := (blocks h)(a := x)\<rparr>))(a := y)\<rparr>
     = h\<lparr>blocks := (blocks h)(a := y)\<rparr>"
proof -
  have "(blocks (h\<lparr>blocks := (blocks h)(a := x)\<rparr>))(a := y) = (blocks h)(a := y)" by (rule ext) simp
  then show ?thesis by simp
qed

lemma store_fits:
  assumes "store h p i ys = Some h'" and "contents h p = Some bs"
  shows "i + length ys \<le> length bs \<and> contents h' p = Some (blit bs i ys)"
  using heap_mem.poke_same [OF assms(1)] assms(2) by auto

section \<open>The picture\<close>

text \<open>The bytes of group \<open>g\<close>, of a line, and of the picture.\<close>

definition bar_bytes :: "u32 \<Rightarrow> nat \<Rightarrow> byte list" where
  "bar_bytes groups_per_bar g = (let (cb, y, cr) = bar_of groups_per_bar (of_nat g) in packed_group cb y cr y)"

definition bars_line :: "u32 \<Rightarrow> byte list" where
  "bars_line groups =
     concat (map (bar_bytes (if groups div 8 = 0 then 1 else groups div 8)) [0..<unat groups])"

definition bars_picture :: "u32 \<Rightarrow> u32 \<Rightarrow> byte list" where
  "bars_picture width height = concat (replicate (unat height) (bars_line (width div 2)))"

lemma length_packed_group [simp]: "length (packed_group cb y0 cr y1) = 5"
  by (simp add: packed_group_def)

lemma length_bar_bytes [simp]: "length (bar_bytes gpb g) = 5"
  by (simp add: bar_bytes_def split: prod.splits)

lemma length_bar_run: "length (concat (map (bar_bytes gpb) gs)) = 5 * length gs"
  by (induction gs) simp_all

lemma length_bars_line [simp]: "length (bars_line groups) = 5 * unat groups"
  by (simp add: bars_line_def length_bar_run)

lemma length_bars_picture: "length (bars_picture width height) = unat height * (5 * unat (width div 2))"
  by (simp add: bars_picture_def length_concat sum_list_replicate)

section \<open>The loops\<close>

lemma unat_Suc: "unat g + Suc n \<le> 2 ^ 32 - 1 \<Longrightarrow> unat (g + 1) = Suc (unat g)" for g :: u32
  by (simp add: unat_word_ariths)

lemma colorbar_row_step:
  "colorbar_row frame row gpb g (Suc n) h =
     do { h \<leftarrow> store h frame (row + unat g * 5) (bar_bytes gpb (unat g)); colorbar_row frame row gpb (g + 1) n h }"
  by (simp add: pack_group_def bar_bytes_def split: prod.splits)

lemma colorbar_row_draws:
  assumes "blocks h a = Some buf" and "row + (unat g + n) * 5 \<le> length buf" and "unat g + n < 2 ^ 32"
  shows "colorbar_row (Some a) row gpb g n h =
    Some (h\<lparr>blocks := (blocks h)(a \<mapsto> blit buf (row + unat g * 5)
       (concat (map (bar_bytes gpb) [unat g..<unat g + n])))\<rparr>)"
  using assms
proof (induction n arbitrary: g h buf)
  case 0
  then show ?case by (simp add: fun_upd_idem)
next
  case (Suc n)
  have g: "unat (g + 1) = Suc (unat g)" using Suc.prems(3) by (intro unat_Suc [of g n]) simp
  let ?b = "bar_bytes gpb (unat g)" and ?rest = "concat (map (bar_bytes gpb) [Suc (unat g)..<Suc (unat g) + n])"
  let ?h1 = "h\<lparr>blocks := (blocks h)(a \<mapsto> blit buf (row + unat g * 5) ?b)\<rparr>"
  have fits: "row + unat g * 5 + length ?b + length ?rest \<le> length buf"
    using Suc.prems(2) by (simp add: length_bar_run)
  have upt: "[unat g..<unat g + Suc n] = unat g # [Suc (unat g)..<Suc (unat g) + n]"
    by (simp add: upt_conv_Cons)
  have "store h (Some a) (row + unat g * 5) ?b = Some ?h1"
    using Suc.prems(1,2) by (intro store_live) auto
  then have "colorbar_row (Some a) row gpb g (Suc n) h = colorbar_row (Some a) row gpb (g + 1) n ?h1"
    by (simp add: colorbar_row_step del: colorbar_row.simps)
  also have "\<dots> = Some (?h1\<lparr>blocks := (blocks ?h1)(a \<mapsto>
      blit (blit buf (row + unat g * 5) ?b) (row + unat (g + 1) * 5)
        (concat (map (bar_bytes gpb) [unat (g + 1)..<unat (g + 1) + n])))\<rparr>)"
    using Suc.prems fits g by (intro Suc.IH) (simp_all add: length_blit)
  also have "blit (blit buf (row + unat g * 5) ?b) (row + unat (g + 1) * 5)
        (concat (map (bar_bytes gpb) [unat (g + 1)..<unat (g + 1) + n]))
      = blit buf (row + unat g * 5) (?b @ ?rest)"
    using blit_blit_append [OF fits] unfolding g mult_Suc length_bar_bytes by (simp only: ac_simps)
  finally show ?case
    unfolding upt list.map concat.simps set_block_twice .
qed

lemma colorbar_rows_draw:
  assumes "blocks h a = Some buf" and "(y + n) * (5 * unat groups) \<le> length buf"
  shows "colorbar_rows (Some a) (5 * unat groups) groups gpb y n h =
    Some (h\<lparr>blocks := (blocks h)(a \<mapsto> blit buf (y * (5 * unat groups))
       (concat (replicate n (concat (map (bar_bytes gpb) [0..<unat groups])))))\<rparr>)"
  using assms
proof (induction n arbitrary: y h buf)
  case 0
  then show ?case by (simp add: fun_upd_idem)
next
  case (Suc n)
  let ?line = "concat (map (bar_bytes gpb) [0..<unat groups])" and ?s = "5 * unat groups"
  let ?rest = "concat (replicate n ?line)"
  have len: "length ?line = ?s" by (simp only: length_bar_run length_upt diff_zero)
  then have rest: "length ?rest = n * ?s"
    by (simp only: length_concat map_replicate sum_list_replicate of_nat_id)
  have fits: "y * ?s + ?s + n * ?s \<le> length buf" using Suc.prems(2) by (simp add: algebra_simps)
  let ?h1 = "h\<lparr>blocks := (blocks h)(a \<mapsto> blit buf (y * ?s) ?line)\<rparr>"
  have fits': "y * ?s + length ?line + length ?rest \<le> length buf" using fits by (simp only: len rest)
  have "colorbar_row (Some a) (y * ?s) gpb 0 (unat groups) h = Some ?h1"
    using colorbar_row_draws [of h a buf "y * ?s" 0 "unat groups" gpb] Suc.prems(1) fits unat_u32_less [of groups]
    by simp
  then have "colorbar_rows (Some a) ?s groups gpb y (Suc n) h = colorbar_rows (Some a) ?s groups gpb (Suc y) n ?h1"
    by simp
  also have "\<dots> = Some (?h1\<lparr>blocks := (blocks ?h1)(a \<mapsto> blit (blit buf (y * ?s) ?line) (Suc y * ?s) ?rest)\<rparr>)"
    using Suc.prems fits' by (intro Suc.IH) (simp_all add: length_blit)
  also have "blit (blit buf (y * ?s) ?line) (Suc y * ?s) ?rest = blit buf (y * ?s) (?line @ ?rest)"
    using blit_blit_append [OF fits'] unfolding mult_Suc len by (simp only: ac_simps)
  finally show ?case
    unfolding replicate_Suc concat.simps set_block_twice .
qed

text \<open>A run of the loops that returns stayed inside the buffer.\<close>

lemma colorbar_row_fits:
  assumes "colorbar_row frame row gpb g n h = Some h'" and "contents h frame = Some buf" and "unat g + n < 2 ^ 32"
  shows "(n > 0 \<longrightarrow> row + (unat g + n) * 5 \<le> length buf) \<and> (\<exists>out. contents h' frame = Some out \<and> length out = length buf)"
  using assms
proof (induction n arbitrary: g h buf)
  case 0
  then show ?case by simp
next
  case (Suc n)
  have g: "unat (g + 1) = Suc (unat g)" using Suc.prems(3) by (intro unat_Suc [of g n]) simp
  from Suc.prems(1) obtain h1 where h1: "store h frame (row + unat g * 5) (bar_bytes gpb (unat g)) = Some h1"
      "colorbar_row frame row gpb (g + 1) n h1 = Some h'"
    by (auto simp: colorbar_row_step simp del: colorbar_row.simps split: bind_splits)
  have s: "row + unat g * 5 + 5 \<le> length buf" "contents h1 frame = Some (blit buf (row + unat g * 5) (bar_bytes gpb (unat g)))"
    using store_fits [OF h1(1) Suc.prems(2)] by simp_all
  show ?case
    using Suc.IH [OF h1(2) s(2)] s(1) g Suc.prems(3) by (cases n) (auto simp: length_blit)
qed

lemma colorbar_rows_fit:
  assumes "colorbar_rows frame stride groups gpb y n h = Some h'" and "contents h frame = Some buf"
    and "n > 0" and "groups \<noteq> 0"
  shows "(y + n - 1) * stride + 5 * unat groups \<le> length buf"
  using assms
proof (induction n arbitrary: y h buf)
  case 0
  then show ?case by simp
next
  case (Suc n)
  from Suc.prems(1) obtain h1 where h1: "colorbar_row frame (y * stride) gpb 0 (unat groups) h = Some h1"
      "colorbar_rows frame stride groups gpb (Suc y) n h1 = Some h'"
    by (auto split: bind_splits)
  obtain out where "y * stride + 5 * unat groups \<le> length buf" "contents h1 frame = Some out" "length out = length buf"
    using colorbar_row_fits [OF h1(1) Suc.prems(2)] unat_u32_less [of groups] Suc.prems(4)
    by (auto simp: unat_gt_0)
  then show ?case
    using Suc.IH [OF h1(2)] Suc.prems(4) by (cases n) auto
qed

text \<open>The stride \<open>main\<close> computes, in 32 bits.\<close>

definition wraps :: "u32 \<Rightarrow> bool" where
  "wraps width \<longleftrightarrow> unat ((width div 2) * 5) \<noteq> 5 * unat (width div 2)"

lemma wraps_iff: "wraps width \<longleftrightarrow> 2 ^ 32 \<le> 5 * unat (width div 2)"
proof -
  have "unat ((width div 2) * 5) = (5 * unat (width div 2)) mod 2 ^ 32"
    by (simp add: unat_word_ariths mult.commute)
  moreover have "(5 * unat (width div 2)) mod 2 ^ 32 < (2 ^ 32 :: nat)" by simp
  ultimately show ?thesis unfolding wraps_def by (metis mod_less not_le)
qed

lemma colorbars_drawn:
  assumes "blocks h a = Some buf" and "length buf = unat ((width div 2) * 5) * unat height" and "\<not> wraps width"
  shows "generate_colorbars_be10 (Some a) width height ((width div 2) * 5) h =
    Some (h\<lparr>blocks := (blocks h)(a \<mapsto> bars_picture width height)\<rparr>)"
proof -
  let ?gpb = "if width div 2 div 8 = 0 then 1 else width div 2 div 8"
  have s: "unat ((width div 2) * 5) = 5 * unat (width div 2)" using assms(3) by (simp add: wraps_def)
  have len: "length (bars_picture width height) = length buf"
    using assms(2) unfolding s length_bars_picture by simp
  have "generate_colorbars_be10 (Some a) width height ((width div 2) * 5) h
      = colorbar_rows (Some a) (5 * unat (width div 2)) (width div 2) ?gpb 0 (unat height) h"
    by (simp only: generate_colorbars_be10_def Let_def s)
  also have "\<dots> = Some (h\<lparr>blocks := (blocks h)(a \<mapsto> blit buf 0 (bars_picture width height))\<rparr>)"
    using colorbar_rows_draw [OF assms(1), of 0 "unat height" "width div 2" ?gpb] len
    by (simp only: bars_picture_def bars_line_def length_bars_picture mult_0 add_0 order_refl simp_thms
        length_bars_picture [unfolded bars_picture_def bars_line_def])
  finally show ?thesis using len by (simp add: blit_all)
qed

lemma colorbars_overflow:
  assumes "contents h frame = Some buf" and "length buf = unat ((width div 2) * 5) * unat height"
    and "wraps width" and "height \<noteq> 0"
  shows "generate_colorbars_be10 frame width height ((width div 2) * 5) h = None"
proof (rule ccontr)
  let ?s = "unat ((width div 2) * 5)"
  assume "generate_colorbars_be10 frame width height ((width div 2) * 5) h \<noteq> None"
  then obtain gpb h' where "colorbar_rows frame ?s (width div 2) gpb 0 (unat height) h = Some h'"
    by (auto simp: generate_colorbars_be10_def Let_def)
  moreover have pos: "0 < unat height" using assms(4) by (simp add: unat_gt_0)
  moreover have wide: "2 ^ 32 \<le> 5 * unat (width div 2)" using assms(3) by (simp add: wraps_iff)
  moreover have "width div 2 \<noteq> 0" using wide by auto
  ultimately have "(unat height - 1) * ?s + 5 * unat (width div 2) \<le> ?s * unat height"
    using colorbar_rows_fit [OF _ assms(1)] assms(2) by fastforce
  moreover have "(unat height - 1) * ?s + ?s = ?s * unat height"
    using pos by (cases "unat height") (simp_all add: algebra_simps)
  ultimately have "5 * unat (width div 2) \<le> ?s" by linarith
  then show False using wide unat_u32_less [of "(width div 2) * 5"] by simp
qed

end
