(* ===== verification/Tx_Packets.thy ===== *)
theory Tx_Packets
  imports Tx_Test Rx_Convert Rx_Rtp
begin

text \<open>
  What the sending tool puts on the wire: its sample packing is the one the receiver's
  converter unpacks, its RTP header is the one the receiver parses, and the datagrams of a
  frame carry the picture in order.
\<close>

section \<open>Samples\<close>

lemma small_sample: "x < 1024 \<Longrightarrow> bit x n \<Longrightarrow> n < 10" for x :: u16
proof (rule ccontr)
  assume x: "x < 1024" and b: "bit x n" and n: "\<not> n < 10"
  have "unat x < 2 ^ 10" using x by (simp add: word_less_nat_alt)
  then have "unat x < 2 ^ n" using n power_increasing [of 10 n "2 :: nat"] by linarith
  then have "\<not> bit (unat x) n" by (simp add: bit_nat_def)
  then show False using b by (simp add: bit_unsigned_iff)
qed

lemma Suc_Suc_diff_2: "2 \<le> n \<Longrightarrow> Suc (Suc (n - 2)) = n"
  by simp

lemma sample_mask:
  "(0x3 :: u16) = mask 2" "(0xF :: u16) = mask 4" "(0x0F :: u16) = mask 4" "(0x3F :: u16) = mask 6"
  "(0x03 :: u16) = mask 2" "(0xFF :: u16) = mask 8"
  by (simp_all add: mask_eq_exp_minus_1)

text \<open>Ten-bit samples come out of the receiver's unpacking as they went in.\<close>

lemma unpack_packed:
  assumes "cb < 1024" and "y0 < 1024" and "cr < 1024" and "y1 < 1024"
    and "packed_group cb y0 cr y1 = [b0, b1, b2, b3, b4]"
  shows "unpack_cb b0 b1 = cb" "unpack_y0 b1 b2 = y0" "unpack_cr b2 b3 = cr" "unpack_y1 b3 b4 = y1"
proof -
  have b: "b0 = ucast (drop_bit 2 cb)" "b1 = ucast (push_bit 6 (cb AND 0x3) OR drop_bit 4 y0)"
      "b2 = ucast (push_bit 4 (y0 AND 0xF) OR drop_bit 6 cr)"
      "b3 = ucast (push_bit 2 (cr AND 0x3F) OR drop_bit 8 y1)" "b4 = ucast (y1 AND 0xFF)"
    using assms(5) by (simp_all add: packed_group_def)
  note s = small_sample [OF assms(1)] small_sample [OF assms(2)] small_sample [OF assms(3)] small_sample [OF assms(4)]
  show "unpack_cb b0 b1 = cb"
    by (rule bit_word_eqI, rename_tac n, case_tac "n < 2") (auto simp: unpack_cb_def b bit_simps sample_mask Suc_Suc_diff_2 not_less dest: s)
  show "unpack_y0 b1 b2 = y0"
    by (rule bit_word_eqI) (auto simp: unpack_y0_def b bit_simps sample_mask Suc_Suc_diff_2 not_less dest: s)
  show "unpack_cr b2 b3 = cr"
    by (rule bit_word_eqI) (auto simp: unpack_cr_def b bit_simps sample_mask Suc_Suc_diff_2 not_less dest: s)
  show "unpack_y1 b3 b4 = y1"
    by (rule bit_word_eqI) (auto simp: unpack_y1_def b bit_simps sample_mask Suc_Suc_diff_2 not_less dest: s)
qed

lemma byte_bit: "bit b n \<Longrightarrow> n < 8" for b :: byte
  using bit_imp_le_length [of b n] by simp

text \<open>And any five bytes are the packing of what the receiver unpacks from them.\<close>

lemma packed_unpack:
  "packed_group (unpack_cb b0 b1) (unpack_y0 b1 b2) (unpack_cr b2 b3) (unpack_y1 b3 b4) = [b0, b1, b2, b3, b4]"
  unfolding packed_group_def list.inject
  by (intro conjI refl; rule bit_word_eqI)
     (auto simp: unpack_cb_def unpack_y0_def unpack_cr_def unpack_y1_def bit_simps sample_mask
        Suc_Suc_diff_2 not_less dest: byte_bit)

section \<open>Headers\<close>

text \<open>The RTP header is that of RFC 3550: payload type 96, no sources, no extension.\<close>

definition tx_rtp :: "u16 \<Rightarrow> u32 \<Rightarrow> bool \<Rightarrow> rtp_wire" where
  "tx_rtp seq ts marker =
     \<lparr>w_marker = marker, w_ptype = 96, w_seq = seq, w_ts = ts, w_ssrc = SSRC, w_csrcs = [], w_ext = None\<rparr>"

lemma wf_tx_rtp [simp]: "wf_rtp (tx_rtp seq ts marker)"
  by (simp add: wf_rtp_def tx_rtp_def)

lemma rtp_header_bytes_eq: "rtp_header_bytes seq ts SSRC marker = put_rtp_header (tx_rtp seq ts marker)"
  by (simp add: rtp_header_bytes_def put_rtp_header_def tx_rtp_def rtp_byte0_def rtp_byte1_def put_rtp_ext_def
      put16_def put32_def)

lemma length_rtp_header_bytes [simp]: "length (rtp_header_bytes seq ts ssrc marker) = 12"
  by (simp add: rtp_header_bytes_def)

lemma parse_tx_header:
  "parse_rtp_header (rtp_header_bytes seq ts SSRC marker @ rest) = Some (Some (12, seq, ts, marker))"
  using parse_put_rtp_header [OF wf_tx_rtp, of seq ts marker rest]
  by (simp add: rtp_header_bytes_eq length_put_rtp_header tx_rtp_def)

text \<open>The six bytes after it are one line header.\<close>

definition tx_segment :: "nat \<Rightarrow> u32 \<Rightarrow> u16 \<Rightarrow> segment" where
  "tx_segment seg_len line px = \<lparr>line_no = ucast line, pixel_offset = px, seg_length = of_nat seg_len\<rparr>"

lemma length_tx_line_header [simp]: "length (tx_line_header seg_len line px c) = 6"
  by (simp add: tx_line_header_def)

lemma high_byte_of_nat: "ucast (drop_bit 8 (of_nat n :: u16)) = (of_nat (n div 256) :: byte)"
proof -
  have "n div 256 = drop_bit 8 n" by (simp add: drop_bit_eq_div)
  then show ?thesis by (intro bit_word_eqI) (auto simp: bit_simps)
qed

lemma low_byte_of_nat: "ucast (of_nat n AND 0xFF :: u16) = (of_nat (n mod 256) :: byte)"
proof -
  have "n mod 256 = take_bit 8 n" by (simp add: take_bit_eq_mod)
  then show ?thesis by (intro bit_word_eqI) (auto simp: bit_simps low_byte_mask)
qed

lemma bit_continuation: "bit (0x8000 :: u16) n \<longleftrightarrow> n = 15" "bit (0x80 :: byte) n \<longleftrightarrow> n = 7"
  using bit_exp_iff [of 15 n, where 'a = "16 word"] bit_exp_iff [of 7 n, where 'a = "8 word"] by auto

lemma tx_line_header_eq: "tx_line_header seg_len line px c = put_line_header (tx_segment seg_len line px, c)"
proof -
  have "ucast (drop_bit 8 line) = (ucast (drop_bit 8 (ucast line :: u16)) :: byte)"
      "ucast (line AND 0xFF) = (ucast ((ucast line :: u16) AND 0xFF) :: byte)"
      "0x80 OR ucast (drop_bit 8 px) = (ucast (drop_bit 8 (px OR 0x8000)) :: byte)"
    by (rule bit_word_eqI, auto simp: bit_simps low_byte_mask bit_continuation)+
  moreover have "(px OR 0x8000) AND 0xFF = px AND 0xFF"
    by (simp add: bit.conj_disj_distrib2)
  ultimately show ?thesis
    by (simp add: tx_line_header_def put_line_header_def tx_segment_def put16_def high_byte_of_nat low_byte_of_nat)
qed

end
