(* ===== verification/Tx_Traffic.thy ===== *)
theory Tx_Traffic
  imports Tx_Packets "HOL-Library.Sublist"
begin

text \<open>
  The traffic of the sending tool: which datagrams the loops over lines, segments and
  frames hand to \<open>sendto\<close>, described on the bytes of the picture alone.
\<close>

section \<open>The datagrams\<close>

definition datagram :: "u32 \<Rightarrow> u32 \<Rightarrow> bool \<Rightarrow> u32 \<Rightarrow> u16 \<Rightarrow> bool \<Rightarrow> byte list \<Rightarrow> byte list" where
  "datagram seq ts marker line px continuation seg =
     rtp_header_bytes (ucast seq) ts SSRC marker @ tx_line_header (length seg) line px continuation @ seg"

text \<open>A line, cut into segments of at most \<open>m\<close> bytes.\<close>

function line_datagrams ::
    "nat \<Rightarrow> u32 \<Rightarrow> u32 \<Rightarrow> bool \<Rightarrow> u16 \<Rightarrow> u32 \<Rightarrow> byte list \<Rightarrow> byte list list" where
  "line_datagrams m ts line last_line px seq bs =
     (if bs = [] \<or> m = 0 then []
      else
        let n = min m (length bs); continuation = (n < length bs)
        in datagram seq ts (last_line \<and> \<not> continuation) line px continuation (take n bs)
           # line_datagrams m ts line last_line (px + of_nat (n div 5 * 2)) (seq + 1) (drop n bs))"
  by pat_completeness auto
termination
  by (relation "measure (\<lambda>(m, ts, line, last_line, px, seq, bs). length bs)") auto

declare line_datagrams.simps [simp del]

fun frame_datagrams ::
    "nat \<Rightarrow> nat \<Rightarrow> u32 \<Rightarrow> u32 \<Rightarrow> u32 \<Rightarrow> nat \<Rightarrow> u32 \<Rightarrow> byte list \<Rightarrow> byte list list" where
  "frame_datagrams m stride ts height line 0 seq pic = []"
| "frame_datagrams m stride ts height line (Suc n) seq pic =
     (let ds = line_datagrams m ts line (line + 1 = height) 0 seq (take stride pic)
      in ds @ frame_datagrams m stride ts height (line + 1) n (seq + of_nat (length ds)) (drop stride pic))"

section \<open>What was sent\<close>

definition sent_in :: "os_event \<Rightarrow> ((u32 \<times> u16) \<times> byte list) list" where
  "sent_in e = (case e of Sys_sendto s dst bs ok \<Rightarrow> [(dst, bs)] | _ \<Rightarrow> [])"

definition sent :: "'z world_scheme \<Rightarrow> ((u32 \<times> u16) \<times> byte list) list" where
  "sent w = concat (map sent_in (trace w))"

lemma sent_emit [simp]: "sent (emit e w) = sent w @ sent_in e"
  by (simp add: sent_def)

text \<open>
  From \<open>w\<close> to \<open>w'\<close> the tool only wrote into its packet buffer and used only what it
  holds; and it sent some of the datagrams \<open>ds\<close>, in order, all of them if \<open>every\<close>.
\<close>

definition only_packet :: "tx_job \<Rightarrow> 'z world_scheme \<Rightarrow> 'z world_scheme \<Rightarrow> bool" where
  "only_packet job w w' \<longleftrightarrow>
     next_blk w' = next_blk w \<and> oom w' = oom w \<and> junk w' = junk w \<and> world.more w' = world.more w
     \<and> (\<forall>q. q \<noteq> j_packet job \<longrightarrow> contents w' q = contents w q)
     \<and> map_option length (contents w' (j_packet job)) = map_option length (contents w (j_packet job))
     \<and> (\<forall>R. R_socket (j_sock job) \<in># R \<and> holding w R \<longrightarrow> holding w' R)"

definition sends :: "tx_job \<Rightarrow> bool \<Rightarrow> byte list list \<Rightarrow> 'z world_scheme \<Rightarrow> 'z world_scheme \<Rightarrow> bool" where
  "sends job every ds w w' \<longleftrightarrow> only_packet job w w'
     \<and> (\<exists>ds'. sent w' = sent w @ map (Pair (j_dst job)) ds' \<and> subseq ds' ds \<and> (every \<longrightarrow> ds' = ds))"

lemma only_packet_refl [simp]: "only_packet job w w"
  by (simp add: only_packet_def)

lemma only_packet_trans: "only_packet job w w1 \<Longrightarrow> only_packet job w1 w2 \<Longrightarrow> only_packet job w w2"
  by (simp add: only_packet_def)

lemma sends_nothing [simp]: "sends job every [] w w"
  by (simp add: sends_def)

lemma sends_one: "only_packet job w w' \<Longrightarrow> sent w' = sent w @ [(j_dst job, d)] \<Longrightarrow> sends job every [d] w w'"
  unfolding sends_def by (intro conjI exI [of _ "[d]"]) simp_all

lemma sends_none: "only_packet job w w' \<Longrightarrow> sent w' = sent w \<Longrightarrow> sends job False ds w w'"
  unfolding sends_def by (intro conjI exI [of _ "[]"]) simp_all

lemma only_packet_emit:
  "(\<And>R. R_socket (j_sock job) \<in># R \<Longrightarrow> monitor e R = Some R) \<Longrightarrow> only_packet job w (emit e w)"
  using holding_emit [where w = w and e = e] by (auto simp: only_packet_def)

lemma sends_append:
  assumes "sends job every ds w w1" and "sends job every' ds' w1 w2" and "both \<Longrightarrow> every \<and> every'"
  shows "sends job both (ds @ ds') w w2"
proof -
  obtain es es' where e: "sent w1 = sent w @ map (Pair (j_dst job)) es" "subseq es ds" "every \<longrightarrow> es = ds"
      "sent w2 = sent w1 @ map (Pair (j_dst job)) es'" "subseq es' ds'" "every' \<longrightarrow> es' = ds'"
    using assms(1,2) by (auto simp: sends_def)
  then have "sent w2 = sent w @ map (Pair (j_dst job)) (es @ es')" "subseq (es @ es') (ds @ ds')"
      "both \<longrightarrow> es @ es' = ds @ ds'"
    using assms(3) by (auto intro: list_emb_append_mono)
  moreover have "only_packet job w w2"
    using assms(1,2) only_packet_trans unfolding sends_def by blast
  ultimately show ?thesis unfolding sends_def by blast
qed

lemma sends_after: "only_packet job w w1 \<Longrightarrow> sent w1 = sent w \<Longrightarrow> sends job every ds w1 w2 \<Longrightarrow> sends job every ds w w2"
  by (auto simp: sends_def intro: only_packet_trans)

text \<open>A stop after a failed call: the rest of what was to be sent is not.\<close>

lemma sends_part:
  assumes "sends job every ds w w'"
  shows "sends job False (ds @ ds') w w'"
proof -
  obtain es where "only_packet job w w'" "sent w' = sent w @ map (Pair (j_dst job)) es" "subseq es ds"
    using assms by (auto simp: sends_def)
  moreover from this have "subseq es (ds @ ds')" by (simp add: list_emb_prefix)
  ultimately show ?thesis unfolding sends_def by blast
qed

definition job_ready :: "tx_job \<Rightarrow> byte list \<Rightarrow> 'z world_scheme \<Rightarrow> bool" where
  "job_ready job pic w \<longleftrightarrow>
     j_frame job \<noteq> j_packet job \<and> 0 < j_max_segment job \<and> contents w (j_frame job) = Some pic
     \<and> (\<exists>n. map_option length (contents w (j_packet job)) = Some n \<and> 18 + j_max_segment job \<le> n)"

lemma job_ready_sends: "sends job every ds w w' \<Longrightarrow> job_ready job pic w \<Longrightarrow> job_ready job pic w'"
  by (auto simp: sends_def only_packet_def job_ready_def)

section \<open>One datagram\<close>

lemma tx_send_sends:
  fixes w :: "'z world_scheme"
  assumes "contents w (j_packet job) = Some pkt" and "n \<le> length pkt"
  obtains ok w' where "tx_send env job n w = Some (ok, w')"
    and "sends job (tx_drop_pct (j_cfg job) = 0) [take n pkt] w w'"
proof -
  let ?r = "e_rand env (now w)" and ?pct = "tx_drop_pct (j_cfg job)"
  have rand: "only_packet job w (emit (Sys_rand ?r) w)" by (rule only_packet_emit) simp
  have dgram: "only_packet job w (emit (Sys_sendto (j_sock job) (j_dst job) bs ok) w)"
    for bs ok and w :: "'z world_scheme"
    by (rule only_packet_emit) (simp add: require_def)
  have data: "contents (emit e w) (j_packet job) = Some pkt" for e using assms(1) by simp
  consider "?pct = 0" | "?pct \<noteq> 0" "?r mod 100 \<ge> unat ?pct" | "?pct \<noteq> 0" "\<not> ?r mod 100 \<ge> unat ?pct" by blast
  then show ?thesis
  proof cases
    case 1
    then show ?thesis
      using assms sends_one [OF dgram] by (intro that) (auto simp: tx_send_def Let_def rd_range_def sent_in_def)
  next
    case 2
    then show ?thesis
      using assms sends_one [OF only_packet_trans [OF rand dgram]]
      by (intro that) (auto simp: tx_send_def Let_def rd_range_def sent_in_def)
  next
    case 3
    then show ?thesis
      using sends_none [OF rand] by (intro that) (auto simp: tx_send_def Let_def sent_in_def)
  qed
qed

text \<open>Writing the three parts of a datagram into the packet buffer.\<close>

lemma only_packet_store:
  assumes "store w (j_packet job) i ys = Some w'"
  shows "only_packet job w w' \<and> sent w' = sent w"
proof -
  obtain a where a: "j_packet job = Some a" and w': "\<exists>b. w' = w\<lparr>blocks := b\<rparr>"
    using assms by (auto simp: store_def split: option.splits if_splits)
  then have "trace w' = trace w" "next_blk w' = next_blk w" "oom w' = oom w" "junk w' = junk w"
      "world.more w' = world.more w" by auto
  then show ?thesis
    using heap_mem.poke_other [OF assms] heap_mem.poke_length [OF assms]
    by (simp add: only_packet_def sent_def holding_def)
qed

lemma write_datagram:
  assumes "contents w (j_packet job) = Some pkt" and "length xs = 12" and "length ys = 6" and "18 + length zs \<le> length pkt"
  obtains w1 w2 w3 out where "store w (j_packet job) 0 xs = Some w1" and "store w1 (j_packet job) 12 ys = Some w2"
    and "store w2 (j_packet job) 18 zs = Some w3" and "only_packet job w w2" and "only_packet job w w3"
    and "sent w3 = sent w" and "contents w3 (j_packet job) = Some out" and "length out = length pkt"
    and "take (18 + length zs) out = xs @ ys @ zs"
proof -
  let ?p = "j_packet job"
  obtain w1 where w1: "store w ?p 0 xs = Some w1" "contents w1 ?p = Some (blit pkt 0 xs)"
    using heap_mem.poke_obtain [of w ?p pkt 0 xs] assms by auto
  obtain w2 where w2: "store w1 ?p 12 ys = Some w2" "contents w2 ?p = Some (blit (blit pkt 0 xs) 12 ys)"
    using heap_mem.poke_obtain [OF w1(2), of 12 ys] assms by (auto simp: length_blit)
  have "blit (blit pkt 0 xs) 12 ys = blit pkt 0 (xs @ ys)"
    using blit_blit_append [of 0 xs ys pkt] assms by simp
  with w2 have w2': "contents w2 ?p = Some (blit pkt 0 (xs @ ys))" by simp
  obtain w3 where w3: "store w2 ?p 18 zs = Some w3" "contents w3 ?p = Some (blit (blit pkt 0 (xs @ ys)) 18 zs)"
    using heap_mem.poke_obtain [OF w2', of 18 zs] assms by (auto simp: length_blit)
  have out: "blit (blit pkt 0 (xs @ ys)) 18 zs = blit pkt 0 (xs @ ys @ zs)"
    using blit_blit_append [of 0 "xs @ ys" zs pkt] assms by simp
  note o = only_packet_store [OF w1(1)] only_packet_store [OF w2(1)] only_packet_store [OF w3(1)]
  have 12: "only_packet job w w2" using o(1,2) only_packet_trans by blast
  moreover have "only_packet job w w3" using 12 o(3) only_packet_trans by blast
  moreover have "take (18 + length zs) (blit pkt 0 (xs @ ys @ zs)) = xs @ ys @ zs"
    using take_drop_blit_same [of 0 "xs @ ys @ zs" pkt] assms by (simp add: add.assoc)
  ultimately show ?thesis
    using that [OF w1(1) w2(1) w3(1)] w3(2) o assms by (simp add: out length_blit)
qed

section \<open>The loops\<close>

lemma line_datagrams_Nil [simp]: "line_datagrams m ts line last_line px seq [] = []"
  by (simp add: line_datagrams.simps)

lemma line_datagrams_step:
  "bs \<noteq> [] \<Longrightarrow> 0 < m \<Longrightarrow> n = min m (length bs) \<Longrightarrow>
     line_datagrams m ts line last_line px seq bs =
       datagram seq ts (last_line \<and> \<not> n < length bs) line px (n < length bs) (take n bs)
       # line_datagrams m ts line last_line (px + of_nat (n div 5 * 2)) (seq + 1) (drop n bs)"
  by (subst line_datagrams.simps) (simp add: Let_def)

definition loop_sends ::
    "tx_job \<Rightarrow> byte list list \<Rightarrow> u32 \<Rightarrow> 'z world_scheme \<Rightarrow> (bool \<times> u32 \<times> 'z world_scheme) option \<Rightarrow> bool" where
  "loop_sends job ds seq w r \<longleftrightarrow>
     (\<exists>ok seq' w'. r = Some (ok, seq', w') \<and> sends job (ok \<and> tx_drop_pct (j_cfg job) = 0) ds w w'
        \<and> (ok \<longrightarrow> seq' = seq + of_nat (length ds)))"

lemma loop_sends_failed: "\<not> ok \<Longrightarrow> sends job False ds w w' \<Longrightarrow> loop_sends job ds seq w (Some (ok, seq', w'))"
  unfolding loop_sends_def by (intro exI [of _ ok] exI [of _ seq'] exI [of _ w']) simp

lemma loop_sends_done:
  "sends job (tx_drop_pct (j_cfg job) = 0) ds w w' \<Longrightarrow> loop_sends job ds seq w (Some (True, seq + of_nat (length ds), w'))"
  unfolding loop_sends_def by (intro exI [of _ True]) simp

lemma loop_sends_append:
  assumes "sends job (tx_drop_pct (j_cfg job) = 0) ds w w1" and "loop_sends job ds' (seq + of_nat (length ds)) w1 r"
  shows "loop_sends job (ds @ ds') seq w r"
proof -
  let ?pct = "tx_drop_pct (j_cfg job)"
  obtain ok seq' w' where r: "r = Some (ok, seq', w')" "sends job (ok \<and> ?pct = 0) ds' w1 w'"
      "ok \<longrightarrow> seq' = seq + of_nat (length ds) + of_nat (length ds')"
    using assms(2) by (auto simp: loop_sends_def)
  have "sends job (ok \<and> ?pct = 0) (ds @ ds') w w'" by (rule sends_append [OF assms(1) r(2)]) simp
  then show ?thesis using r(1,3) by (simp add: loop_sends_def)
qed

text \<open>One turn of the loop over a line, on the part \<open>bs\<close> of the picture that is left of it.\<close>

definition rest_of_line :: "tx_job \<Rightarrow> byte list \<Rightarrow> u32 \<Rightarrow> nat \<Rightarrow> byte list" where
  "rest_of_line job pic line remaining =
     take remaining (drop (unat line * j_stride job + (j_stride job - remaining)) pic)"

lemma rest_of_line_length:
  assumes "remaining \<le> j_stride job" and "unat line * j_stride job + j_stride job \<le> length pic"
  shows "length (rest_of_line job pic line remaining) = remaining"
    and "n \<le> remaining \<Longrightarrow> rd_range pic (unat line * j_stride job + (j_stride job - remaining)) n
      = Some (take n (rest_of_line job pic line remaining))"
    and "n \<le> remaining \<Longrightarrow> drop n (rest_of_line job pic line remaining) = rest_of_line job pic line (remaining - n)"
  using assms by (simp_all add: rest_of_line_def rd_range_def drop_take ac_simps)

lemma tx_line_turn:
  fixes w :: "'z world_scheme"
  assumes ready: "job_ready job pic w" and left: "0 < remaining" "remaining \<le> j_stride job"
    and row: "unat line * j_stride job + j_stride job \<le> length pic"
    and n: "n = min (j_max_segment job) remaining"
  obtains ok w' d where "tx_line env job ts line remaining px seq w =
      (if \<not> ok then Some (False, seq + 1, w')
       else tx_line env job ts line (remaining - n) (px + of_nat (n div 5 * 2)) (seq + 1) w')"
    and "sends job (tx_drop_pct (j_cfg job) = 0) [d] w w'"
    and "line_datagrams (j_max_segment job) ts line (line + 1 = tx_height (j_cfg job)) px seq (rest_of_line job pic line remaining)
       = d # line_datagrams (j_max_segment job) ts line (line + 1 = tx_height (j_cfg job)) (px + of_nat (n div 5 * 2))
           (seq + 1) (rest_of_line job pic line (remaining - n))"
proof -
  let ?m = "j_max_segment job" and ?bs = "rest_of_line job pic line remaining"
  let ?c = "remaining > n" and ?last = "line + 1 = tx_height (j_cfg job)"
  let ?H = "rtp_header_bytes (ucast seq) ts SSRC (?last \<and> \<not> ?c)" and ?L = "tx_line_header n line px ?c"
  have m: "0 < ?m" "j_frame job \<noteq> j_packet job" using ready by (auto simp: job_ready_def)
  have n': "0 < n" "n \<le> remaining" "n \<le> ?m" "(if remaining > ?m then ?m else remaining) = n"
    using m left(1) by (auto simp: n)
  note bs = rest_of_line_length [OF left(2) row]
  obtain pkt where pkt: "contents w (j_packet job) = Some pkt" "18 + ?m \<le> length pkt"
    using ready by (auto simp: job_ready_def)
  have segl: "length (take n ?bs) = n" and fits: "18 + length (take n ?bs) \<le> length pkt" using n' bs(1) pkt(2) by auto
  obtain w1 w2 w3 out where wr: "store w (j_packet job) 0 ?H = Some w1" "store w1 (j_packet job) 12 ?L = Some w2"
      "store w2 (j_packet job) 18 (take n ?bs) = Some w3" "only_packet job w w2" "only_packet job w w3"
      "sent w3 = sent w" "contents w3 (j_packet job) = Some out" "length out = length pkt"
      "take (18 + n) out = ?H @ ?L @ take n ?bs"
    using write_datagram [OF pkt(1) length_rtp_header_bytes length_tx_line_header fits,
        of "ucast seq" ts SSRC "?last \<and> \<not> ?c" n line px ?c, unfolded segl] by blast
  obtain ok w4 where w4: "tx_send env job (18 + n) w3 = Some (ok, w4)"
      "sends job (tx_drop_pct (j_cfg job) = 0) [take (18 + n) out] w3 w4"
    using tx_send_sends [OF wr(7), of "18 + n" env] pkt(2) wr(8) n' by auto
  have "contents w2 (j_frame job) = Some pic"
    using wr(4) ready m(2) by (auto simp: only_packet_def job_ready_def)
  then have "tx_line env job ts line remaining px seq w =
      (if \<not> ok then Some (False, seq + 1, w4)
       else tx_line env job ts line (remaining - n) (px + of_nat (n div 5 * 2)) (seq + 1) w4)"
    using left m wr(1-3) w4(1) bs(2) [OF n'(2)] by (subst tx_line.simps) (simp add: Let_def write_rtp_header_def n'(4))
  moreover have "line_datagrams ?m ts line ?last px seq ?bs
      = take (18 + n) out # line_datagrams ?m ts line ?last (px + of_nat (n div 5 * 2)) (seq + 1) (drop n ?bs)"
    using line_datagrams_step [of ?bs ?m n ts line ?last px seq] wr(9) segl left(1) m(1) bs(1) n
    by (force simp: datagram_def)
  ultimately show ?thesis
    using that sends_after [OF wr(5,6) w4(2)] bs(3) [OF n'(2)] by simp
qed

lemma tx_line_sends:
  assumes "job_ready job pic w" and "remaining \<le> j_stride job" and "unat line * j_stride job + j_stride job \<le> length pic"
  shows "loop_sends job (line_datagrams (j_max_segment job) ts line (line + 1 = tx_height (j_cfg job)) px seq
      (rest_of_line job pic line remaining)) seq w
    (tx_line env job ts line remaining px seq w)"
  using assms
proof (induction remaining arbitrary: px seq w rule: less_induct)
  case (less remaining)
  show ?case
  proof (cases "remaining = 0")
    case True
    then show ?thesis by (subst tx_line.simps) (auto simp: loop_sends_def rest_of_line_def)
  next
    case False
    define n where "n = min (j_max_segment job) remaining"
    obtain ok w' d where t: "tx_line env job ts line remaining px seq w =
          (if \<not> ok then Some (False, seq + 1, w')
           else tx_line env job ts line (remaining - n) (px + of_nat (n div 5 * 2)) (seq + 1) w')"
        "sends job (tx_drop_pct (j_cfg job) = 0) [d] w w'"
        "line_datagrams (j_max_segment job) ts line (line + 1 = tx_height (j_cfg job)) px seq (rest_of_line job pic line remaining)
          = d # line_datagrams (j_max_segment job) ts line (line + 1 = tx_height (j_cfg job)) (px + of_nat (n div 5 * 2))
              (seq + 1) (rest_of_line job pic line (remaining - n))" (is "_ = _ # ?ds")
      using tx_line_turn [OF less.prems(1) _ less.prems(2,3) n_def] False by blast
    show ?thesis
    proof (cases ok)
      case failed: False
      then show ?thesis
        using sends_part [OF t(2), of ?ds] unfolding t(1,3) by (simp add: loop_sends_failed)
    next
      case True
      have "remaining - n < remaining" using False less.prems(1) by (auto simp: n_def job_ready_def)
      then have "loop_sends job ?ds (seq + 1) w'
          (tx_line env job ts line (remaining - n) (px + of_nat (n div 5 * 2)) (seq + 1) w')"
        using less.prems job_ready_sends [OF t(2)] by (intro less.IH) auto
      then have "loop_sends job ([d] @ ?ds) seq w
          (tx_line env job ts line (remaining - n) (px + of_nat (n div 5 * 2)) (seq + 1) w')"
        by (intro loop_sends_append [OF t(2)]) simp
      then show ?thesis using True by (simp add: t(1,3))
    qed
  qed
qed

lemma tx_lines_sends:
  assumes "job_ready job pic w" and "(unat line + n) * j_stride job \<le> length pic" and "unat line + n < 2 ^ 32"
  shows "loop_sends job (frame_datagrams (j_max_segment job) (j_stride job) ts (tx_height (j_cfg job)) line n seq
      (drop (unat line * j_stride job) pic)) seq w
    (tx_lines env job ts line n seq w)"
  using assms
proof (induction n arbitrary: line seq w)
  case 0
  then show ?case by (auto simp: loop_sends_def)
next
  case (Suc n)
  let ?s = "j_stride job" and ?pct = "tx_drop_pct (j_cfg job)"
  let ?row = "drop (unat line * ?s) pic" and ?last = "line + 1 = tx_height (j_cfg job)"
  let ?ds = "line_datagrams (j_max_segment job) ts line ?last 0 seq (take ?s ?row)"
  have next_line: "unat (line + 1) = Suc (unat line)"
    using Suc.prems(3) by (simp add: unat_word_ariths)
  have "loop_sends job ?ds seq w (tx_line env job ts line ?s 0 seq w)"
    using tx_line_sends [OF Suc.prems(1) order_refl, of line] Suc.prems(2) by (simp add: rest_of_line_def algebra_simps)
  then obtain ok seq1 w1 where l: "tx_line env job ts line ?s 0 seq w = Some (ok, seq1, w1)"
      "sends job (ok \<and> ?pct = 0) ?ds w w1" "ok \<longrightarrow> seq1 = seq + of_nat (length ?ds)"
    by (auto simp: loop_sends_def)
  let ?rest = "frame_datagrams (j_max_segment job) ?s ts (tx_height (j_cfg job)) (line + 1) n
      (seq + of_nat (length ?ds)) (drop (unat (line + 1) * ?s) pic)"
  have fr: "frame_datagrams (j_max_segment job) ?s ts (tx_height (j_cfg job)) line (Suc n) seq ?row = ?ds @ ?rest"
    by (simp only: frame_datagrams.simps Let_def next_line drop_drop mult_Suc)
  show ?case
  proof (cases ok)
    case False
    then show ?thesis
      using l sends_part [of job _ ?ds w w1 ?rest] unfolding fr by (simp add: loop_sends_failed)
  next
    case True
    have "loop_sends job ?rest (seq + of_nat (length ?ds)) w1 (tx_lines env job ts (line + 1) n seq1 w1)"
      using Suc.IH [of w1 "line + 1" seq1] Suc.prems l True job_ready_sends [OF l(2) Suc.prems(1)] next_line
      by (simp add: algebra_simps)
    then show ?thesis
      unfolding fr using l True by (simp add: loop_sends_append)
  qed
qed

text \<open>The datagrams of \<open>n\<close> frames: the timestamp advances by one frame, the sequence number runs on.\<close>

fun session_datagrams ::
    "nat \<Rightarrow> nat \<Rightarrow> u32 \<Rightarrow> u32 \<Rightarrow> byte list \<Rightarrow> nat \<Rightarrow> u32 \<Rightarrow> u32 \<Rightarrow> byte list list" where
  "session_datagrams m stride ts_step height pic 0 ts seq = []"
| "session_datagrams m stride ts_step height pic (Suc n) ts seq =
     (let ds = frame_datagrams m stride ts height 0 (unat height) seq pic
      in ds @ session_datagrams m stride ts_step height pic n (ts + ts_step) (seq + of_nat (length ds)))"

text \<open>How many frames are sent from frame \<open>frame_index\<close> on, within \<open>fuel\<close> of them.\<close>

definition frames_to_send :: "tx_config_t \<Rightarrow> u32 \<Rightarrow> nat \<Rightarrow> nat" where
  "frames_to_send cfg frame_index fuel =
     (if tx_count cfg = 0 then fuel else min fuel (unat (tx_count cfg) - unat frame_index))"

definition tx_step :: "tx_config_t \<Rightarrow> u32" where
  "tx_step cfg = 90000 div tx_fps cfg"

lemma frames_to_send_done:
  "\<not> (tx_count cfg = 0 \<or> frame_index < tx_count cfg) \<Longrightarrow> frames_to_send cfg frame_index fuel = 0"
  by (auto simp: frames_to_send_def word_less_nat_alt)

lemma frames_to_send_Suc:
  assumes "tx_count cfg = 0 \<or> frame_index < tx_count cfg"
  shows "frames_to_send cfg frame_index (Suc fuel) = Suc (frames_to_send cfg (frame_index + 1) fuel)"
proof (cases "tx_count cfg = 0")
  case True
  then show ?thesis by (simp add: frames_to_send_def)
next
  case False
  with assms have less: "unat frame_index < unat (tx_count cfg)" by (simp add: word_less_nat_alt)
  then have "unat (frame_index + 1) = Suc (unat frame_index)"
    using unat_u32_less [of "tx_count cfg"] by (simp add: unat_word_ariths)
  then show ?thesis using False less by (simp add: frames_to_send_def)
qed

text \<open>Pacing reads the clock and sleeps, nothing more.\<close>

lemma now_ms_sends: "now_ms env pf w = (t, w') \<Longrightarrow> sends job every [] w w'"
  unfolding sends_def by (auto simp: now_ms_def Let_def sent_in_def intro!: only_packet_emit)

lemma sleep_ms_sends: "sends job every [] w (sleep_ms pf ms w)"
  unfolding sends_def by (auto simp: sleep_ms_def sent_in_def intro!: only_packet_emit)

lemma tx_pace_sends: "sends job every [] w (tx_pace env job start w)"
proof -
  obtain t w1 where now: "now_ms env (j_pf job) w = (t, w1)" by fastforce
  have "sends job every [] w1 (sleep_ms (j_pf job) ms w1)" for ms by (rule sleep_ms_sends)
  from sends_append [OF now_ms_sends [OF now] this, of every every] show ?thesis
    using now_ms_sends [OF now] by (simp add: tx_pace_def now Let_def)
qed

text \<open>One frame of the loop: its datagrams, and the time until the next one.\<close>

lemma tx_one_frame:
  fixes job ts seq pic
  defines "ds \<equiv> frame_datagrams (j_max_segment job) (j_stride job) ts (tx_height (j_cfg job)) 0
      (unat (tx_height (j_cfg job))) seq pic"
  assumes ready: "job_ready job pic w" and size: "unat (tx_height (j_cfg job)) * j_stride job \<le> length pic"
    and go: "tx_count (j_cfg job) = 0 \<or> frame_index < tx_count (j_cfg job)"
  obtains ok seq1 w1 w2 where "tx_frames env job frame_index ts seq (Suc fuel) w =
      (if \<not> ok then Some (Some False, w1) else tx_frames env job (frame_index + 1) (ts + tx_step (j_cfg job)) seq1 fuel w2)"
    and "sends job (ok \<and> tx_drop_pct (j_cfg job) = 0) ds w w1" and "sends job (ok \<and> tx_drop_pct (j_cfg job) = 0) ds w w2"
    and "ok \<longrightarrow> seq1 = seq + of_nat (length ds)"
proof -
  let ?h = "tx_height (j_cfg job)" and ?full = "tx_drop_pct (j_cfg job) = 0"
  obtain start w0 where now: "now_ms env (j_pf job) w = (start, w0)" by fastforce
  note w0 = now_ms_sends [OF now, of job]
  have "loop_sends job ds seq w0 (tx_lines env job ts 0 (unat ?h) seq w0)"
    using tx_lines_sends [OF job_ready_sends [OF w0 ready], of 0 "unat ?h"] size unat_u32_less [of ?h]
    by (simp add: ds_def)
  then obtain ok seq1 w1 where l: "tx_lines env job ts 0 (unat ?h) seq w0 = Some (ok, seq1, w1)"
      "sends job (ok \<and> ?full) ds w0 w1" "ok \<longrightarrow> seq1 = seq + of_nat (length ds)"
    by (auto simp: loop_sends_def)
  have sent: "sends job (ok \<and> ?full) ds w w1"
    using sends_append [OF w0 l(2), of "ok \<and> ?full"] by simp
  have "sends job (ok \<and> ?full) ds w (tx_pace env job start w1)"
    using sends_append [OF sent tx_pace_sends, of "ok \<and> ?full"] by simp
  moreover have "tx_frames env job frame_index ts seq (Suc fuel) w =
      (if \<not> ok then Some (Some False, w1)
       else tx_frames env job (frame_index + 1) (ts + tx_step (j_cfg job)) seq1 fuel (tx_pace env job start w1))"
    using go l(1) now by (subst tx_frames.simps) (simp add: tx_step_def)
  ultimately show ?thesis using that sent l(3) by blast
qed

lemma tx_frames_sends:
  assumes "job_ready job pic w" and "unat (tx_height (j_cfg job)) * j_stride job \<le> length pic"
  shows "\<exists>r w'. tx_frames env job frame_index ts seq fuel w = Some (r, w')
    \<and> sends job (r \<noteq> Some False \<and> tx_drop_pct (j_cfg job) = 0)
        (session_datagrams (j_max_segment job) (j_stride job) (tx_step (j_cfg job)) (tx_height (j_cfg job)) pic
           (frames_to_send (j_cfg job) frame_index fuel) ts seq) w w'
    \<and> (r = None \<longrightarrow> tx_count (j_cfg job) = 0 \<or> unat frame_index + fuel < unat (tx_count (j_cfg job)))"
  using assms
proof (induction fuel arbitrary: frame_index ts seq w)
  case 0
  then show ?case
    by (subst tx_frames.simps) (auto simp: frames_to_send_def word_less_nat_alt)
next
  case (Suc fuel)
  let ?cfg = "j_cfg job" and ?s = "j_stride job" and ?m = "j_max_segment job"
  let ?pct = "tx_drop_pct ?cfg" and ?h = "tx_height ?cfg"
  show ?case
  proof (cases "tx_count ?cfg = 0 \<or> frame_index < tx_count ?cfg")
    case False
    then show ?thesis
      by (subst tx_frames.simps) (simp add: frames_to_send_done)
  next
    case go: True
    let ?ds = "frame_datagrams ?m ?s ts ?h 0 (unat ?h) seq pic"
    obtain ok seq1 w1 w2 where step: "tx_frames env job frame_index ts seq (Suc fuel) w =
        (if \<not> ok then Some (Some False, w1) else tx_frames env job (frame_index + 1) (ts + tx_step ?cfg) seq1 fuel w2)"
      and sent: "sends job (ok \<and> ?pct = 0) ?ds w w1" and paced: "sends job (ok \<and> ?pct = 0) ?ds w w2"
      and seq1: "ok \<longrightarrow> seq1 = seq + of_nat (length ?ds)"
      by (rule tx_one_frame [OF Suc.prems go])
    let ?rest = "session_datagrams ?m ?s (tx_step ?cfg) ?h pic (frames_to_send ?cfg (frame_index + 1) fuel)
        (ts + tx_step ?cfg) (seq + of_nat (length ?ds))"
    have all: "session_datagrams ?m ?s (tx_step ?cfg) ?h pic (frames_to_send ?cfg frame_index (Suc fuel)) ts seq
        = ?ds @ ?rest"
      by (simp add: frames_to_send_Suc [OF go] Let_def)
    show ?thesis
    proof (cases ok)
      case False
      then show ?thesis
        using sends_part [OF sent, of ?rest] unfolding step all by simp
    next
      case True
      obtain r w' where r: "tx_frames env job (frame_index + 1) (ts + tx_step ?cfg) seq1 fuel w2 = Some (r, w')"
          "sends job (r \<noteq> Some False \<and> ?pct = 0) ?rest w2 w'"
          "r = None \<longrightarrow> tx_count ?cfg = 0 \<or> unat (frame_index + 1) + fuel < unat (tx_count ?cfg)"
        using Suc.IH [OF job_ready_sends [OF paced Suc.prems(1)] Suc.prems(2), of "frame_index + 1" "ts + tx_step ?cfg" seq1] True seq1
        by auto
      have "sends job (r \<noteq> Some False \<and> ?pct = 0) (?ds @ ?rest) w w'"
        by (rule sends_append [OF paced r(2)]) (simp add: True)
      moreover have "r = None \<longrightarrow> tx_count ?cfg = 0 \<or> unat frame_index + Suc fuel < unat (tx_count ?cfg)"
        using r(3) go unat_u32_less [of "tx_count ?cfg"]
        by (auto simp: unat_word_ariths word_less_nat_alt)
      ultimately show ?thesis using True r(1) unfolding step all by simp
    qed
  qed
qed

end
