(* ===== verification/Tx_Wire.thy ===== *)
theory Tx_Wire
  imports Tx_Traffic
begin

text \<open>
  What a receiver finds in the datagrams of a frame: sequence numbers, timestamps and the
  marker, and line headers that address every payload's place in the picture, for a
  receiver that looks for them right after the RTP header, where the tool writes them.
\<close>

definition payload :: "byte list \<Rightarrow> byte list" where
  "payload d = drop 18 d"

definition payloads :: "byte list list \<Rightarrow> byte list" where
  "payloads ds = concat (map payload ds)"

lemma payloads_simps [simp]:
  "payloads [] = []" "payloads (d # ds) = payload d @ payloads ds" "payloads (ds @ es) = payloads ds @ payloads es"
  by (simp_all add: payloads_def)

lemma payload_datagram [simp]: "payload (datagram seq ts marker line px c seg) = seg"
  by (simp add: payload_def datagram_def)

lemma length_datagram [simp]: "length (datagram seq ts marker line px c seg) = 18 + length seg"
  by (simp add: datagram_def)

lemma all_less_add: "(\<forall>i < a + b. Q i) \<longleftrightarrow> (\<forall>i < a. Q i) \<and> (\<forall>i < b. Q (a + i))" for a b :: nat
proof -
  have "Q i" if "\<forall>i < a. Q i" "\<forall>i < b. Q (a + i)" "i < a + b" for i
    using that by (cases "i < a") (auto dest: spec [of _ "i - a"])
  then show ?thesis by auto
qed

section \<open>Lines\<close>

lemma line_datagrams_cases [case_names empty step]:
  assumes "0 < m" and "bs = [] \<Longrightarrow> P"
    and "\<And>n. bs \<noteq> [] \<Longrightarrow> n = min m (length bs) \<Longrightarrow> 0 < n \<Longrightarrow> n \<le> length bs \<Longrightarrow> P"
  shows P
  using assms by (cases "bs = []") auto

lemma line_payloads: "0 < m \<Longrightarrow> payloads (line_datagrams m ts line last_line px seq bs) = bs"
proof (induction "length bs" arbitrary: px seq bs rule: less_induct)
  case less
  show ?case
  proof (cases "bs = []")
    case False
    then show ?thesis
      using less by (subst line_datagrams_step [OF False less.prems refl]) simp
  qed simp
qed

lemma line_nonempty: "0 < m \<Longrightarrow> bs \<noteq> [] \<Longrightarrow> line_datagrams m ts line last_line px seq bs \<noteq> []"
  by (subst line_datagrams_step) auto

lemma line_sizes:
  "0 < m \<Longrightarrow> d \<in> set (line_datagrams m ts line last_line px seq bs) \<Longrightarrow> 18 < length d \<and> length d \<le> 18 + m"
proof (induction "length bs" arbitrary: px seq bs rule: less_induct)
  case less
  show ?case
  proof (cases "bs = []")
    case True
    then show ?thesis using less.prems by simp
  next
    case False
    then show ?thesis
      using less.prems(2) less.hyps [of "drop (min m (length bs)) bs"] less.prems(1)
      unfolding line_datagrams_step [OF False less.prems(1) refl] by auto
  qed
qed

text \<open>The RTP headers of a run of datagrams: numbers in a row, one timestamp, the marker where \<open>marked\<close>.\<close>

definition numbered :: "u32 \<Rightarrow> u32 \<Rightarrow> (nat \<Rightarrow> bool) \<Rightarrow> byte list list \<Rightarrow> bool" where
  "numbered seq ts marked ds \<longleftrightarrow>
     (\<forall>i < length ds. parse_rtp_header (ds ! i) = Some (Some (12, ucast (seq + of_nat i), ts, marked i)))"

lemma numbered_Nil [simp]: "numbered seq ts marked []"
  by (simp add: numbered_def)

lemma numbered_append:
  "numbered seq ts marked (ds @ es) \<longleftrightarrow>
     numbered seq ts marked ds \<and> numbered (seq + of_nat (length ds)) ts (\<lambda>i. marked (length ds + i)) es"
  by (simp add: numbered_def all_less_add nth_append add.assoc)

lemma parse_datagram:
  "parse_rtp_header (datagram seq ts marker line px c seg) = Some (Some (12, ucast seq, ts, marker))"
  by (simp add: datagram_def parse_tx_header)

lemma numbered_Cons:
  "numbered seq ts marked (d # ds) \<longleftrightarrow>
     parse_rtp_header d = Some (Some (12, ucast seq, ts, marked 0)) \<and> numbered (seq + 1) ts (\<lambda>i. marked (Suc i)) ds"
  using numbered_append [of seq ts marked "[d]" ds] by (simp add: numbered_def)

lemma line_numbered:
  assumes "0 < m"
  shows "numbered seq ts (\<lambda>i. last_line \<and> Suc i = length (line_datagrams m ts line last_line px seq bs))
    (line_datagrams m ts line last_line px seq bs)"
proof (induction "length bs" arbitrary: px seq bs rule: less_induct)
  case less
  show ?case
  proof (cases "bs = []")
    case False
    let ?n = "min m (length bs)"
    let ?rest = "line_datagrams m ts line last_line (px + of_nat (?n div 5 * 2)) (seq + 1) (drop ?n bs)"
    have "?rest = [] \<longleftrightarrow> \<not> ?n < length bs"
      using line_nonempty [OF assms, of "drop ?n bs"] by (cases "?n < length bs") auto
    then show ?thesis
      using less [of "drop ?n bs"] False assms
      by (simp add: line_datagrams_step [OF False assms refl] numbered_Cons parse_datagram)
  qed simp
qed

section \<open>Places\<close>

text \<open>Where in a picture of lines of \<open>stride\<close> bytes the line header of a datagram places its payload.\<close>

definition addressed :: "nat \<Rightarrow> byte list \<Rightarrow> nat option" where
  "addressed stride d =
     (case rd_line_header d 12 of
        None \<Rightarrow> None
      | Some (s, c) \<Rightarrow>
          if unat (seg_length s) = length (payload d)
          then Some (unat (line_no s) * stride + unat (pixel_offset s) div 2 * 5) else None)"

definition placed :: "nat \<Rightarrow> nat \<Rightarrow> byte list list \<Rightarrow> bool" where
  "placed stride pos ds \<longleftrightarrow>
     (\<forall>i < length ds. addressed stride (ds ! i) = Some (pos + length (payloads (take i ds))))"

lemma placed_Nil [simp]: "placed stride pos []"
  by (simp add: placed_def)

lemma placed_append:
  "placed stride pos (ds @ es) \<longleftrightarrow> placed stride pos ds \<and> placed stride (pos + length (payloads ds)) es"
  by (simp add: placed_def all_less_add nth_append add.assoc)

lemma placed_Cons:
  "placed stride pos (d # ds) \<longleftrightarrow>
     addressed stride d = Some pos \<and> placed stride (pos + length (payload d)) ds"
  using placed_append [of stride pos "[d]" ds] by (simp add: placed_def)

lemma low15: "x < 0x8000 \<Longrightarrow> x AND 0x7FFF = x" for x :: u16
proof -
  assume "x < 0x8000"
  then have "unat (take_bit 15 x) = unat x"
    by (simp add: word_less_nat_alt unsigned_take_bit_eq take_bit_nat_eq_self)
  then have "take_bit 15 x = x" by (rule word_unat_eq_iff [THEN iffD2])
  then show ?thesis by (simp add: take_bit_eq_mask mask_eq_exp_minus_1)
qed

lemma addressed_datagram:
  assumes "unat line < 32768" and "px < 0x8000" and "length seg < 65536"
  shows "addressed stride (datagram seq ts marker line px c seg) = Some (unat line * stride + unat px div 2 * 5)"
proof -
  let ?s = "tx_segment (length seg) line px"
  have line: "unat (ucast line :: u16) = unat line" using assms(1) by (simp add: unsigned_ucast_eq take_bit_eq_mod)
  then have "(ucast line :: u16) < 0x8000" using assms(1) by (simp add: word_less_nat_alt)
  then have "wf_segment ?s" using assms(2) low15 by (simp add: wf_segment_def tx_segment_def)
  then have "rd_line_header (datagram seq ts marker line px c seg) 12 = Some (?s, c)"
    using rd_put_line_header [of ?s 12 "rtp_header_bytes (ucast seq) ts SSRC marker" c seg]
    by (simp add: datagram_def tx_line_header_eq)
  then show ?thesis using assms(3) line by (simp add: addressed_def tx_segment_def unat_of_nat)
qed

lemma line_placed:
  assumes "0 < m" and "5 dvd m" and "m < 65536" and "unat line < 32768"
    and "unat px = 2 * k" and "unat px + length bs div 5 * 2 \<le> 32768" and "5 dvd length bs"
  shows "placed stride (unat line * stride + 5 * k) (line_datagrams m ts line last_line px seq bs)"
  using assms(5-7)
proof (induction "length bs" arbitrary: px seq bs k rule: less_induct)
  case less
  show ?case
  proof (cases "bs = []")
    case False
    let ?n = "min m (length bs)"
    have n: "0 < ?n" "5 dvd ?n" "?n \<le> length bs" using False assms(1,2) less.prems(3) by (auto simp: min_def)
    obtain j b where j: "?n = 5 * j" "length bs = 5 * b" using n(2) less.prems(3) by (auto elim!: dvdE)
    have bound: "0 < j" "j \<le> b" "2 * k + 2 * b \<le> 32768"
      using n j less.prems(1,2) by auto
    have "placed stride (unat line * stride + 5 * (k + j))
        (line_datagrams m ts line last_line (px + of_nat (?n div 5 * 2)) (seq + 1) (drop ?n bs))"
      using j bound less.prems(1) by (intro less.hyps) (auto simp: unat_word_ariths unat_of_nat nat_mult_dvd_cancel_disj simp flip: right_diff_distrib')
    moreover have "addressed stride (datagram seq ts marker line px c (take ?n bs)) = Some (unat line * stride + 5 * k)"
      for marker c
      using bound j less.prems(1) assms(3,4) by (subst addressed_datagram) (auto simp: word_less_nat_alt)
    ultimately show ?thesis
      using n(3) j(1) unfolding line_datagrams_step [OF False assms(1) refl] placed_Cons
      by (simp add: algebra_simps)
  qed simp
qed

section \<open>Frames\<close>

lemma frame_payloads:
  "0 < m \<Longrightarrow> n * stride \<le> length pic \<Longrightarrow>
     payloads (frame_datagrams m stride ts height line n seq pic) = take (n * stride) pic"
proof (induction n arbitrary: line seq pic)
  case (Suc n)
  then show ?case by (simp add: Let_def line_payloads take_add add.commute)
qed simp

lemma frame_sizes:
  "0 < m \<Longrightarrow> d \<in> set (frame_datagrams m stride ts height line n seq pic) \<Longrightarrow> 18 < length d \<and> length d \<le> 18 + m"
  by (induction n arbitrary: line seq pic) (auto simp: Let_def dest: line_sizes)

lemma frame_numbered:
  assumes "0 < m" and "0 < stride" and "n * stride \<le> length pic" and "unat line + n = unat height"
  shows "numbered seq ts (\<lambda>i. Suc i = length (frame_datagrams m stride ts height line n seq pic))
    (frame_datagrams m stride ts height line n seq pic)"
  using assms(3,4)
proof (induction n arbitrary: line seq pic)
  case (Suc n)
  let ?last = "line + 1 = height"
  let ?ds = "line_datagrams m ts line ?last 0 seq (take stride pic)"
  let ?rest = "frame_datagrams m stride ts height (line + 1) n (seq + of_nat (length ?ds)) (drop stride pic)"
  have next_line: "unat (line + 1) = Suc (unat line)"
    using Suc.prems(2) unat_u32_less [of height] by (simp add: unat_word_ariths)
  then have last: "?last \<longleftrightarrow> n = 0"
    using Suc.prems(2) by (auto simp: word_unat_eq_iff)
  have rest: "?rest = [] \<longleftrightarrow> n = 0"
  proof (cases n)
    case (Suc n')
    then show ?thesis
      using line_nonempty [OF assms(1), of "take stride (drop stride pic)"] assms(2) Suc.prems(1)
      by (simp add: Let_def)
  qed simp
  have "numbered (seq + of_nat (length ?ds)) ts (\<lambda>i. Suc i = length ?rest) ?rest"
    using Suc.prems next_line by (intro Suc.IH) auto
  moreover have "numbered seq ts (\<lambda>i. Suc i = length (?ds @ ?rest)) ?ds"
  proof -
    have "(?last \<and> Suc i = length ?ds) \<longleftrightarrow> Suc i = length (?ds @ ?rest)" if "i < length ?ds" for i
      using that rest last by (cases ?rest) auto
    then show ?thesis
      using line_numbered [OF assms(1), of seq ts ?last line 0 "take stride pic"] by (simp add: numbered_def)
  qed
  ultimately have "numbered seq ts (\<lambda>i. Suc i = length (?ds @ ?rest)) (?ds @ ?rest)"
    by (simp add: numbered_append)
  then show ?case by (simp add: Let_def)
qed simp

lemma frame_placed:
  assumes "0 < m" and "5 dvd m" and "m < 65536" and "5 dvd stride" and "stride div 5 * 2 \<le> 32768"
    and "n * stride \<le> length pic" and "unat line + n \<le> 32768"
  shows "placed stride (unat line * stride) (frame_datagrams m stride ts height line n seq pic)"
  using assms(6,7)
proof (induction n arbitrary: line seq pic)
  case (Suc n)
  have next_line: "unat (line + 1) = Suc (unat line)" "unat (1 + line) = Suc (unat line)"
    using Suc.prems(2) by (simp_all add: unat_word_ariths)
  have row: "length (take stride pic) = stride" using Suc.prems(1) by simp
  have "placed stride (unat line * stride + 5 * 0) (line_datagrams m ts line (line + 1 = height) 0 seq (take stride pic))"
    using assms(1-5) Suc.prems row by (intro line_placed) auto
  moreover have "placed stride (unat (line + 1) * stride)
      (frame_datagrams m stride ts height (line + 1) n q (drop stride pic))" for q
    using Suc.prems next_line by (intro Suc.IH) auto
  ultimately show ?case
    using assms(1) row by (simp add: Let_def placed_append line_payloads next_line add.commute)
qed simp

text \<open>All of that for one frame, and for the frames of a session.\<close>

definition frame_on_wire :: "nat \<Rightarrow> nat \<Rightarrow> byte list \<Rightarrow> u32 \<Rightarrow> u32 \<Rightarrow> byte list list \<Rightarrow> bool" where
  "frame_on_wire m stride pic seq ts ds \<longleftrightarrow>
     payloads ds = pic
     \<and> numbered seq ts (\<lambda>i. Suc i = length ds) ds
     \<and> placed stride 0 ds
     \<and> (\<forall>d \<in> set ds. 18 < length d \<and> length d \<le> 18 + m)"

definition wire_sizes :: "nat \<Rightarrow> nat \<Rightarrow> u32 \<Rightarrow> byte list \<Rightarrow> bool" where
  "wire_sizes m stride height pic \<longleftrightarrow>
     0 < m \<and> 5 dvd m \<and> m < 65536 \<and> 0 < stride \<and> 5 dvd stride \<and> stride div 5 * 2 \<le> 32768
     \<and> unat height \<le> 32768 \<and> length pic = unat height * stride"

lemma frame_datagrams_on_wire:
  assumes "wire_sizes m stride height pic"
  shows "frame_on_wire m stride pic seq ts (frame_datagrams m stride ts height 0 (unat height) seq pic)"
proof -
  note a = assms [unfolded wire_sizes_def]
  let ?ds = "frame_datagrams m stride ts height 0 (unat height) seq pic"
  have "payloads ?ds = pic" using a frame_payloads [of m "unat height" stride pic] by simp
  moreover have "numbered seq ts (\<lambda>i. Suc i = length ?ds) ?ds" using a by (intro frame_numbered) auto
  moreover have "placed stride 0 ?ds" using a frame_placed [of m stride "unat height" pic 0] by simp
  moreover have "\<forall>d \<in> set ?ds. 18 < length d \<and> length d \<le> 18 + m" using a frame_sizes by blast
  ultimately show ?thesis unfolding frame_on_wire_def by blast
qed

lemma session_on_wire:
  assumes "wire_sizes m stride height pic"
  shows "\<exists>fs. session_datagrams m stride ts_step height pic n ts seq = concat fs \<and> length fs = n
    \<and> (\<forall>k < n. frame_on_wire m stride pic (seq + of_nat (length (concat (take k fs)))) (ts + of_nat k * ts_step) (fs ! k))"
proof (induction n arbitrary: ts seq)
  case (Suc n)
  let ?ds = "frame_datagrams m stride ts height 0 (unat height) seq pic"
  obtain fs where fs: "session_datagrams m stride ts_step height pic n (ts + ts_step) (seq + of_nat (length ?ds)) = concat fs"
      "length fs = n"
      "\<And>k. k < n \<Longrightarrow> frame_on_wire m stride pic (seq + of_nat (length ?ds) + of_nat (length (concat (take k fs))))
         (ts + ts_step + of_nat k * ts_step) (fs ! k)"
    using Suc.IH [of "ts + ts_step" "seq + of_nat (length ?ds)"] by blast
  have "frame_on_wire m stride pic (seq + of_nat (length (concat (take k (?ds # fs))))) (ts + of_nat k * ts_step) ((?ds # fs) ! k)"
    if "k < Suc n" for k
    using frame_datagrams_on_wire [OF assms, of seq ts] fs(3) that
    by (cases k) (simp_all add: algebra_simps)
  then show ?case
    using fs(1,2) by (intro exI [of _ "?ds # fs"]) (simp add: Let_def)
qed simp

text \<open>
  The receiver of this repository skips two bytes first (the extended sequence number of
  RFC 4175, which the tool does not write): it takes the line number for the length.
\<close>

definition tool_datagram :: "byte list \<Rightarrow> bool" where
  "tool_datagram d \<longleftrightarrow> (\<exists>seq ts marker line px c seg. d = datagram seq ts marker line px c seg \<and> 4 \<le> length seg)"

lemma line_tool_datagrams:
  "0 < m \<Longrightarrow> 5 dvd m \<Longrightarrow> 5 dvd length bs \<Longrightarrow> d \<in> set (line_datagrams m ts line last_line px seq bs) \<Longrightarrow> tool_datagram d"
proof (induction "length bs" arbitrary: px seq bs rule: less_induct)
  case less
  show ?case
  proof (cases "bs = []")
    case True
    then show ?thesis using less.prems by simp
  next
    case False
    let ?n = "min m (length bs)"
    have n: "5 dvd ?n" "?n \<noteq> 0" using False less.prems by (auto simp: min_def)
    have "4 \<le> length (take ?n bs)" using n dvd_imp_le [of 5 ?n] by simp
    then have "tool_datagram (datagram seq ts marker line px c (take ?n bs))" for marker c
      unfolding tool_datagram_def by blast
    moreover have "5 dvd length (drop ?n bs)" using n(1) less.prems(3) by (simp add: dvd_diff_nat)
    ultimately show ?thesis
      using less.prems(4) less.hyps [of "drop ?n bs"] less.prems(1,2) False
      unfolding line_datagrams_step [OF False less.prems(1) refl] by auto
  qed
qed

lemma frame_tool_datagrams:
  "0 < m \<Longrightarrow> 5 dvd m \<Longrightarrow> 5 dvd stride \<Longrightarrow> n * stride \<le> length pic \<Longrightarrow>
     d \<in> set (frame_datagrams m stride ts height line n seq pic) \<Longrightarrow> tool_datagram d"
proof (induction n arbitrary: line seq pic)
  case (Suc n)
  have "length (take stride pic) = stride" using Suc.prems(4) by simp
  then show ?case
    using Suc.prems Suc.IH [of "drop stride pic"] line_tool_datagrams [of m "take stride pic"] by (auto simp: Let_def)
qed simp

lemma session_tool_datagrams:
  "0 < m \<Longrightarrow> 5 dvd m \<Longrightarrow> 5 dvd stride \<Longrightarrow> unat height * stride \<le> length pic \<Longrightarrow>
     d \<in> set (session_datagrams m stride ts_step height pic n ts seq) \<Longrightarrow> tool_datagram d"
  by (induction n arbitrary: ts seq) (auto simp: Let_def dest: frame_tool_datagrams)

text \<open>The first line header a parse reports is the one at the position it starts from.\<close>

lemma parse_line_headers_prefix:
  "parse_line_headers pkt p pend acc = Some (segs, q) \<Longrightarrow> segs = [] \<or> (\<exists>ys. segs = acc @ ys)"
proof (induction pkt p pend acc rule: parse_line_headers.induct)
  case (1 pkt p pend acc)
  have eq: "parse_line_headers pkt p pend acc = Some (segs, q)" by (rule 1)
  show ?case
  proof (cases "p + 6 > pend \<or> length acc \<ge> MAX_SEGMENTS")
    case True
    then show ?thesis using eq by (simp add: parse_line_headers.simps [of pkt p])
  next
    case False
    then obtain seg c where c: "rd_line_header pkt p = Some (seg, c)"
        "(if \<not> c then Some (acc @ [seg], p + 6) else parse_line_headers pkt (p + 6) pend (acc @ [seg])) = Some (segs, q)"
      using eq by (auto simp: parse_line_headers.simps [of pkt p] Option.bind_eq_Some_conv)
    show ?thesis
    proof (cases c)
      case True
      then have "segs = [] \<or> (\<exists>ys. segs = (acc @ [seg]) @ ys)" using 1(1) [OF False c(1)] c(2) by auto
      then show ?thesis by auto
    qed (use c(2) in auto)
  qed
qed

lemma first_line_header:
  assumes "parse_line_headers pkt p pend [] = Some (segs, q)" and "segs \<noteq> []"
  shows "\<exists>c. rd_line_header pkt p = Some (hd segs, c)"
proof -
  obtain seg c where c: "rd_line_header pkt p = Some (seg, c)"
      "(if \<not> c then Some ([seg], p + 6) else parse_line_headers pkt (p + 6) pend [seg]) = Some (segs, q)"
    using assms by (auto simp: parse_line_headers.simps [of pkt p] Option.bind_eq_Some_conv split: if_splits)
  then have "hd segs = seg"
    using assms(2) parse_line_headers_prefix [of pkt "p + 6" pend "[seg]" segs q] by (auto split: if_splits)
  then show ?thesis using c(1) by blast
qed

lemma misread_datagram:
  assumes "tool_datagram d"
  shows "\<exists>seq ts marker s c s' c'. parse_rtp_header d = Some (Some (12, seq, ts, marker))
    \<and> rd_line_header d 12 = Some (s, c) \<and> unat (seg_length s) = length (payload d) mod 65536
    \<and> rd_line_header d (12 + 2) = Some (s', c') \<and> seg_length s' AND 0x7FFF = line_no s"
proof -
  obtain seq ts marker line px cont seg where d0: "d = datagram seq ts marker line px cont seg" and len: "4 \<le> length seg"
    using assms by (auto simp: tool_datagram_def)
  let ?h = "rtp_header_bytes (ucast seq) ts SSRC marker"
  let ?px = "put16 (if cont then px OR 0x8000 else px)"
  have d: "d = ?h @ put16 (of_nat (length seg)) @ put16 (ucast line) @ ?px @ seg"
    by (simp add: d0 datagram_def tx_line_header_eq put_line_header_def tx_segment_def)
  have "rd16 d 12 = Some (of_nat (length seg))"
    unfolding d by (rule w16.get_at) simp
  moreover have line: "rd16 d 14 = Some (ucast line)"
    using w16.get_at [of 14 "?h @ put16 (of_nat (length seg))" "ucast line" "?px @ seg"] unfolding d by simp
  ultimately show ?thesis
    using len parse_datagram [of seq ts marker line px cont seg]
    by (simp add: d0 rd_line_header_def rd16_Some Let_def unat_of_nat)
qed

end
