(* ===== verification/Tx_Main.thy ===== *)
theory Tx_Main
  imports Tx_Picture Tx_Wire
begin

text \<open>
  The sending tool as a whole: what its arguments guarantee, and its run from the sockets
  to the exit code.
\<close>

section \<open>Arguments\<close>

definition valid_tx :: "tx_config_t \<Rightarrow> bool" where
  "valid_tx cfg \<longleftrightarrow> tx_width cfg \<noteq> 0 \<and> even (tx_width cfg) \<and> tx_height cfg \<noteq> 0 \<and> tx_fps cfg \<noteq> 0
     \<and> (tx_mtu cfg = 1500 \<or> tx_mtu cfg = 9000) \<and> tx_drop_pct cfg \<le> 100"

lemma valid_tx_updates [simp]:
  "valid_tx (cfg\<lparr>tx_addr := v\<rparr>) = valid_tx cfg" "valid_tx (cfg\<lparr>tx_port := p\<rparr>) = valid_tx cfg"
  "valid_tx (cfg\<lparr>tx_iface := v\<rparr>) = valid_tx cfg" "valid_tx (cfg\<lparr>tx_count := n\<rparr>) = valid_tx cfg"
  "valid_tx (cfg\<lparr>tx_burst := b\<rparr>) = valid_tx cfg"
  "valid_tx cfg \<Longrightarrow> n \<noteq> 0 \<Longrightarrow> even n \<Longrightarrow> valid_tx (cfg\<lparr>tx_width := n\<rparr>)"
  "valid_tx cfg \<Longrightarrow> n \<noteq> 0 \<Longrightarrow> valid_tx (cfg\<lparr>tx_height := n\<rparr>)"
  "valid_tx cfg \<Longrightarrow> n \<noteq> 0 \<Longrightarrow> valid_tx (cfg\<lparr>tx_fps := n\<rparr>)"
  "valid_tx cfg \<Longrightarrow> n = 1500 \<or> n = 9000 \<Longrightarrow> valid_tx (cfg\<lparr>tx_mtu := n\<rparr>)"
  "valid_tx cfg \<Longrightarrow> n \<le> 100 \<Longrightarrow> valid_tx (cfg\<lparr>tx_drop_pct := n\<rparr>)"
  by (simp_all add: valid_tx_def)

lemma if_Some_elim:
  "(if b then x else y) = Some z \<Longrightarrow> (x = Some z \<Longrightarrow> P) \<Longrightarrow> (y = Some z \<Longrightarrow> P) \<Longrightarrow> P"
  by (cases b) auto

lemma tx_option_valid:
  assumes "tx_option bits a v cfg = Some cfg'" and "valid_tx cfg"
  shows "valid_tx cfg'"
  using assms(1) unfolding tx_option_def
  by (elim if_Some_elim; insert assms(2)) (auto simp: not_less split: if_splits bind_splits)

lemma tx_args_valid: "tx_args bits args cfg = Inr cfg' \<Longrightarrow> valid_tx cfg \<Longrightarrow> valid_tx cfg'"
proof (induction bits args cfg rule: tx_args.induct)
  case (3 bits a v rest cfg)
  then show ?case
    by (auto split: if_splits option.splits dest: tx_option_valid)
qed (auto split: if_splits)

lemma parse_args_valid: "parse_args bits args = Inr cfg \<Longrightarrow> valid_tx cfg"
  using tx_args_valid [of bits args tx_defaults cfg] by (simp add: parse_args_def valid_tx_def tx_defaults_def)

section \<open>The run\<close>

lemma tx_setup_frame:
  "tx_setup env cfg (j_sock job) w = (ok, w') \<Longrightarrow> only_packet job w w' \<and> sent w' = sent w"
  by (auto simp: tx_setup_def Let_def sent_in_def require_def intro!: only_packet_emit split: if_splits)

lemma free_both:
  assumes "contents w (Some p) \<noteq> None" and "contents w (Some f) \<noteq> None" and "f \<noteq> p"
  obtains w1 w2 where "free_blk (Some p) w = Some w1" and "free_blk (Some f) w1 = Some w2" and "trace w2 = trace w"
    and "\<And>q. contents w2 q = (if q = Some f \<or> q = Some p then None else contents w q)"
  using assms by (auto simp: free_blk_def contents_def split: option.splits)

text \<open>The job \<open>main\<close> runs, and the datagrams of its frames.\<close>

definition tx_job_of :: "os_env \<Rightarrow> platform \<Rightarrow> tx_config_t \<Rightarrow> rx_socket_t \<Rightarrow> ptr \<Rightarrow> ptr \<Rightarrow> u32 \<Rightarrow> nat \<Rightarrow> tx_job" where
  "tx_job_of env pf cfg sock frame packet stride max_segment =
     \<lparr>j_pf = pf, j_cfg = cfg, j_sock = sock, j_dst = (e_inet_addr env (tx_addr cfg), tx_port cfg), j_frame = frame,
      j_packet = packet, j_stride = unat stride, j_max_segment = max_segment\<rparr>"

definition tx_datagrams :: "tx_config_t \<Rightarrow> byte list \<Rightarrow> u32 \<Rightarrow> nat \<Rightarrow> nat \<Rightarrow> byte list list" where
  "tx_datagrams cfg pic stride max_segment fuel =
     session_datagrams max_segment (unat stride) (tx_step cfg) (tx_height cfg) pic (frames_to_send cfg 0 fuel) 0 1"

definition tx_sent :: "os_env \<Rightarrow> tx_config_t \<Rightarrow> bool \<Rightarrow> byte list list \<Rightarrow> 'z world_scheme \<Rightarrow> 'z world_scheme \<Rightarrow> bool" where
  "tx_sent env cfg every ds w w' \<longleftrightarrow>
     (\<exists>ds'. sent w' = sent w @ map (Pair (e_inet_addr env (tx_addr cfg), tx_port cfg)) ds'
        \<and> subseq ds' ds \<and> (every \<longrightarrow> ds' = ds))"

lemma tx_sent_none: "sent w' = sent w \<Longrightarrow> tx_sent env cfg False ds w w'"
  unfolding tx_sent_def by (intro exI [of _ "[]"]) simp

lemma tx_sent_trace:
  "trace v' = trace w' \<Longrightarrow> trace v = trace w \<Longrightarrow> tx_sent env cfg every ds v v' = tx_sent env cfg every ds w w'"
  by (simp add: tx_sent_def sent_def)

text \<open>
  How a run from \<open>w\<close> ends: still running (\<open>None\<close>) only without a count or before it is
  reached; otherwise with everything but the two buffers as before, and these freed.
\<close>

definition tx_run_result ::
    "os_env \<Rightarrow> tx_config_t \<Rightarrow> nat \<Rightarrow> resource multiset \<Rightarrow> byte list list \<Rightarrow> (ptr \<Rightarrow> byte list option)
       \<Rightarrow> 'z world_scheme \<Rightarrow> nat option \<Rightarrow> 'z world_scheme \<Rightarrow> bool" where
  "tx_run_result env cfg fuel R ds after w r w' \<longleftrightarrow>
     (r = None \<longrightarrow> tx_count cfg = 0 \<or> fuel < unat (tx_count cfg))
     \<and> (r \<noteq> None \<longrightarrow> r \<in> {Some 0, Some 1} \<and> holding w' R \<and> (\<forall>p. contents w' p = after p))
     \<and> tx_sent env cfg (r \<noteq> Some 1 \<and> tx_drop_pct cfg = 0) ds w w'"

text \<open>Releasing the socket library ends a run that has given back the rest.\<close>

lemma cleanup_simps [simp]:
  "contents (rx_socket_cleanup pf w) q = contents w q" "sent (rx_socket_cleanup pf w) = sent w"
  by (simp_all add: rx_socket_cleanup_def sent_in_def split: platform.split)

lemma cleaned_up:
  assumes "holding v (startup_held pf + R)" and "\<And>q. contents v q = after q" and "code \<in> {0, 1}"
    and "tx_sent env cfg (code = 0 \<and> tx_drop_pct cfg = 0) ds w v"
  shows "tx_run_result env cfg fuel R ds after w (Some code) (rx_socket_cleanup pf v)"
proof -
  have "(Some code \<noteq> Some 1) = (code = 0)" using assms(3) by auto
  then show ?thesis
    using assms rx_socket_cleanup_holding [OF assms(1)] by (simp add: tx_run_result_def tx_sent_def)
qed

text \<open>From the open socket to the end of the sending, with whatever the set-up answers.\<close>

lemma tx_transmits:
  fixes w :: "'z world_scheme" and env :: os_env and pf :: platform and sock :: rx_socket_t
  assumes pic: "contents w (Some f) = Some pic" and pkt: "contents w (Some p) = Some pkt"
    and sizes: "f \<noteq> p" "unat (tx_height cfg) * unat stride \<le> length pic" "0 < m" "18 + m \<le> length pkt"
  defines "job \<equiv> tx_job_of env pf cfg sock (Some f) (Some p) stride m"
  obtains ok w2 r v where "tx_setup env cfg sock w = (ok, w2)"
    and "(if ok then tx_frames env job 0 0 1 fuel w2 else Some (Some False, w2)) = Some (r, v)"
    and "only_packet job w v"
    and "tx_sent env cfg (r \<noteq> Some False \<and> tx_drop_pct cfg = 0) (tx_datagrams cfg pic stride m fuel) w v"
    and "r = None \<longrightarrow> tx_count cfg = 0 \<or> fuel < unat (tx_count cfg)"
proof -
  let ?ds = "tx_datagrams cfg pic stride m fuel" and ?full = "tx_drop_pct cfg = 0"
  obtain ok w2 where su: "tx_setup env cfg sock w = (ok, w2)" by fastforce
  have s2: "only_packet job w w2" "sent w2 = sent w"
    using tx_setup_frame [of env cfg job w ok w2] su by (simp_all add: job_def tx_job_of_def sent_in_def)
  have "\<exists>r v. (if ok then tx_frames env job 0 0 1 fuel w2 else Some (Some False, w2)) = Some (r, v)
      \<and> sends job (r \<noteq> Some False \<and> ?full) ?ds w2 v
      \<and> (r = None \<longrightarrow> tx_count cfg = 0 \<or> fuel < unat (tx_count cfg))"
  proof (cases ok)
    case True
    have "job_ready job pic w2"
      using s2(1) pic pkt sizes by (auto simp: job_ready_def only_packet_def job_def tx_job_of_def)
    then show ?thesis
      using tx_frames_sends [of job pic w2 env 0 0 1 fuel] True sizes(2)
      by (simp add: job_def tx_job_of_def tx_datagrams_def)
  qed (simp add: sends_none)
  then obtain r v where fr: "(if ok then tx_frames env job 0 0 1 fuel w2 else Some (Some False, w2)) = Some (r, v)"
      "sends job (r \<noteq> Some False \<and> ?full) ?ds w2 v" "r = None \<longrightarrow> tx_count cfg = 0 \<or> fuel < unat (tx_count cfg)" by blast
  have "only_packet job w v" using s2(1) fr(2) only_packet_trans unfolding sends_def by blast
  moreover have "tx_sent env cfg (r \<noteq> Some False \<and> ?full) ?ds w v"
    using fr(2) s2(2) by (simp add: sends_def tx_sent_def job_def tx_job_of_def)
  ultimately show ?thesis using that su fr(1,3) by blast
qed

lemma tx_sent_socket: "tx_sent env cfg b ds (emit (Sys_socket s) w) v \<longleftrightarrow> tx_sent env cfg b ds w v"
  by (simp add: tx_sent_def sent_def sent_in_def)

lemma tx_run_spec:
  fixes w :: "'z world_scheme"
  assumes R: "holding w (startup_held pf + R)" and pic: "contents w (Some f) = Some pic" and pkt: "contents w (Some p) = Some pkt"
    and sizes: "f \<noteq> p" "unat (tx_height cfg) * unat stride \<le> length pic" "0 < m" "18 + m \<le> length pkt"
  shows "\<exists>r w'. tx_run env pf cfg (Some f) (Some p) stride m fuel w = Some (r, w')
    \<and> tx_run_result env cfg fuel R (tx_datagrams cfg pic stride m fuel)
        (\<lambda>q. if q = Some f \<or> q = Some p then None else contents w q) w r w'"
proof -
  let ?sock = "e_socket env (now w)" and ?ds = "tx_datagrams cfg pic stride m fuel"
  let ?w = "emit (Sys_socket ?sock) w" and ?R = "startup_held pf + R"
  let ?job = "tx_job_of env pf cfg ?sock (Some f) (Some p) stride m"
  let ?after = "\<lambda>q. if q = Some f \<or> q = Some p then None else contents w q"
  have freed: "\<exists>v1 v2. free_blk (Some p) v = Some v1 \<and> free_blk (Some f) v1 = Some v2 \<and> trace v2 = trace v
      \<and> (\<forall>q. contents v2 q = ?after q)"
    if "\<forall>q. q \<noteq> Some p \<longrightarrow> contents v q = contents w q" "contents v (Some p) \<noteq> None" for v :: "'z world_scheme"
    using free_both [of v p f] that pic sizes(1) by (metis option.distinct(1) option.inject)
  show ?thesis
  proof (cases "?sock = RX_INVALID_SOCKET")
    case True
    have "holding ?w ?R" by (rule holding_emit [OF R]) (simp add: True)
    moreover obtain v1 v2 where v: "free_blk (Some p) ?w = Some v1" "free_blk (Some f) v1 = Some v2"
        "trace v2 = trace ?w" "\<forall>q. contents v2 q = ?after q"
      using freed [of ?w] pkt by auto
    moreover have "tx_sent env cfg False ?ds w v2"
      using v(3) by (intro tx_sent_none) (simp add: sent_def sent_in_def)
    ultimately have "tx_run_result env cfg fuel R ?ds ?after w (Some 1) (rx_socket_cleanup pf v2)"
      by (intro cleaned_up) (simp_all add: holding_def)
    with v show ?thesis using True by (simp add: tx_run_def Let_def)
  next
    case sock: False
    have R1: "holding ?w (add_mset (R_socket ?sock) ?R)" by (rule holding_emit [OF R]) (simp add: sock)
    have blks: "contents ?w (Some f) = Some pic" "contents ?w (Some p) = Some pkt" using pic pkt by simp_all
    obtain ok w2 r v where su: "tx_setup env cfg ?sock ?w = (ok, w2)"
      and fr: "(if ok then tx_frames env ?job 0 0 1 fuel w2 else Some (Some False, w2)) = Some (r, v)"
      and only: "only_packet ?job ?w v" and sent: "tx_sent env cfg (r \<noteq> Some False \<and> tx_drop_pct cfg = 0) ?ds w v"
      and count: "r = None \<longrightarrow> tx_count cfg = 0 \<or> fuel < unat (tx_count cfg)"
      using tx_transmits [OF blks sizes, where env = env and pf = pf and sock = ?sock and fuel = fuel] unfolding tx_sent_socket by metis
    have run: "tx_run env pf cfg (Some f) (Some p) stride m fuel w =
        (case r of None \<Rightarrow> Some (None, v)
         | Some b \<Rightarrow> do { v \<leftarrow> free_blk (Some p) v; v \<leftarrow> free_blk (Some f) v;
                            Some (Some (if b then 0 else 1), rx_socket_cleanup pf (rx_socket_close ?sock v)) })"
      by (simp only: tx_run_def Let_def sock if_False su prod.case tx_job_of_def [symmetric] fr Option.bind.simps)
    show ?thesis
    proof (cases r)
      case None
      then show ?thesis using run count sent by (simp add: tx_run_result_def)
    next
      case (Some b)
      obtain v1 v2 where v: "free_blk (Some p) v = Some v1" "free_blk (Some f) v1 = Some v2"
          "trace v2 = trace v" "\<forall>q. contents v2 q = ?after q"
        using freed [of v] only pkt by (auto simp: only_packet_def tx_job_of_def)
      have "holding v (add_mset (R_socket ?sock) ?R)" using only R1 by (simp add: only_packet_def tx_job_of_def)
      then have "holding (rx_socket_close ?sock v2) ?R"
        using v(3) unfolding rx_socket_close_def
        by (intro holding_emit [of v2 "add_mset (R_socket ?sock) ?R"]) (simp_all add: holding_def)
      moreover have "tx_sent env cfg (b \<and> tx_drop_pct cfg = 0) ?ds w (rx_socket_close ?sock v2)"
        using sent Some v(3) by (simp add: tx_sent_def rx_socket_close_def sent_def sent_in_def)
      ultimately have "tx_run_result env cfg fuel R ?ds ?after w (Some (if b then 0 else 1))
          (rx_socket_cleanup pf (rx_socket_close ?sock v2))"
        using v(4) by (intro cleaned_up; cases b) (simp_all add: rx_socket_close_def)
      then show ?thesis using run Some v by simp
    qed
  qed
qed

lemma tx_launch_spec:
  fixes w :: "'z world_scheme"
  assumes R: "holding w R" and pic: "contents w (Some f) = Some pic" and pkt: "contents w (Some p) = Some pkt"
    and sizes: "f \<noteq> p" "unat (tx_height cfg) * unat stride \<le> length pic" "0 < m" "18 + m \<le> length pkt"
  shows "\<exists>r w'. tx_launch env pf cfg (Some f) (Some p) stride m fuel w = Some (r, w')
    \<and> tx_run_result env cfg fuel R (tx_datagrams cfg pic stride m fuel)
        (\<lambda>q. if q = Some f \<or> q = Some p then None else contents w q) w r w'"
proof -
  let ?ds = "tx_datagrams cfg pic stride m fuel" and ?after = "\<lambda>q. if q = Some f \<or> q = Some p then None else contents w q"
  obtain rc w1 where init: "rx_socket_init env pf w = (rc, w1)" by fastforce
  note w1 = rx_socket_init_holding [OF R init]
  have same: "contents w1 = contents w" "sent w1 = sent w"
    using init by (auto simp: rx_socket_init_def Let_def sent_in_def split: platform.splits)
  show ?thesis
  proof (cases "rc = 0")
    case True
    obtain r w' where r: "tx_run env pf cfg (Some f) (Some p) stride m fuel w1 = Some (r, w')"
        "tx_run_result env cfg fuel R ?ds ?after w1 r w'"
      using tx_run_spec [of w1 pf R f pic p pkt cfg stride m env fuel, unfolded same] w1(1) pic pkt sizes True by auto
    then have "tx_run_result env cfg fuel R ?ds ?after w r w'"
      by (simp add: tx_run_result_def tx_sent_def same(2))
    then show ?thesis using r(1) init True by (simp add: tx_launch_def)
  next
    case False
    obtain v1 v2 where v: "free_blk (Some p) w1 = Some v1" "free_blk (Some f) v1 = Some v2" "trace v2 = trace w1"
        "\<And>q. contents v2 q = (if q = Some f \<or> q = Some p then None else contents w1 q)"
      by (rule free_both [of w1 p f]) (simp_all add: same pic pkt sizes(1))
    have "sent v2 = sent w" using v(3) same(2) by (simp add: sent_def)
    then have "tx_run_result env cfg fuel R ?ds ?after w (Some 1) v2"
      using w1(1) False v(3,4) same(1) by (simp add: tx_run_result_def holding_def tx_sent_none)
    then show ?thesis using v(1,2) init False by (simp add: tx_launch_def)
  qed
qed

section \<open>The program\<close>

definition tx_segment_size :: "tx_config_t \<Rightarrow> nat" where
  "tx_segment_size cfg = (unat (tx_mtu cfg) - 28 - 12 - 6) div 5 * 5"

definition tx_stride :: "tx_config_t \<Rightarrow> u32" where
  "tx_stride cfg = (tx_width cfg div 2) * 5"

definition tx_picture :: "tx_config_t \<Rightarrow> byte list" where
  "tx_picture cfg = bars_picture (tx_width cfg) (tx_height cfg)"

lemma tx_segment_size_cases:
  "valid_tx cfg \<Longrightarrow> (tx_mtu cfg = 1500 \<and> tx_segment_size cfg = 1450) \<or> (tx_mtu cfg = 9000 \<and> tx_segment_size cfg = 8950)"
  by (auto simp: valid_tx_def tx_segment_size_def)

lemma result_unchanged:
  assumes "holding w R" and "trace w' = trace w" and "\<And>p. contents w' p = contents w p"
  shows "tx_run_result env cfg fuel R ds (contents w) w (Some 1) w'"
  using assms by (simp add: tx_run_result_def holding_def tx_sent_none sent_def)

text \<open>The world when the bars are drawn, with the frame at the first free address.\<close>

definition drawn :: "tx_config_t \<Rightarrow> 'z world_scheme \<Rightarrow> 'z world_scheme" where
  "drawn cfg w = w\<lparr>next_blk := Suc (next_blk w), blocks := (blocks w)(next_blk w \<mapsto> tx_picture cfg)\<rparr>"

lemma drawn_simps [simp]:
  "next_blk (drawn cfg w) = Suc (next_blk w)" "trace (drawn cfg w) = trace w" "oom (drawn cfg w) = oom w"
  "junk (drawn cfg w) = junk w" "contents (drawn cfg w) p = (if p = Some (next_blk w) then Some (tx_picture cfg) else contents w p)"
  by (simp_all add: drawn_def contents_def split: option.split)

lemma draw:
  assumes "\<not> oom w (next_blk w)" and "\<not> wraps (tx_width cfg)"
  shows "\<exists>v. malloc (unat (tx_stride cfg) * unat (tx_height cfg)) w = (Some (next_blk w), v)
    \<and> generate_colorbars_be10 (Some (next_blk w)) (tx_width cfg) (tx_height cfg) (tx_stride cfg) v = Some (drawn cfg w)"
proof -
  let ?n = "unat (tx_stride cfg) * unat (tx_height cfg)" and ?a = "next_blk w"
  let ?v = "w\<lparr>next_blk := Suc ?a, blocks := (blocks w)(?a \<mapsto> map (junk w ?a) [0..<?n])\<rparr>"
  have "generate_colorbars_be10 (Some ?a) (tx_width cfg) (tx_height cfg) (tx_stride cfg) ?v =
      Some (?v\<lparr>blocks := (blocks ?v)(?a \<mapsto> tx_picture cfg)\<rparr>)"
    unfolding tx_stride_def tx_picture_def using assms(2) by (intro colorbars_drawn) (auto simp: tx_stride_def)
  then show ?thesis using assms(1) by (simp add: alloc_outcomes drawn_def)
qed

lemma length_tx_picture:
  "\<not> wraps (tx_width cfg) \<Longrightarrow> length (tx_picture cfg) = unat (tx_height cfg) * unat (tx_stride cfg)"
  by (simp add: tx_picture_def tx_stride_def length_bars_picture wraps_def)

lemma free_frame: "contents w (Some a) \<noteq> None \<Longrightarrow>
    \<exists>w'. free_blk (Some a) w = Some w' \<and> trace w' = trace w \<and> (\<forall>q. contents w' q = (if q = Some a then None else contents w q))"
  by (auto simp: free_blk_def contents_def split: option.splits)

text \<open>The second buffer: without it the first is freed, with it the sending begins.\<close>

lemma tx_main_no_packet:
  assumes wf: "heap_wf w" and R: "holding w R" and no: "oom w (Suc (next_blk w))"
  shows "\<exists>v w'. malloc n (drawn cfg w) = (None, v) \<and> free_blk (Some (next_blk w)) v = Some w'
    \<and> tx_run_result env cfg fuel R ds (contents w) w (Some 1) w'"
proof -
  let ?f = "next_blk w" and ?v = "(drawn cfg w)\<lparr>next_blk := Suc (Suc (next_blk w))\<rparr>"
  have p: "malloc n (drawn cfg w) = (None, ?v)" using no alloc_outcomes(2) [of "drawn cfg w"] by simp
  have "contents ?v q = contents (drawn cfg w) q" for q by (simp add: contents_def split: option.split)
  then obtain w' where w': "free_blk (Some ?f) ?v = Some w'" "trace w' = trace w"
      "\<forall>q. contents w' q = (if q = Some ?f then None else contents w q)"
    using free_frame [of ?v ?f] by auto
  moreover have "contents w (Some ?f) = None" using fresh_blocks [OF wf, of ?f] by (simp add: contents_def)
  ultimately have "tx_run_result env cfg fuel R ds (contents w) w (Some 1) w'"
    by (intro result_unchanged [OF R]) auto
  with p w'(1) show ?thesis by blast
qed

lemma tx_main_packet:
  fixes w :: "'z world_scheme"
  assumes wf: "heap_wf w" and R: "holding w R" and fits: "\<not> wraps (tx_width cfg)" and yes: "\<not> oom w (Suc (next_blk w))"
    and m: "0 < m" "18 + m \<le> n"
  shows "\<exists>v r w'. malloc n (drawn cfg w) = (Some (Suc (next_blk w)), v)
    \<and> tx_launch env pf cfg (Some (next_blk w)) (Some (Suc (next_blk w))) (tx_stride cfg) m fuel v = Some (r, w')
    \<and> tx_run_result env cfg fuel R (tx_datagrams cfg (tx_picture cfg) (tx_stride cfg) m fuel) (contents w) w r w'"
proof -
  let ?f = "next_blk w" and ?pkt = "map (junk w (Suc (next_blk w))) [0..<n]"
  let ?v = "(drawn cfg w)\<lparr>next_blk := Suc (Suc ?f), blocks := (blocks (drawn cfg w))(Suc ?f \<mapsto> ?pkt)\<rparr>"
  have p: "malloc n (drawn cfg w) = (Some (Suc ?f), ?v)" using yes alloc_outcomes(4) [of "drawn cfg w"] by simp
  have c: "contents ?v q = (if q = Some (Suc ?f) then Some ?pkt else contents (drawn cfg w) q)" for q
    by (auto simp: contents_def split: option.split)
  have "holding ?v R" using R by (simp add: holding_def)
  moreover have "contents ?v (Some ?f) = Some (tx_picture cfg)" "contents ?v (Some (Suc ?f)) = Some ?pkt"
    by (simp_all add: c)
  ultimately obtain r w' where r: "tx_launch env pf cfg (Some ?f) (Some (Suc ?f)) (tx_stride cfg) m fuel ?v = Some (r, w')"
      "tx_run_result env cfg fuel R (tx_datagrams cfg (tx_picture cfg) (tx_stride cfg) m fuel)
        (\<lambda>q. if q = Some ?f \<or> q = Some (Suc ?f) then None else contents ?v q) ?v r w'"
    using tx_launch_spec [of ?v R ?f "tx_picture cfg" "Suc ?f" ?pkt cfg "tx_stride cfg" m env pf fuel] m length_tx_picture [OF fits]
    by auto
  have "contents w (Some ?f) = None" "contents w (Some (Suc ?f)) = None"
    using fresh_blocks [OF wf, of ?f] fresh_blocks [OF wf, of "Suc ?f"] by (simp_all add: contents_def)
  then have "(\<lambda>q. if q = Some ?f \<or> q = Some (Suc ?f) then None else contents ?v q) = contents w"
    by (auto simp: c)
  then have "tx_run_result env cfg fuel R (tx_datagrams cfg (tx_picture cfg) (tx_stride cfg) m fuel) (contents w) w r w'"
    using r(2) tx_sent_trace [of w' w' ?v w] by (simp add: tx_run_result_def)
  with p r(1) show ?thesis by blast
qed

lemma tx_main_spec:
  fixes w :: "'z world_scheme"
  assumes wf: "heap_wf w" and R: "holding w R" and args: "parse_args bits args = Inr cfg" and fits: "\<not> wraps (tx_width cfg)"
  shows "\<exists>r w'. tx_main env pf bits args fuel w = Some (r, w')
    \<and> tx_run_result env cfg fuel R (tx_datagrams cfg (tx_picture cfg) (tx_stride cfg) (tx_segment_size cfg) fuel)
        (contents w) w r w'"
proof (cases "oom w (next_blk w)")
  case True
  then have "tx_main env pf bits args fuel w = Some (Some 1, w\<lparr>next_blk := Suc (next_blk w)\<rparr>)"
    by (simp add: tx_main_def args Let_def alloc_outcomes)
  then show ?thesis
    using result_unchanged [OF R, of "w\<lparr>next_blk := Suc (next_blk w)\<rparr>"] by (auto simp: contents_def split: option.split)
next
  case False
  let ?f = "next_blk w" and ?m = "tx_segment_size cfg" and ?n = "unat (tx_mtu cfg) - 28"
  obtain v where v: "malloc (unat (tx_stride cfg) * unat (tx_height cfg)) w = (Some ?f, v)"
      "generate_colorbars_be10 (Some ?f) (tx_width cfg) (tx_height cfg) (tx_stride cfg) v = Some (drawn cfg w)"
    using draw [OF False fits] by blast
  have m: "\<not> tx_mtu cfg \<le> 28" "0 < ?m" "18 + ?m \<le> ?n"
    using tx_segment_size_cases [OF parse_args_valid [OF args]] by auto
  have main: "tx_main env pf bits args fuel w =
      (let (packet, w) = malloc ?n (drawn cfg w)
       in if packet = None then do { w \<leftarrow> free_blk (Some ?f) w; Some (Some 1, w) }
          else tx_launch env pf cfg (Some ?f) packet (tx_stride cfg) ?m fuel w)"
    using v m(1,2) unfolding tx_main_def args sum.case Let_def tx_stride_def [symmetric] tx_segment_size_def [symmetric]
    by (simp split: prod.split)
  show ?thesis
  proof (cases "oom w (Suc ?f)")
    case True
    from tx_main_no_packet [OF wf R this, of ?n cfg env fuel] show ?thesis unfolding main by fastforce
  next
    case False
    from tx_main_packet [OF wf R fits this m(2,3), of env pf fuel] show ?thesis unfolding main by fastforce
  qed
qed

text \<open>With a width whose stride wraps around, the bars are drawn past the end of the buffer.\<close>

lemma tx_main_overflows:
  assumes "parse_args bits args = Inr cfg" and "wraps (tx_width cfg)" and "\<not> oom w (next_blk w)"
  shows "tx_main env pf bits args fuel w = None"
proof -
  let ?n = "unat (tx_stride cfg) * unat (tx_height cfg)" and ?a = "next_blk w"
  let ?v = "w\<lparr>next_blk := Suc ?a, blocks := (blocks w)(?a \<mapsto> map (junk w ?a) [0..<?n])\<rparr>"
  have "tx_height cfg \<noteq> 0" using parse_args_valid [OF assms(1)] by (simp add: valid_tx_def)
  then have "generate_colorbars_be10 (Some ?a) (tx_width cfg) (tx_height cfg) (tx_stride cfg) ?v = None"
    unfolding tx_stride_def using assms(2)
    by (intro colorbars_overflow [where buf = "map (junk w ?a) [0..<?n]"]) (simp_all add: contents_def tx_stride_def)
  then show ?thesis
    using assms(3) unfolding tx_main_def assms(1) sum.case Let_def tx_stride_def [symmetric]
    by (simp add: alloc_outcomes)
qed

section \<open>When nothing fails\<close>

text \<open>A system that gives the tool all it asks for.\<close>

definition tx_obliging :: "os_env \<Rightarrow> tx_config_t \<Rightarrow> 'z world_scheme \<Rightarrow> bool" where
  "tx_obliging env cfg w \<longleftrightarrow> (\<forall>n. \<not> oom w n) \<and> (\<forall>n. e_startup env n) \<and> (\<forall>n. e_send env n) \<and> (\<forall>n. e_multicast_if env n)
     \<and> (\<forall>n. e_socket env n \<noteq> RX_INVALID_SOCKET) \<and> e_inet_addr env (tx_addr cfg) \<noteq> INADDR_NONE
     \<and> e_inet_addr env (tx_iface cfg) \<noteq> INADDR_NONE"

lemma tx_send_ok: "\<forall>n. e_send env n \<Longrightarrow> tx_send env job n w \<noteq> Some (False, w')"
  by (auto simp: tx_send_def Let_def split: if_splits bind_splits)

lemma tx_line_ok:
  assumes "\<forall>n. e_send env n"
  shows "tx_line env job ts line remaining px seq w \<noteq> Some (False, seq', w')"
proof (induction remaining arbitrary: px seq w rule: less_induct)
  case (less remaining)
  define n where "n = (if remaining > j_max_segment job then j_max_segment job else remaining)"
  show ?case
  proof (cases "remaining = 0 \<or> j_max_segment job = 0")
    case True
    then show ?thesis by (subst tx_line.simps) auto
  next
    case False
    then have cases: "remaining \<noteq> 0" "j_max_segment job \<noteq> 0" and "remaining - n < remaining" by (auto simp: n_def)
    note IH = less.IH [OF this(3)]
    show ?thesis
      unfolding tx_line.simps [of env job ts line remaining] if_not_P [OF cases(1)] if_not_P [OF cases(2)] Let_def
        n_def [symmetric]
      using IH by (auto simp: Option.bind_eq_Some_conv tx_send_ok [OF assms] simp del: of_nat_mult)
  qed
qed

lemma tx_lines_ok: "\<forall>n. e_send env n \<Longrightarrow> tx_lines env job ts line n seq w \<noteq> Some (False, seq', w')"
  by (induction n arbitrary: line seq w) (auto simp: Option.bind_eq_Some_conv tx_line_ok)

lemma tx_frames_ok:
  assumes "\<forall>n. e_send env n"
  shows "tx_frames env job frame_index ts seq fuel w \<noteq> Some (Some False, w')"
proof (induction fuel arbitrary: frame_index ts seq w)
  case 0
  then show ?case by (subst tx_frames.simps) simp
next
  case (Suc fuel)
  then show ?case
    by (subst tx_frames.simps) (auto simp: Option.bind_eq_Some_conv tx_lines_ok [OF assms] split: prod.splits)
qed

lemma tx_run_ok:
  fixes w :: "'z world_scheme" and w0 :: "'y world_scheme"
  assumes "tx_obliging env cfg w0" and "tx_run env pf cfg frame packet stride m fuel w = Some (Some code, w')"
  shows "code = 0"
proof -
  have e: "\<forall>n. e_send env n" "e_socket env (now w) \<noteq> RX_INVALID_SOCKET"
    using assms(1) by (simp_all add: tx_obliging_def)
  have "fst (tx_setup env cfg s v)" for s and v :: "'z world_scheme"
    using assms(1) by (simp add: tx_setup_def tx_obliging_def Let_def)
  then have su: "\<exists>v'. tx_setup env cfg s v = (True, v')" for s and v :: "'z world_scheme"
    by (metis prod.collapse)
  obtain v' where ready: "tx_setup env cfg (e_socket env (now w)) (emit (Sys_socket (e_socket env (now w))) w) = (True, v')"
    using su by blast
  have run: "tx_run env pf cfg frame packet stride m fuel w =
      do { (r, v) \<leftarrow> tx_frames env (tx_job_of env pf cfg (e_socket env (now w)) frame packet stride m) 0 0 1 fuel v';
           case r of None \<Rightarrow> Some (None, v)
           | Some b \<Rightarrow> do { v \<leftarrow> free_blk packet v; v \<leftarrow> free_blk frame v;
                            Some (Some (if b then 0 else 1), rx_socket_cleanup pf (rx_socket_close (e_socket env (now w)) v)) } }"
    by (simp only: tx_run_def Let_def e(2) ready if_False prod.case tx_job_of_def [symmetric] if_True)
  obtain r v where r: "tx_frames env (tx_job_of env pf cfg (e_socket env (now w)) frame packet stride m) 0 0 1 fuel v' = Some (r, v)"
    using assms(2) unfolding run by (auto simp: Option.bind_eq_Some_conv)
  then have "r \<noteq> Some False" using tx_frames_ok [OF e(1)] by blast
  then show ?thesis
    using assms(2) unfolding run r by (auto simp: Option.bind_eq_Some_conv split: option.splits)
qed

lemma tx_main_ok:
  assumes args: "parse_args bits args = Inr cfg" and ok: "tx_obliging env cfg w" and fits: "\<not> wraps (tx_width cfg)"
    and main: "tx_main env pf bits args fuel w = Some (Some code, w')"
  shows "code = 0"
proof -
  have oom: "\<not> oom w n" for n using ok by (simp add: tx_obliging_def)
  obtain v where v: "malloc (unat (tx_stride cfg) * unat (tx_height cfg)) w = (Some (next_blk w), v)"
      "generate_colorbars_be10 (Some (next_blk w)) (tx_width cfg) (tx_height cfg) (tx_stride cfg) v = Some (drawn cfg w)"
    using draw [OF oom fits] by blast
  have m: "\<not> tx_mtu cfg \<le> 28" "0 < tx_segment_size cfg"
    using tx_segment_size_cases [OF parse_args_valid [OF args]] by auto
  obtain p u where p: "malloc (unat (tx_mtu cfg) - 28) (drawn cfg w) = (Some p, u)"
    using oom by (simp add: malloc_def alloc_def Let_def)
  obtain v where init: "rx_socket_init env pf u = (0, v)"
    using ok by (cases pf) (simp_all add: rx_socket_init_def tx_obliging_def)
  have "tx_launch env pf cfg (Some (next_blk w)) (Some p) (tx_stride cfg) (tx_segment_size cfg) fuel u = Some (Some code, w')"
    using main v m p unfolding tx_main_def args sum.case Let_def tx_stride_def [symmetric] tx_segment_size_def [symmetric]
    by simp
  then have "tx_run env pf cfg (Some (next_blk w)) (Some p) (tx_stride cfg) (tx_segment_size cfg) fuel v = Some (Some code, w')"
    by (simp add: tx_launch_def init)
  then show ?thesis by (rule tx_run_ok [OF ok])
qed

text \<open>The sizes of a session whose line and pixel numbers fit their 15 bits.\<close>

lemma tx_wire_sizes:
  assumes "valid_tx cfg" and "tx_width cfg \<le> 32768" and "tx_height cfg \<le> 32768"
  shows "\<not> wraps (tx_width cfg)"
    and "wire_sizes (tx_segment_size cfg) (unat (tx_stride cfg)) (tx_height cfg) (tx_picture cfg)"
proof -
  have w: "unat (tx_width cfg) \<le> 32768" "unat (tx_height cfg) \<le> 32768"
    using assms(2,3) by (simp_all add: word_le_nat_alt)
  then have half: "unat (tx_width cfg div 2) \<le> 16384" by (simp add: unat_div)
  then show fits: "\<not> wraps (tx_width cfg)" by (simp add: wraps_iff)
  then have stride: "unat (tx_stride cfg) = 5 * unat (tx_width cfg div 2)" by (simp add: tx_stride_def wraps_def)
  have "2 \<le> unat (tx_width cfg)"
  proof -
    have "tx_width cfg \<noteq> 0" "tx_width cfg \<noteq> 1" using assms(1) by (auto simp: valid_tx_def)
    then have "unat (tx_width cfg) \<noteq> 0" "unat (tx_width cfg) \<noteq> 1" by (auto simp: word_unat_eq_iff)
    then show ?thesis by simp
  qed
  then have "0 < unat (tx_width cfg div 2)" by (simp add: unat_div)
  then show "wire_sizes (tx_segment_size cfg) (unat (tx_stride cfg)) (tx_height cfg) (tx_picture cfg)"
    using tx_segment_size_cases [OF assms(1)] half w length_tx_picture [OF fits]
    by (auto simp: wire_sizes_def stride)
qed

end
