(* ===== verification/Tx_Props.thy ===== *)
theory Tx_Props
  imports Tx_Main Assembler_Props
begin

text \<open>
  What the sending test tool guarantees, and two of its faults: its packing and its
  packets, its run from the arguments to the exit code, the width whose stride wraps
  around, and the header the receiver of this repository misreads.
\<close>

definition demo_sender :: os_env where
  "demo_sender = \<lparr>e_startup = (\<lambda>_. True), e_socket = (\<lambda>_. 5), e_rcvbuf = (\<lambda>_. None), e_bind = (\<lambda>_. True),
     e_join_group = (\<lambda>_. True), e_iocp = (\<lambda>_. None), e_thread = (\<lambda>_. Some 9), e_errno = (\<lambda>_. 0),
     e_multicast_if = (\<lambda>_. True), e_send = (\<lambda>_. True), e_rand = (\<lambda>_. 0), e_monotonic = (\<lambda>_. (0, 0)),
     e_tick_count = (\<lambda>_. 0),
     e_inet_addr = (\<lambda>_. 1), e_sizeof_rx = 8, e_sizeof_iocp_buffer = 8\<rparr>"

definition demo_world :: world where
  "demo_world = \<lparr>blocks = (\<lambda>_. None), next_blk = 0, oom = (\<lambda>_. False), junk = (\<lambda>_ _. 0), trace = []\<rparr>"

definition demo_args :: "string list" where
  "demo_args = [''--width'', ''2'', ''--height'', ''1'', ''--count'', ''1'']"

definition demo_cfg :: tx_config_t where
  "demo_cfg = tx_defaults\<lparr>tx_width := 2, tx_height := 1, tx_count := 1\<rparr>"

lemma parse_one_digit:
  "is_digit c \<Longrightarrow> parse_u32 64 [c] = Some (of_nat (digit_value c))"
proof -
  assume c: "is_digit c"
  then have d: "digit_value c < 10" by (auto simp: is_digit_def digit_value_def)
  have "strtoul 64 [c] = Some (digit_value c, [])"
    using strtoul_digits [of "[c]" 64] c d by (simp add: digits_value_def)
  then show ?thesis using d by (simp add: parse_u32_def)
qed

lemma demo_parse: "parse_args 64 demo_args = Inr demo_cfg"
  by (simp add: parse_args_def demo_args_def demo_cfg_def tx_option_def parse_one_digit is_digit_def digit_value_def)

lemma demo_ok: "heap_wf demo_world" "holding demo_world {#}" "contents demo_world p = None" "sent demo_world = []"
    "tx_obliging demo_sender cfg demo_world"
  by (simp_all add: demo_world_def demo_sender_def heap_wf_def holding_def resources_of_def contents_def sent_def
      tx_obliging_def RX_INVALID_SOCKET_def INADDR_NONE_def split: option.split)

lemma demo_cfg_simps: "tx_width demo_cfg = 2" "tx_height demo_cfg = 1" "tx_count demo_cfg = 1" "tx_drop_pct demo_cfg = 0"
  by (simp_all add: demo_cfg_def tx_defaults_def)

section \<open>Samples\<close>

text \<open>C25: the packing of the sending tool is the one the receiver unpacks. Four
  ten-bit samples come back from the five bytes of \<open>pack_group\<close> as they were, and the
  receiver's eight-bit conversion keeps the upper eight bits of each; conversely any five
  bytes are what \<open>pack_group\<close> makes of the samples the receiver reads in them.\<close>

lemma samples_roundtrip:
  assumes "cb < 1024" and "y0 < 1024" and "cr < 1024" and "y1 < 1024"
    and "packed_group cb y0 cr y1 = [b0, b1, b2, b3, b4]"
  shows "unpack_cb b0 b1 = cb \<and> unpack_y0 b1 b2 = y0 \<and> unpack_cr b2 b3 = cr \<and> unpack_y1 b3 b4 = y1
    \<and> uyvy_of_group b0 b1 b2 b3 b4 = map (\<lambda>s. ucast (drop_bit 2 s)) [cb, y0, cr, y1]
    \<and> (\<forall>c0 c1 c2 c3 c4. packed_group (unpack_cb c0 c1) (unpack_y0 c1 c2) (unpack_cr c2 c3) (unpack_y1 c3 c4)
         = [c0, c1, c2, c3, c4])"
  using unpack_packed [OF assms] by (simp add: uyvy_of_group_def packed_unpack)

lemma samples_roundtrip_witness:
  "uyvy_of_group 128 58 200 3 172 = [128, 235, 128, 235]"
  using samples_roundtrip [of 512 940 512 940 128 58 200 3 172] by (simp add: packed_group_def)

section \<open>The program\<close>

text \<open>C23: \<open>st2110tx-test\<close> on either platform and any command line whose width does not wrap
  its stride around, for any answers of the system and any observation time: it makes no
  misuse of memory or of a resource, and whenever it exits, with code 0 or 1, its socket is
  closed, the socket library released and both of its buffers freed.\<close>

lemma tx_exits_clean:
  assumes "heap_wf w" and "holding w R"
    and "\<forall>cfg. parse_args bits args = Inr cfg \<longrightarrow> 5 * unat (tx_width cfg div 2) < 2 ^ 32"
  shows "\<exists>r w'. tx_main env pf bits args fuel w = Some (r, w')
    \<and> (\<forall>code. r = Some code \<longrightarrow> code \<in> {0, 1} \<and> holding w' R \<and> (\<forall>p. contents w' p = contents w p))"
proof (cases "parse_args bits args")
  case (Inl e)
  then show ?thesis using assms(2) by (simp add: tx_main_def)
next
  case (Inr cfg)
  then have "\<not> wraps (tx_width cfg)" using assms(3) by (simp add: wraps_iff)
  from tx_main_spec [OF assms(1,2) Inr this, of env pf fuel] show ?thesis
    unfolding tx_run_result_def by blast
qed

lemma tx_exits_clean_witness:
  "\<exists>r w'. tx_main demo_sender POSIX 64 demo_args 3 demo_world = Some (r, w')
    \<and> (\<forall>code. r = Some code \<longrightarrow> holding w' {#} \<and> (\<forall>p. contents w' p = None))"
  using tx_exits_clean [of demo_world "{#}" 64 demo_args demo_sender POSIX 3] demo_ok(1-3)
  by (auto simp: demo_parse demo_cfg_simps)

text \<open>C24: with a frame count the sending tool ends: observed for at least that many frames
  it has an exit code, on any system; and the code is 0 on a system that fails no call.\<close>

lemma tx_terminates:
  assumes "heap_wf w" and "holding w R" and "parse_args bits args = Inr cfg"
    and "5 * unat (tx_width cfg div 2) < 2 ^ 32" and "tx_count cfg \<noteq> 0" and "unat (tx_count cfg) \<le> fuel"
  shows "\<exists>code w'. tx_main env pf bits args fuel w = Some (Some code, w') \<and> (tx_obliging env cfg w \<longrightarrow> code = 0)"
proof -
  have fits: "\<not> wraps (tx_width cfg)" using assms(4) by (simp add: wraps_iff)
  obtain r w' where m: "tx_main env pf bits args fuel w = Some (r, w')"
      "r = None \<longrightarrow> tx_count cfg = 0 \<or> fuel < unat (tx_count cfg)"
    using tx_main_spec [OF assms(1-3) fits, of env pf fuel] unfolding tx_run_result_def by blast
  then obtain code where "r = Some code" using assms(5,6) by (cases r) auto
  then show ?thesis using m(1) tx_main_ok [OF assms(3) _ fits] by blast
qed

lemma tx_terminates_witness: "\<exists>w'. tx_main demo_sender POSIX 64 demo_args 1 demo_world = Some (Some 0, w')"
  using tx_terminates [OF demo_ok(1,2) demo_parse, of 1 demo_sender POSIX] demo_ok(5) by (auto simp: demo_cfg_simps)

text \<open>C9: what \<open>st2110tx-test --count n\<close> sends when it exits with 0, for a picture of at
  most 32768 by 32768 pixels and no \<open>--drop-pct\<close>: \<open>n\<close> frames of datagrams, all to the
  configured address and port. The payloads of a frame, in order, are its picture; each
  datagram fits the MTU; it carries the next sequence number, the frame's timestamp, and
  the marker if and only if it is the last of its frame; and its line header, read right
  after the RTP header, addresses exactly the place of its payload in the picture.\<close>

lemma tx_session_on_wire:
  assumes "heap_wf w" and "holding w R" and "parse_args bits args = Inr cfg"
    and "tx_width cfg \<le> 32768" and "tx_height cfg \<le> 32768" and "tx_drop_pct cfg = 0"
    and "tx_count cfg \<noteq> 0" and "unat (tx_count cfg) \<le> fuel" and "tx_main env pf bits args fuel w = Some (Some 0, w')"
  shows "\<exists>fs. length fs = unat (tx_count cfg)
    \<and> sent w' = sent w @ map (Pair (e_inet_addr env (tx_addr cfg), tx_port cfg)) (concat fs)
    \<and> (\<forall>k < length fs. payloads (fs ! k) = bars_picture (tx_width cfg) (tx_height cfg)
        \<and> (\<forall>i < length (fs ! k).
             parse_rtp_header (fs ! k ! i) = Some (Some (12,
               ucast (1 + of_nat (length (concat (take k fs))) + of_nat i :: u32),
               of_nat k * (90000 div tx_fps cfg), Suc i = length (fs ! k)))
             \<and> addressed (unat (tx_width cfg div 2 * 5)) (fs ! k ! i) = Some (length (payloads (take i (fs ! k))))
             \<and> length (fs ! k ! i) \<le> unat (tx_mtu cfg) - 28))"
proof -
  note valid = parse_args_valid [OF assms(3)]
  note sizes = tx_wire_sizes [OF valid assms(4,5)]
  let ?ds = "tx_datagrams cfg (tx_picture cfg) (tx_stride cfg) (tx_segment_size cfg) fuel"
  have "tx_run_result env cfg fuel R ?ds (contents w) w (Some 0) w'"
    using tx_main_spec [OF assms(1-3) sizes(1), of env pf fuel] assms(9) by simp
  then have sent: "sent w' = sent w @ map (Pair (e_inet_addr env (tx_addr cfg), tx_port cfg)) ?ds"
    using assms(6) by (auto simp: tx_run_result_def tx_sent_def)
  have "frames_to_send cfg 0 fuel = unat (tx_count cfg)" using assms(7,8) by (simp add: frames_to_send_def)
  then obtain fs where fs: "?ds = concat fs" "length fs = unat (tx_count cfg)"
      "\<And>k. k < length fs \<Longrightarrow> frame_on_wire (tx_segment_size cfg) (unat (tx_stride cfg)) (tx_picture cfg)
         (1 + of_nat (length (concat (take k fs)))) (of_nat k * tx_step cfg) (fs ! k)"
    using session_on_wire [OF sizes(2), of "tx_step cfg" "unat (tx_count cfg)" 0 1] by (auto simp: tx_datagrams_def)
  have mtu: "18 + tx_segment_size cfg \<le> unat (tx_mtu cfg) - 28"
    using tx_segment_size_cases [OF valid] by auto
  have len: "length d \<le> unat (tx_mtu cfg) - 28" if "k < length fs" "d \<in> set (fs ! k)" for k d
    using fs(3) [OF that(1)] that(2) mtu by (fastforce simp: frame_on_wire_def)
  show ?thesis
    using fs sent len
    by (intro exI [of _ fs]) (simp add: frame_on_wire_def numbered_def placed_def tx_step_def tx_picture_def tx_stride_def)
qed

lemma tx_session_on_wire_witness:
  "\<exists>fs w'. tx_main demo_sender POSIX 64 demo_args 1 demo_world = Some (Some 0, w') \<and> length fs = 1
    \<and> sent w' = map (Pair (1, 20000)) (concat fs) \<and> payloads (fs ! 0) = bars_picture 2 1"
proof -
  have fits: "\<not> wraps (tx_width demo_cfg)" by (simp add: wraps_iff demo_cfg_simps)
  obtain code w' where m: "tx_main demo_sender POSIX 64 demo_args 1 demo_world = Some (Some code, w')"
    using tx_main_spec [OF demo_ok(1,2) demo_parse fits, of demo_sender POSIX 1]
    by (auto simp: tx_run_result_def demo_cfg_simps)
  then have w': "tx_main demo_sender POSIX 64 demo_args 1 demo_world = Some (Some 0, w')"
    using tx_main_ok [OF demo_parse demo_ok(5) fits m] by simp
  have "\<exists>fs. length fs = unat (tx_count demo_cfg)
      \<and> sent w' = sent demo_world @ map (Pair (e_inet_addr demo_sender (tx_addr demo_cfg), tx_port demo_cfg)) (concat fs)
      \<and> (\<forall>k < length fs. payloads (fs ! k) = bars_picture (tx_width demo_cfg) (tx_height demo_cfg))"
    using tx_session_on_wire [OF demo_ok(1,2) demo_parse _ _ _ _ _ w'] by (fastforce simp: demo_cfg_simps)
  then obtain fs where "length fs = 1" "sent w' = map (Pair (1, 20000)) (concat fs)" "payloads (fs ! 0) = bars_picture 2 1"
    by (auto simp: demo_cfg_simps demo_ok(4) demo_sender_def demo_cfg_def tx_defaults_def)
  then show ?thesis using w' by blast
qed

section \<open>Faults\<close>

text \<open>C37: the stride of the sending tool is a 32-bit product, and its arguments bound the
  width only by parity. Once \<open>width / 2 * 5\<close> reaches \<open>2^32\<close> the frame buffer is allocated
  with the wrapped-around stride and the colour bars are drawn past its end, for every
  height, unless the allocation itself fails.\<close>

lemma tx_stride_overflow:
  assumes "parse_args bits args = Inr cfg" and "2 ^ 32 \<le> 5 * unat (tx_width cfg div 2)" and "\<not> oom w (next_blk w)"
  shows "tx_main env pf bits args fuel w = None"
  using tx_main_overflows [OF assms(1) _ assms(3)] assms(2) by (simp add: wraps_iff)

definition wide_args :: "string list" where
  "wide_args = [''--width'', decimal (unat (1717986920 :: u32))]"

lemma wide_parse: "parse_args 64 wide_args = Inr (tx_defaults\<lparr>tx_width := 1717986920\<rparr>)"
  using parse_decimal [of 64 "1717986920 :: u32"] by (simp add: parse_args_def wide_args_def tx_option_def)

lemma tx_stride_overflow_witness: "tx_main demo_sender POSIX 64 wide_args 0 demo_world = None"
  by (rule tx_stride_overflow [OF wide_parse]) (simp_all add: demo_world_def)

text \<open>C34: every datagram of the sending tool has an RTP header of 12 bytes and, right after
  it, a line header with the length of its payload. The receiver of this repository, given
  such a datagram in any state, does not find that line header: \<open>rx_assembler_process_packet\<close>
  skips two bytes first, for the extended sequence number of RFC 4175 that the tool does
  not write, and stores the segments it reads from byte 14 on. The length of the first of
  these is the line number the tool wrote.\<close>

lemma receiver_misreads_tool:
  assumes "heap_wf w" and "holding w R" and "sent w = []" and "parse_args bits args = Inr cfg"
    and "tx_width cfg \<le> 32768" and "tx_height cfg \<le> 32768" and "tx_main env pf bits args fuel w = Some (r, w')"
    and "frame_log cb ok own accepts seen_by observe" and "sink_inv ok own accepts fmt a h"
  shows "\<forall>d \<in> snd ` set (sent w'). \<exists>seq ts marker s c segs p out asm a' h'.
    parse_rtp_header d = Some (Some (12, seq, ts, marker))
    \<and> rd_line_header d 12 = Some (s, c) \<and> unat (seg_length s) = (length d - 18) mod 65536
    \<and> parse_line_headers d (12 + 2) (length d) [] = Some (segs, p)
    \<and> (segs \<noteq> [] \<longrightarrow> seg_length (hd segs) AND 0x7FFF = line_no s)
    \<and> spec_step (layout_of a) fmt \<lparr>p_seq = seq, p_ts = ts, p_marker = marker,
        p_writes = segment_writes (layout_of a) d segs p\<rparr> (asm_abs a h) = (out, asm)
    \<and> rx_assembler_process_packet cb fmt d a h None = Some (length out, a', h', None)
    \<and> asm_abs a' h' = asm \<and> seen_by h' = seen_by h @ concat (map observe out)"
proof
  fix d assume d: "d \<in> snd ` set (sent w')"
  note sizes = tx_wire_sizes [OF parse_args_valid [OF assms(4)] assms(5,6)]
  let ?ds = "tx_datagrams cfg (tx_picture cfg) (tx_stride cfg) (tx_segment_size cfg) fuel"
  have "tx_run_result env cfg fuel R ?ds (contents w) w r w'"
    using tx_main_spec [OF assms(1,2,4) sizes(1), of env pf fuel] assms(7) by simp
  then obtain ds where "sent w' = map (Pair (e_inet_addr env (tx_addr cfg), tx_port cfg)) ds" "subseq ds ?ds"
    using assms(3) by (auto simp: tx_run_result_def tx_sent_def)
  then have "d \<in> set ?ds" using d by (auto elim: list_emb_set)
  then have mem: "d \<in> set (session_datagrams (tx_segment_size cfg) (unat (tx_stride cfg)) (tx_step cfg) (tx_height cfg)
      (tx_picture cfg) (frames_to_send cfg 0 fuel) 0 1)"
    by (simp add: tx_datagrams_def)
  have "tool_datagram d"
    by (rule session_tool_datagrams [OF _ _ _ _ mem]) (use sizes(2) in \<open>simp_all add: wire_sizes_def\<close>)
  from misread_datagram [OF this] obtain seq ts marker s c s' c' where
      hdr: "parse_rtp_header d = Some (Some (12, seq, ts, marker))"
      and tool: "rd_line_header d 12 = Some (s, c)" "unat (seg_length s) = (length d - 18) mod 65536"
      and misread: "rd_line_header d (12 + 2) = Some (s', c')" "seg_length s' AND 0x7FFF = line_no s"
      and long: "14 \<le> length d"
    using \<open>tool_datagram d\<close> by (auto simp: payload_def tool_datagram_def)
  obtain segs p where parse: "parse_line_headers d (12 + 2) (length d) [] = Some (segs, p)"
    using parse_line_headers_total [of "length d" d "12 + 2" "[]"] by auto
  have first: "segs \<noteq> [] \<longrightarrow> seg_length (hd segs) AND 0x7FFF = line_no s"
    using first_line_header [OF parse] misread by auto
  let ?d = "\<lparr>p_seq = seq, p_ts = ts, p_marker = marker, p_writes = segment_writes (layout_of a) d segs p\<rparr>"
  obtain out asm where step: "spec_step (layout_of a) fmt ?d (asm_abs a h) = (out, asm)" by fastforce
  have "decode_packet (layout_of a) d = Some ?d" using hdr long parse by (simp add: decode_packet_def)
  then have sp: "spec_packet (layout_of a) fmt d (asm_abs a h) = (out, asm)" using step by (simp add: spec_packet_def)
  obtain a' h' where "rx_assembler_process_packet cb fmt d a h None = Some (length out, a', h', None)"
      "asm_abs a' h' = asm" "seen_by h' = seen_by h @ concat (map observe out)"
    by (rule frame_log.process_packet_spec [OF assms(8,9), of d None, unfolded sp]) simp
  with hdr tool parse first step show "\<exists>seq ts marker s c segs p out asm a' h'.
      parse_rtp_header d = Some (Some (12, seq, ts, marker))
      \<and> rd_line_header d 12 = Some (s, c) \<and> unat (seg_length s) = (length d - 18) mod 65536
      \<and> parse_line_headers d (12 + 2) (length d) [] = Some (segs, p)
      \<and> (segs \<noteq> [] \<longrightarrow> seg_length (hd segs) AND 0x7FFF = line_no s)
      \<and> spec_step (layout_of a) fmt \<lparr>p_seq = seq, p_ts = ts, p_marker = marker,
          p_writes = segment_writes (layout_of a) d segs p\<rparr> (asm_abs a h) = (out, asm)
      \<and> rx_assembler_process_packet cb fmt d a h None = Some (length out, a', h', None)
      \<and> asm_abs a' h' = asm \<and> seen_by h' = seen_by h @ concat (map observe out)" by blast
qed

text \<open>The run of the witnesses sends something.\<close>

lemma demo_sends:
  assumes "tx_main demo_sender POSIX 64 demo_args 1 demo_world = Some (r, w')"
  shows "sent w' \<noteq> []"
proof -
  have small: "tx_width demo_cfg \<le> 32768" "tx_height demo_cfg \<le> 32768" by (simp_all add: demo_cfg_simps)
  note sizes = tx_wire_sizes [OF parse_args_valid [OF demo_parse] small]
  let ?ds = "tx_datagrams demo_cfg (tx_picture demo_cfg) (tx_stride demo_cfg) (tx_segment_size demo_cfg) 1"
  have run: "tx_run_result demo_sender demo_cfg 1 {#} ?ds (contents demo_world) demo_world r w'"
    using tx_main_spec [OF demo_ok(1,2) demo_parse sizes(1), of demo_sender POSIX 1] assms by simp
  then obtain code where "r = Some code" by (cases r) (auto simp: tx_run_result_def demo_cfg_simps)
  then have "r = Some 0" using tx_main_ok [OF demo_parse demo_ok(5) sizes(1)] assms by simp
  then have "map snd (sent w') = ?ds"
    using run by (auto simp: tx_run_result_def tx_sent_def demo_cfg_simps demo_ok(4) comp_def)
  moreover have "frames_to_send demo_cfg 0 1 = 1" by (simp add: frames_to_send_def demo_cfg_simps)
  then obtain fs where "?ds = concat fs" "length fs = 1"
      "frame_on_wire (tx_segment_size demo_cfg) (unat (tx_stride demo_cfg)) (tx_picture demo_cfg) 1 0 (fs ! 0)"
    using session_on_wire [OF sizes(2), of "tx_step demo_cfg" 1 0 1] by (auto simp: tx_datagrams_def)
  moreover from this have "payloads ?ds = tx_picture demo_cfg"
    by (cases fs) (simp_all add: frame_on_wire_def)
  moreover have "tx_picture demo_cfg \<noteq> []" using length_bars_picture [of 2 1] by (auto simp: tx_picture_def demo_cfg_simps)
  ultimately show ?thesis by (metis list.simps(8) payloads_simps(1))
qed

lemma receiver_misreads_tool_witness:
  "\<exists>r w'. tx_main demo_sender POSIX 64 demo_args 1 demo_world = Some (r, w') \<and> sent w' \<noteq> []
    \<and> (\<forall>d \<in> snd ` set (sent w'). \<exists>segs p s c n a' h'. rd_line_header d 12 = Some (s, c)
         \<and> parse_line_headers d 14 (length d) [] = Some (segs, p)
         \<and> (segs \<noteq> [] \<longrightarrow> seg_length (hd segs) AND 0x7FFF = line_no s)
         \<and> rx_assembler_process_packet record_cb ST2110RX_FMT_YCBCR422_10BIT d demo_asm demo_h None = Some (n, a', h', None))"
proof -
  obtain r w' where w': "tx_main demo_sender POSIX 64 demo_args 1 demo_world = Some (r, w')"
    using tx_main_spec [OF demo_ok(1,2) demo_parse, of demo_sender POSIX 1] by (auto simp: wraps_iff demo_cfg_simps)
  have small: "tx_width demo_cfg \<le> 32768" "tx_height demo_cfg \<le> 32768" by (simp_all add: demo_cfg_simps)
  show ?thesis
    using w' demo_sends [OF w'] receiver_misreads_tool [OF demo_ok(1,2,4) demo_parse small w' rec.frame_log_axioms
        demo_sink_inv [of ST2110RX_FMT_YCBCR422_10BIT]] by (simp, meson)
qed

end
