(* ===== verification/Obs_Source.thy ===== *)
theory Obs_Source
  imports Rx_Entry
begin

text \<open>
  The OBS plugin: \<open>obs-st2110-source.c\<close>, a source that owns one receiver and hands its
  frames to OBS, and the entry points of \<open>obs-st2110-plugin.c\<close>. What the plugin calls in
  OBS is not under \<open>src/\<close>: the settings object is a pair of look-up functions, the clock
  \<open>os_gettime_ns\<close> a function of the number of its readings so far, and every other call is
  recorded with its arguments. The fields of the source live in the world, since the frame
  callback reads and writes them from the receive thread.
\<close>

section \<open>What OBS gives and takes\<close>

record obs_data =
  get_string :: "string \<Rightarrow> string option"
  get_int :: "string \<Rightarrow> int"

datatype obs_log_level = LOG_ERROR | LOG_WARNING | LOG_INFO | LOG_DEBUG
datatype video_format = VIDEO_FORMAT_NONE | VIDEO_FORMAT_UYVY
datatype video_colour = COLOUR_ZERO | COLOUR_709_PARTIAL  \<comment> \<open>the matrix and ranges filled in\<close>

record obs_source_frame =
  of_data :: "ptr list"
  of_linesize :: "u32 list"
  of_width :: u32
  of_height :: u32
  of_timestamp :: u64
  of_colour :: video_colour
  of_format :: video_format

text \<open>\<open>memset(&obs_frame, 0, sizeof(obs_frame))\<close>, with the eight planes of OBS\<close>

definition zero_obs_frame :: obs_source_frame where
  "zero_obs_frame = \<lparr>of_data = replicate 8 None, of_linesize = replicate 8 0, of_width = 0, of_height = 0,
     of_timestamp = 0, of_colour = COLOUR_ZERO, of_format = VIDEO_FORMAT_NONE\<rparr>"

text \<open>The lines logged, as values.\<close>

datatype obs_line =
    Line_window u64 u64 u64 st2110rx_stats_t   \<comment> \<open>nanoseconds, frames, incomplete ones so far\<close>
  | Line_missing_settings
  | Line_create_failed
  | Line_start_failed int
  | Line_receiving st2110rx_config_t

datatype obs_call =
    Output_video obs_source_frame "byte list"   \<comment> \<open>with the picture at its pointer\<close>
  | Blog obs_log_level obs_line
  | Register_source string                    \<comment> \<open>the identifier in the table\<close>

text \<open>\<open>struct st2110_source\<close>, and what OBS sees\<close>

record obs_world = world +
  src_alive :: bool                    \<comment> \<open>between \<open>bzalloc\<close> and \<open>bfree\<close>\<close>
  src_rx_set :: bool                   \<comment> \<open>\<open>ctx->rx\<close> is not \<open>NULL\<close>\<close>
  src_width :: u32
  src_height :: u32
  frames_delivered :: u64
  frames_skipped_incomplete :: u64
  last_log_frames :: u64
  last_log_time_ns :: u64
  ns_reads :: nat
  obs_calls :: "obs_call list"

definition obs_call :: "obs_call \<Rightarrow> 'z obs_world_scheme \<Rightarrow> 'z obs_world_scheme" where
  "obs_call c w = w\<lparr>obs_calls := obs_calls w @ [c]\<rparr>"

definition os_gettime_ns :: "(nat \<Rightarrow> u64) \<Rightarrow> 'z obs_world_scheme \<Rightarrow> u64 \<times> 'z obs_world_scheme" where
  "os_gettime_ns clock w = (clock (ns_reads w), w\<lparr>ns_reads := Suc (ns_reads w)\<rparr>)"

text \<open>OBS reads the picture during the call; a UYVY picture is one plane.\<close>

definition obs_source_output_video ::
    "obs_source_frame \<Rightarrow> 'z obs_world_scheme \<Rightarrow> 'z obs_world_scheme option" where
  "obs_source_output_video f w =
     do { buf \<leftarrow> contents w (of_data f ! 0);
          bytes \<leftarrow> rd_range buf 0 (unat (of_linesize f ! 0) * unat (of_height f));
          Some (obs_call (Output_video f bytes) w) }"

section \<open>Callbacks\<close>

fun st2110_log_level :: "st2110rx_log_level_t \<Rightarrow> obs_log_level" where
  "st2110_log_level ST2110RX_LOG_ERROR = LOG_ERROR"
| "st2110_log_level ST2110RX_LOG_WARN = LOG_WARNING"
| "st2110_log_level ST2110RX_LOG_INFO = LOG_INFO"
| "st2110_log_level ST2110RX_LOG_DEBUG = LOG_DEBUG"

text \<open>The line about the last window, and the start of the next one.\<close>

definition log_window :: "rx_stats_state_t \<Rightarrow> u64 \<Rightarrow> 'z obs_world_scheme \<Rightarrow> 'z obs_world_scheme" where
  "log_window stats now_ns w =
     (let restart = (\<lambda>w. w\<lparr>last_log_time_ns := now_ns, last_log_frames := frames_delivered w\<rparr>)
      in if last_log_time_ns w = 0 then restart w
         else if now_ns - last_log_time_ns w \<ge> 5000000000 then
           let window_frames = frames_delivered w - last_log_frames w;
               w = (if src_rx_set w
                    then obs_call (Blog LOG_INFO (Line_window (now_ns - last_log_time_ns w) window_frames
                                                    (frames_skipped_incomplete w) (snapshot_of stats))) w
                    else w)
           in restart w
         else w)"

text \<open>\<open>None\<close> with a source that is gone: the callback reads and writes through it.\<close>

definition st2110_frame_cb :: "(nat \<Rightarrow> u64) \<Rightarrow> 'z obs_world_ext world_ext user_cb" where
  "st2110_frame_cb clock stats frame w =
     (if \<not> src_alive w then None
      else
        let w = (if f_incomplete frame
                 then w\<lparr>frames_skipped_incomplete := frames_skipped_incomplete w + 1\<rparr> else w);
            (timestamp, w) = os_gettime_ns clock w;
            obs_frame = zero_obs_frame\<lparr>of_format := VIDEO_FORMAT_UYVY, of_width := f_width frame,
              of_height := f_height frame, of_timestamp := timestamp,
              of_data := (of_data zero_obs_frame)[0 := f_data frame ! 0],
              of_linesize := (of_linesize zero_obs_frame)[0 := f_linesize frame ! 0],
              of_colour := COLOUR_709_PARTIAL\<rparr>
        in do { w \<leftarrow> obs_source_output_video obs_frame w;
                let w = w\<lparr>frames_delivered := frames_delivered w + 1\<rparr>;
                let (now_ns, w) = os_gettime_ns clock w;
                Some (log_window stats now_ns w) })"

section \<open>The receiver of a source\<close>

definition source_config :: "obs_data \<Rightarrow> st2110rx_config_t" where
  "source_config settings =
     \<lparr>c_multicast_addr = get_string settings ''multicast_addr'',
      c_port = word_of_int (get_int settings ''port''),
      c_interface_addr = get_string settings ''interface_addr'',
      c_width = word_of_int (get_int settings ''width''),
      c_height = word_of_int (get_int settings ''height''),
      c_input_fmt = pixfmt_of_u32 (word_of_int (get_int settings ''input_depth'')),
      c_output_fmt = ST2110RX_FMT_UYVY,
      c_socket_buffer_size = word_of_int (get_int settings ''socket_buffer_mb'' * 1024 * 1024),
      c_enable_jumbo = False, c_has_frame_cb = True, c_has_log_cb = True\<rparr>"

text \<open>The receiver \<open>ctx->rx\<close> is an argument and a result of what follows.\<close>

definition st2110_destroy_receiver ::
    "platform \<Rightarrow> st2110rx option \<Rightarrow> 'z obs_world_scheme \<Rightarrow> (st2110rx option \<times> 'z obs_world_scheme) option" where
  "st2110_destroy_receiver pf rx w =
     (case rx of None \<Rightarrow> Some (None, w)
      | Some _ \<Rightarrow> do { w \<leftarrow> st2110rx_destroy pf rx w; Some (None, w\<lparr>src_rx_set := False\<rparr>) })"

text \<open>
  The receive thread runs from \<open>st2110rx_start\<close> on. It is scheduled in \<open>source_receives\<close>, after
  the line logged at the end, so that of this line and the frames the order is fixed here.
\<close>

definition st2110_create_receiver ::
    "os_env \<Rightarrow> platform \<Rightarrow> obs_data \<Rightarrow> st2110rx option \<Rightarrow> 'z obs_world_scheme
       \<Rightarrow> (st2110rx option \<times> 'z obs_world_scheme) option" where
  "st2110_create_receiver env pf settings rx w =
     do { (rx, w) \<leftarrow> st2110_destroy_receiver pf rx w;
          let cfg = source_config settings;
          if c_width cfg = 0 \<or> c_height cfg = 0 \<or> c_multicast_addr cfg = None \<or> c_multicast_addr cfg = Some []
          then Some (rx, obs_call (Blog LOG_WARNING Line_missing_settings) w)
          else do {
            let w = w\<lparr>src_width := c_width cfg, src_height := c_height cfg\<rparr>;
            (rx, w) \<leftarrow> st2110rx_create env (Some cfg) w;
            let w = w\<lparr>src_rx_set := (rx \<noteq> None)\<rparr>;
            if rx = None then Some (None, obs_call (Blog LOG_ERROR Line_create_failed) w)
            else do {
              (rc, rx, w) \<leftarrow> st2110rx_start env pf rx w;
              if rc \<noteq> ST2110RX_OK
              then st2110_destroy_receiver pf rx (obs_call (Blog LOG_ERROR (Line_start_failed rc)) w)
              else Some (rx, obs_call (Blog LOG_INFO (Line_receiving cfg)) w) } } }"

section \<open>The source's entry points\<close>

text \<open>\<open>bzalloc\<close> gives a zeroed structure, and does not fail.\<close>

definition st2110_create ::
    "os_env \<Rightarrow> platform \<Rightarrow> obs_data \<Rightarrow> 'z obs_world_scheme \<Rightarrow> (st2110rx option \<times> 'z obs_world_scheme) option" where
  "st2110_create env pf settings w =
     st2110_create_receiver env pf settings None
       (w\<lparr>src_alive := True, src_rx_set := False, src_width := 0, src_height := 0, frames_delivered := 0,
          frames_skipped_incomplete := 0, last_log_frames := 0, last_log_time_ns := 0\<rparr>)"

definition st2110_destroy ::
    "platform \<Rightarrow> st2110rx option \<Rightarrow> 'z obs_world_scheme \<Rightarrow> 'z obs_world_scheme option" where
  "st2110_destroy pf rx w =
     do { (rx, w) \<leftarrow> st2110_destroy_receiver pf rx w; Some (w\<lparr>src_alive := False\<rparr>) }"

definition st2110_update ::
    "os_env \<Rightarrow> platform \<Rightarrow> obs_data \<Rightarrow> st2110rx option \<Rightarrow> 'z obs_world_scheme
       \<Rightarrow> (st2110rx option \<times> 'z obs_world_scheme) option" where
  "st2110_update env pf settings rx w = st2110_create_receiver env pf settings rx w"

definition st2110_defaults :: obs_data where
  "st2110_defaults =
     \<lparr>get_string = (\<lambda>_. Some [])(''multicast_addr'' := Some ''239.10.21.20'', ''interface_addr'' := Some []),
      get_int = (\<lambda>_. 0)(''port'' := 5000, ''width'' := 1920, ''height'' := 1080, ''socket_buffer_mb'' := 128,
                        ''input_depth'' := int (unat (u32_of_pixfmt ST2110RX_FMT_UYVY)))\<rparr>"

text \<open>The properties dialog, in the order its fields are added, each with its key and label.\<close>

datatype obs_property =
    Text_property string string
  | Int_property string string int int int      \<comment> \<open>least, greatest, step\<close>
  | List_property string string "(string \<times> int) list"

definition st2110_get_properties :: "obs_property list" where
  "st2110_get_properties =
     [Text_property ''multicast_addr'' ''Multicast group'',
      Int_property ''port'' ''Port'' 1 65535 1,
      Text_property ''interface_addr'' ''Interface IP (blank = any)'',
      Int_property ''width'' ''Width'' 16 8192 2,
      Int_property ''height'' ''Height'' 16 4320 1,
      Int_property ''socket_buffer_mb'' ''Socket RX buffer (MiB)'' 4 1024 4,
      List_property ''input_depth'' ''Input pixel depth''
        [(''8-bit YCbCr 4:2:2 (UYVY pgroup=4)'', uint (u32_of_pixfmt ST2110RX_FMT_UYVY)),
         (''10-bit YCbCr 4:2:2 (RFC 4175 pgroup=5)'', uint (u32_of_pixfmt ST2110RX_FMT_YCBCR422_10BIT))]]"

text \<open>
  Settings inside the limits the fields state: a string, a number between the least and the
  greatest value, one of the choices. The step is not a limit.
\<close>

fun within_limits :: "obs_property \<Rightarrow> obs_data \<Rightarrow> bool" where
  "within_limits (Text_property key _) s = (get_string s key \<noteq> None)"
| "within_limits (Int_property key _ lo hi _) s = (lo \<le> get_int s key \<and> get_int s key \<le> hi)"
| "within_limits (List_property key _ choices) s = (get_int s key \<in> set (map snd choices))"

text \<open>Without a source the size is 0.\<close>

definition st2110_get_width :: "'z obs_world_scheme option \<Rightarrow> u32" where
  "st2110_get_width ctx = (case ctx of None \<Rightarrow> 0 | Some w \<Rightarrow> src_width w)"

definition st2110_get_height :: "'z obs_world_scheme option \<Rightarrow> u32" where
  "st2110_get_height ctx = (case ctx of None \<Rightarrow> 0 | Some w \<Rightarrow> src_height w)"

definition st2110_get_name :: string where "st2110_get_name = ''SMPTE ST 2110-20''"

text \<open>
  The table registered with OBS: through it OBS reaches the source. Its constants are
  those of OBS's headers.
\<close>

datatype obs_constant =
  OBS_SOURCE_TYPE_INPUT | OBS_SOURCE_ASYNC_VIDEO | OBS_SOURCE_DO_NOT_DUPLICATE | OBS_ICON_TYPE_CAMERA

record 'w obs_source_info =
  si_id :: string
  si_type :: obs_constant
  si_output_flags :: "obs_constant set"
  si_get_name :: string
  si_create :: "os_env \<Rightarrow> platform \<Rightarrow> obs_data \<Rightarrow> 'w \<Rightarrow> (st2110rx option \<times> 'w) option"
  si_destroy :: "platform \<Rightarrow> st2110rx option \<Rightarrow> 'w \<Rightarrow> 'w option"
  si_update :: "os_env \<Rightarrow> platform \<Rightarrow> obs_data \<Rightarrow> st2110rx option \<Rightarrow> 'w \<Rightarrow> (st2110rx option \<times> 'w) option"
  si_get_defaults :: obs_data
  si_get_properties :: "obs_property list"
  si_get_width :: "'w option \<Rightarrow> u32"
  si_get_height :: "'w option \<Rightarrow> u32"
  si_icon_type :: obs_constant

definition obs_st2110_source_info :: "'z obs_world_scheme obs_source_info" where
  "obs_st2110_source_info =
     \<lparr>si_id = ''obs_st2110_source'', si_type = OBS_SOURCE_TYPE_INPUT,
      si_output_flags = {OBS_SOURCE_ASYNC_VIDEO, OBS_SOURCE_DO_NOT_DUPLICATE},
      si_get_name = st2110_get_name, si_create = st2110_create, si_destroy = st2110_destroy,
      si_update = st2110_update, si_get_defaults = st2110_defaults, si_get_properties = st2110_get_properties,
      si_get_width = st2110_get_width, si_get_height = st2110_get_height, si_icon_type = OBS_ICON_TYPE_CAMERA\<rparr>"

lemma source_table [simp]:
  "si_create obs_st2110_source_info = st2110_create" "si_destroy obs_st2110_source_info = st2110_destroy"
  "si_update obs_st2110_source_info = st2110_update" "si_get_defaults obs_st2110_source_info = st2110_defaults"
  "si_get_properties obs_st2110_source_info = st2110_get_properties"
  by (simp_all add: obs_st2110_source_info_def)

definition obs_module_name :: string where "obs_module_name = ''obs-st2110''"

definition obs_module_description :: string where
  "obs_module_description = ''SMPTE ST 2110-20 receiver source for OBS Studio''"

definition obs_module_load :: "'z obs_world_scheme \<Rightarrow> bool \<times> 'z obs_world_scheme" where
  "obs_module_load w = (True, obs_call (Register_source (si_id (obs_st2110_source_info :: 'z obs_world_scheme obs_source_info))) w)"

definition obs_module_unload :: "'z obs_world_scheme \<Rightarrow> 'z obs_world_scheme" where
  "obs_module_unload w = w"

section \<open>The life of a source\<close>

text \<open>
  How OBS drives a source, through the table: it is created with some settings, receives for a while (the
  schedule of the receive thread), is updated with other settings and receives again, and
  is destroyed in the end.
\<close>

definition source_receives ::
    "platform \<Rightarrow> (nat \<Rightarrow> u64) \<Rightarrow> thread_schedule \<Rightarrow> st2110rx option \<Rightarrow> obs_world \<Rightarrow> (st2110rx option \<times> obs_world) option" where
  "source_receives pf clock sch rx w =
     (case rx of None \<Rightarrow> Some (None, w)
      | Some r \<Rightarrow> do { (exited, r, w) \<leftarrow> rx_thread_entry pf (st2110_frame_cb clock) sch r w; Some (Some r, w) })"

fun source_updates ::
    "os_env \<Rightarrow> platform \<Rightarrow> (nat \<Rightarrow> u64) \<Rightarrow> (obs_data \<times> thread_schedule) list \<Rightarrow> st2110rx option \<Rightarrow> obs_world
       \<Rightarrow> (st2110rx option \<times> obs_world) option" where
  "source_updates env pf clock [] rx w = Some (rx, w)"
| "source_updates env pf clock ((settings, sch) # ss) rx w =
     do { (rx, w) \<leftarrow> si_update obs_st2110_source_info env pf settings rx w;
          (rx, w) \<leftarrow> source_receives pf clock sch rx w;
          source_updates env pf clock ss rx w }"

definition source_life ::
    "os_env \<Rightarrow> platform \<Rightarrow> (nat \<Rightarrow> u64) \<Rightarrow> obs_data \<Rightarrow> thread_schedule \<Rightarrow> (obs_data \<times> thread_schedule) list \<Rightarrow> obs_world
       \<Rightarrow> obs_world option" where
  "source_life env pf clock settings sch ss w =
     do { (rx, w) \<leftarrow> si_create obs_st2110_source_info env pf settings w;
          (rx, w) \<leftarrow> source_receives pf clock sch rx w;
          (rx, w) \<leftarrow> source_updates env pf clock ss rx w;
          si_destroy obs_st2110_source_info pf rx w }"

end
