(* ===== verification/Obs_Life.thy ===== *)
theory Obs_Life
  imports Obs_Source
begin

text \<open>
  The plugin's source as a client of the library: its frame callback meets the contract
  of a frame consumer, and its life, whatever the settings and the failures, holds one
  receiver at most, shows the frames of the stream, and gives everything back.
\<close>

section \<open>What OBS is shown\<close>

datatype obs_story =
    Receiving st2110rx_config_t
  | Picture u32 u32 u32 "byte list"     \<comment> \<open>width, height, line size\<close>

fun story_of :: "obs_call \<Rightarrow> obs_story list" where
  "story_of (Output_video f bytes) = [Picture (of_width f) (of_height f) (of_linesize f ! 0) bytes]"
| "story_of (Blog l (Line_receiving c)) = [Receiving c]"
| "story_of _ = []"

definition story :: "'z obs_world_scheme \<Rightarrow> obs_story list" where
  "story w = concat (map story_of (obs_calls w))"

definition shown :: "seen_frame \<Rightarrow> obs_story list" where
  "shown v = [Picture (s_width v) (s_height v) (s_linesize v) (s_bytes v)]"

lemma story_call [simp]: "story (obs_call c w) = story w @ story_of c"
  by (simp add: story_def obs_call_def)

lemma obs_call_simps [simp]:
  "blocks (obs_call c w) = blocks w" "next_blk (obs_call c w) = next_blk w" "trace (obs_call c w) = trace w"
  "src_alive (obs_call c w) = src_alive w" "src_rx_set (obs_call c w) = src_rx_set w"
  "contents (obs_call c w) p = contents w p"
  by (simp_all add: obs_call_def contents_def split: option.split)

section \<open>The callback\<close>

definition obs_ok :: "os_event list \<Rightarrow> 'z obs_world_scheme \<Rightarrow> bool" where
  "obs_ok tr w \<longleftrightarrow> heap_wf w \<and> trace w = tr \<and> src_alive w \<and> src_rx_set w"

lemma log_window_simps [simp]:
  "blocks (log_window st n w) = blocks w" "next_blk (log_window st n w) = next_blk w"
  "trace (log_window st n w) = trace w" "src_alive (log_window st n w) = src_alive w"
  "src_rx_set (log_window st n w) = src_rx_set w" "story (log_window st n w) = story w"
  by (simp_all add: log_window_def Let_def story_def obs_call_def)

lemma story_updates [simp]:
  "story (w\<lparr>frames_delivered := n\<rparr>) = story w" "story (w\<lparr>frames_skipped_incomplete := n\<rparr>) = story w"
  "story (w\<lparr>ns_reads := k\<rparr>) = story w" "story (w\<lparr>src_alive := b\<rparr>) = story w" "story (w\<lparr>src_rx_set := b\<rparr>) = story w"
  by (simp_all add: story_def)

lemma frame_cb_result:
  assumes "st2110_frame_cb clock st f h = Some h'"
  shows "blocks h' = blocks h" "next_blk h' = next_blk h" "trace h' = trace h" "src_alive h'" "src_alive h"
    "src_rx_set h' = src_rx_set h"
  using assms
  by (auto simp: st2110_frame_cb_def Let_def os_gettime_ns_def obs_source_output_video_def split: bind_splits if_splits)

lemma contents_obs_updates [simp]:
  "contents (w\<lparr>ns_reads := k\<rparr>) p = contents w p" "contents (w\<lparr>frames_skipped_incomplete := n\<rparr>) p = contents w p"
  "contents (w\<lparr>frames_delivered := n\<rparr>) p = contents w p" "contents (w\<lparr>src_alive := b\<rparr>) p = contents w p"
  "contents (w\<lparr>src_rx_set := b\<rparr>) p = contents w p"
  by (simp_all add: contents_def split: option.split)

lemma frame_cb_total:
  "src_alive h \<Longrightarrow> frame_data_ok f h \<Longrightarrow> st2110_frame_cb clock st f h \<noteq> None"
  by (auto simp: st2110_frame_cb_def Let_def os_gettime_ns_def obs_source_output_video_def frame_data_ok_def
      zero_obs_frame_def rd_range_def split: bind_splits)

lemma frame_cb_story:
  assumes "st2110_frame_cb clock st f h = Some h'" and "contents h (f_data f ! 0) = Some bs" and "frame_data_ok f h"
  shows "story h' = story h @ shown (view_frame f bs)"
  using assms
  by (auto simp: st2110_frame_cb_def Let_def os_gettime_ns_def obs_source_output_video_def frame_data_ok_def
      zero_obs_frame_def rd_range_def shown_def view_frame_def split: bind_splits if_splits)

lemma obs_store:
  "store h p i ys = Some h' \<Longrightarrow> obs_ok tr h \<Longrightarrow> obs_ok tr h'"
  "store h p i ys = Some h' \<Longrightarrow> story h' = story h"
  by (auto simp: store_def obs_ok_def heap_wf_def story_def split: option.splits if_splits)

interpretation source_log: frame_log "st2110_frame_cb clock st" "obs_ok tr" "{}" "\<lambda>_. True" story shown
  for clock :: "nat \<Rightarrow> u64" and st :: rx_stats_state_t and tr :: "os_event list"
proof (unfold_locales, goal_cases)
  case (1 h f)
  then show ?case by (simp add: frame_cb_total obs_ok_def)
next
  case (2 h f h')
  then show ?case using frame_cb_result [OF 2(3)] by (simp add: obs_ok_def heap_wf_def)
next
  case (3 h f h' p)
  then show ?case using frame_cb_result [OF 3(3)] by (simp add: contents_def split: option.split)
next
  case (4 h p i ys h')
  then show ?case by (simp add: obs_store)
next
  case (5 h f bs h')
  then show ?case using frame_cb_story [OF 5(6,3,5)] by simp
next
  case (6 p h i ys h')
  then show ?case by (simp add: obs_store)
qed

interpretation source_rx: receiver_client "st2110_frame_cb clock st" "obs_ok tr" "{}" "\<lambda>_. True" story shown rx
  for clock :: "nat \<Rightarrow> u64" and st :: rx_stats_state_t and tr :: "os_event list" and rx :: st2110rx
  by unfold_locales simp

lemma source_emit:
  "obs_ok tr h \<Longrightarrow> heap_wf h \<and> trace h = tr" "obs_ok (trace h) h \<Longrightarrow> obs_ok (trace h @ [e]) (emit e h)"
  "story (emit e h) = story h"
  for h :: "'z obs_world_scheme"
  by (simp_all add: obs_ok_def heap_wf_def story_def emit_def)

interpretation source_client: session_client "st2110_frame_cb clock" obs_ok story shown
  for clock :: "nat \<Rightarrow> u64"
  by unfold_locales (erule source_emit(1), erule source_emit(2), rule source_emit(3))

section \<open>The receiver of a source\<close>

text \<open>
  Between the calls of OBS: the source is there, it holds the resources and the blocks of
  its receiver, if it has one, and nothing else changed since the memory was \<open>base\<close>.
\<close>

definition source_inv ::
    "platform \<Rightarrow> resource multiset \<Rightarrow> (ptr \<Rightarrow> byte list option) \<Rightarrow> st2110rx option \<Rightarrow> obs_world \<Rightarrow> bool" where
  "source_inv pf R base rx w \<longleftrightarrow> src_alive w \<and> (src_rx_set w \<longleftrightarrow> rx \<noteq> None) \<and> heap_wf w
     \<and> (case rx of
          None \<Rightarrow> holding w R \<and> contents w = base
        | Some r \<Rightarrow> life_inv pf R r w \<and> (\<lambda>p. if p \<in> set (owned r) then None else contents w p) = base)"

lemma contents_fun_updates [simp]:
  "contents (w\<lparr>src_rx_set := b\<rparr>) = contents w" "contents (w\<lparr>src_width := m, src_height := n\<rparr>) = contents w"
  for w :: obs_world
  by (simp_all add: fun_eq_iff contents_def split: option.split)

lemma obs_more: "world.more v = world.more w \<Longrightarrow> story v = story w \<and> src_alive v = src_alive w \<and> src_rx_set v = src_rx_set w
    \<and> src_width v = src_width w \<and> src_height v = src_height w"
  for v w :: obs_world
  by (cases v; cases w) (simp add: story_def)

lemma heap_wf_obs_updates [simp]:
  "heap_wf (w\<lparr>src_rx_set := b\<rparr>) = heap_wf w" "heap_wf (w\<lparr>src_alive := b\<rparr>) = heap_wf w"
  "heap_wf (obs_call c w) = heap_wf w"
  "holding (w\<lparr>src_rx_set := b\<rparr>) R = holding w R" "holding (w\<lparr>src_alive := b\<rparr>) R = holding w R"
  "holding (obs_call c w) R = holding w R" for w :: obs_world
  by (simp_all add: heap_wf_def holding_def)

lemma life_inv_obs_updates [simp]:
  "life_inv pf R rx (w\<lparr>src_rx_set := b\<rparr>) = life_inv pf R rx w"
  "life_inv pf R rx (obs_call c w) = life_inv pf R rx w" for w :: obs_world
  by (simp_all add: life_inv_def owns_def)

lemma source_inv_call [simp]: "source_inv pf R base rx (obs_call c w) = source_inv pf R base rx w"
  by (simp add: source_inv_def fun_eq_iff split: option.split)

lemma destroy_receiver_outcome:
  assumes "source_inv pf R base rx w"
  shows "\<exists>w'. st2110_destroy_receiver pf rx w = Some (None, w') \<and> source_inv pf R base None w' \<and> story w' = story w"
proof (cases rx)
  case None
  then show ?thesis using assms by (simp add: st2110_destroy_receiver_def)
next
  case (Some r)
  have inv: "src_alive w" "life_inv pf R r w" "(\<lambda>p. if p \<in> set (owned r) then None else contents w p) = base"
    using assms Some by (simp_all add: source_inv_def)
  obtain w' where w': "st2110rx_destroy pf (Some r) w = Some w'" "holding w' R" "world.more w' = world.more w"
      "\<forall>p. contents w' p = (if p \<in> set (owned r) then None else contents w p)" "heap_wf w'"
    using destroy_outcome [OF inv(2)] by blast
  have "contents w' = base" using w'(4) inv(3) by (simp add: fun_eq_iff)
  then show ?thesis
    using w' inv(1) Some obs_more [OF w'(3)] by (simp add: st2110_destroy_receiver_def source_inv_def)
qed

text \<open>
  With settings that pass the check, after the old receiver is gone: the new one runs, and
  its thread is ready; or there is none.
\<close>

definition receiving :: "platform \<Rightarrow> resource multiset \<Rightarrow> st2110rx_config_t \<Rightarrow> st2110rx option \<Rightarrow> obs_world \<Rightarrow> bool" where
  "receiving pf R c rx w \<longleftrightarrow>
     (\<forall>r. rx = Some r \<longrightarrow> valid_config c \<and> (\<exists>n. thread_ready pf (obs_ok (trace w)) R c n r w))"

definition story_after :: "st2110rx_config_t \<Rightarrow> st2110rx option \<Rightarrow> obs_story list" where
  "story_after c rx = (if rx = None then [] else [Receiving c])"

lemma thread_ready_call:
  "thread_ready pf (obs_ok (trace w)) R c n r w \<Longrightarrow> thread_ready pf (obs_ok (trace (obs_call l w))) R c n r (obs_call l w)"
  for w :: obs_world
  by (auto simp: thread_ready_def packet_inv_def sink_inv_def asm_inv_def asm_buffers_def convert_ready_def
      pkt_ready_def asm_abs_def obs_ok_def)

lemma new_receiver:
  fixes w :: obs_world
  assumes inv: "source_inv pf R base None w"
  shows "\<exists>rx w'. do { (rx, w) \<leftarrow> st2110rx_create env (Some c) w;
      let w = w\<lparr>src_rx_set := (rx \<noteq> None)\<rparr>;
      if rx = None then Some (None, obs_call (Blog LOG_ERROR Line_create_failed) w)
      else do {
        (rc, rx, w) \<leftarrow> st2110rx_start env pf rx w;
        if rc \<noteq> ST2110RX_OK
        then st2110_destroy_receiver pf rx (obs_call (Blog LOG_ERROR (Line_start_failed rc)) w)
        else Some (rx, obs_call (Blog LOG_INFO (Line_receiving c)) w) } } = Some (rx, w')
    \<and> source_inv pf R base rx w' \<and> receiving pf R c rx w' \<and> story w' = story w @ story_after c rx
    \<and> (comes_up pf env c w \<longrightarrow> rx \<noteq> None)"
proof (cases "valid_config c \<and> enough_memory w")
  case False
  have wf: "heap_wf w" and R: "holding w R" and base: "contents w = base" and alive: "src_alive w"
    using inv by (simp_all add: source_inv_def)
  obtain w1 where cr: "st2110rx_create env (Some c) w = Some (None, w1)" "same_memory w w1"
    using create_fails [OF False wf] by blast
  have down: "\<not> comes_up pf env c w" using False by (auto simp: comes_up_def)
  have "heap_wf w1" using same_memory_wf [OF cr(2) wf] .
  moreover have "trace w1 = trace w" "world.more w1 = world.more w" "blocks w1 = blocks w"
    using cr(2) world_more_eq [of w1 w] by (simp_all add: same_memory_def)
  moreover from this have "contents w1 = contents w" by (simp add: fun_eq_iff contents_def split: option.split)
  ultimately show ?thesis
    using cr(1) R base alive obs_more [of w1 w] down
    by (simp add: source_inv_def receiving_def story_after_def fun_eq_iff) (simp add: holding_def)
next
  case True
  have wf: "heap_wf w" and R: "holding w R" and base: "contents w = base" and alive: "src_alive w"
    using inv by (simp_all add: source_inv_def)
  let ?rx = "fresh_rx c (next_blk w)"
  obtain w1 where cr: "st2110rx_create env (Some c) w = Some (Some ?rx, w1)" "blocks w1 = fresh_rx_blocks env c w"
      "heap_wf w1" "heap.more w1 = heap.more w" "oom w1 = oom w" "next_blk w1 = next_blk w + 5"
    using create_succeeds [OF _ _ wf, of c env] True by blast
  have more1: "trace w1 = trace w" "story w1 = story w" "src_alive w1"
    using world_more_eq [OF cr(4)] obs_more [of w1 w] alive by simp_all
  let ?w1 = "w1\<lparr>src_rx_set := True\<rparr>"
  have w1: "blocks ?w1 = fresh_rx_blocks env c w" "heap_wf ?w1" "trace ?w1 = trace w" using cr more1 by simp_all
  have "life_inv pf R ?rx ?w1"
    using fresh_life_inv [OF cr(2-4) R, of pf] by simp
  then obtain rc rx w2 where start: "st2110rx_start env pf (Some ?rx) ?w1 = Some (rc, Some rx, w2)"
    using start_outcomes by blast
  have up: "rc = ST2110RX_OK" if "comes_up pf env c w"
    using that by (intro start_obliging [OF _ _ _ start]) (simp_all add: comes_up_def fresh_rx_def zero_rx_def cr(5,6))
  note st = session_started [OF _ w1 R start]
  have res: "start_result pf R ?rx ?w1 rc rx w2" using st(1) True by simp
  have life: "life_inv pf R rx w2" and more2: "world.more w2 = world.more ?w1"
    using res by (simp_all add: start_result_def keeps_live_def)
  have keep2: "story w2 = story w" "src_alive w2" "src_rx_set w2"
    using obs_more [OF more2] more1 by simp_all
  have inv2: "source_inv pf R base (Some rx) w2"
    using life keep2 session_memory [OF wf w1(1) res] base
    by (simp add: source_inv_def fun_eq_iff) (simp add: life_inv_def)
  show ?thesis
  proof (cases "rc = ST2110RX_OK")
    case ok: True
    have "obs_ok (trace w2) w2" using life keep2 by (simp add: obs_ok_def life_inv_def)
    then have "thread_ready pf (obs_ok (trace w2)) R c (next_blk w) rx w2" using st(2) ok True by simp
    then have "receiving pf R c (Some rx) (obs_call (Blog LOG_INFO (Line_receiving c)) w2)"
      using True thread_ready_call unfolding receiving_def by blast
    then show ?thesis
      using cr(1) start ok inv2 keep2 by (simp add: story_after_def)
  next
    case False
    have "source_inv pf R base (Some rx) (obs_call (Blog LOG_ERROR (Line_start_failed rc)) w2)" using inv2 by simp
    then obtain w3 where "st2110_destroy_receiver pf (Some rx) (obs_call (Blog LOG_ERROR (Line_start_failed rc)) w2)
        = Some (None, w3)" "source_inv pf R base None w3" "story w3 = story w2"
      using destroy_receiver_outcome by fastforce
    then show ?thesis
      using cr(1) start False keep2 up by (simp add: receiving_def story_after_def) blast
  qed
qed

lemma create_receiver_outcome:
  assumes "source_inv pf R base rx w"
  shows "\<exists>rx' w'. st2110_create_receiver env pf settings rx w = Some (rx', w') \<and> source_inv pf R base rx' w'
    \<and> receiving pf R (source_config settings) rx' w' \<and> story w' = story w @ story_after (source_config settings) rx'
    \<and> (rx = None \<and> comes_up pf env (source_config settings) w \<and> get_string settings ''multicast_addr'' \<noteq> Some [] \<longrightarrow> rx' \<noteq> None)"
proof -
  let ?c = "source_config settings"
  obtain w1 where w1: "st2110_destroy_receiver pf rx w = Some (None, w1)" "source_inv pf R base None w1" "story w1 = story w"
    using destroy_receiver_outcome [OF assms] by blast
  let ?v = "w1\<lparr>src_width := c_width ?c, src_height := c_height ?c\<rparr>"
  have v: "source_inv pf R base None ?v" "story ?v = story w"
    using w1(2,3) by (simp_all add: source_inv_def heap_wf_def holding_def story_def)
  let ?missing = "c_width ?c = 0 \<or> c_height ?c = 0 \<or> c_multicast_addr ?c = None \<or> c_multicast_addr ?c = Some []"
  have up: "\<not> ?missing \<and> comes_up pf env ?c ?v"
    if "rx = None" "comes_up pf env ?c w" "get_string settings ''multicast_addr'' \<noteq> Some []"
  proof -
    have "w1 = w" "c_multicast_addr ?c \<noteq> Some []"
      using that w1(1) by (simp_all add: st2110_destroy_receiver_def) (simp add: source_config_def)
    then show ?thesis using that(2) by (simp add: comes_up_def valid_config_def supported_def enough_memory_def)
  qed
  show ?thesis
  proof (cases ?missing)
    case True
    then have "st2110_create_receiver env pf settings rx w = Some (None, obs_call (Blog LOG_WARNING Line_missing_settings) w1)"
      using w1(1) by (simp add: st2110_create_receiver_def Let_def)
    then show ?thesis using w1(2,3) up True by (simp add: receiving_def story_after_def) blast
  next
    case False
    obtain rx' w' where n: "do { (rx, w) \<leftarrow> st2110rx_create env (Some ?c) ?v;
        let w = w\<lparr>src_rx_set := (rx \<noteq> None)\<rparr>;
        if rx = None then Some (None, obs_call (Blog LOG_ERROR Line_create_failed) w)
        else do {
          (rc, rx, w) \<leftarrow> st2110rx_start env pf rx w;
          if rc \<noteq> ST2110RX_OK
          then st2110_destroy_receiver pf rx (obs_call (Blog LOG_ERROR (Line_start_failed rc)) w)
          else Some (rx, obs_call (Blog LOG_INFO (Line_receiving ?c)) w) } } = Some (rx', w')"
      "source_inv pf R base rx' w'" "receiving pf R ?c rx' w'" "story w' = story ?v @ story_after ?c rx'"
      "comes_up pf env ?c ?v \<longrightarrow> rx' \<noteq> None"
      using new_receiver [OF v(1), of env ?c] by blast
    have "st2110_create_receiver env pf settings rx w = Some (rx', w')"
      using n(1) by (simp only: st2110_create_receiver_def w1(1) Option.bind.simps prod.case Let_def if_not_P [OF False])
    then show ?thesis using n(2-5) up v(2) by auto
  qed
qed

section \<open>Receiving\<close>

text \<open>The packet buffer of the plugin's receiver has the size for standard frames.\<close>

definition source_packets :: "platform \<Rightarrow> thread_schedule \<Rightarrow> (u64 \<times> byte list) list" where
  "source_packets pf sch = thread_input pf 1500 sch"

text \<open>A clock that does not run backwards, and on Windows a kernel that completes what it was given.\<close>

definition session_clock :: "platform \<Rightarrow> int \<Rightarrow> thread_schedule \<Rightarrow> bool" where
  "session_clock pf B sch \<longleftrightarrow> (\<exists>t0. steady_clock t0 B (map fst (source_packets pf sch))) \<and> schedule_ok pf sch"

definition pictures :: "platform \<Rightarrow> obs_data \<Rightarrow> thread_schedule \<Rightarrow> obs_story list" where
  "pictures pf settings sch = concat (map shown (session_frames (source_config settings) (map snd (source_packets pf sch))))"

lemma receives_outcome:
  assumes inv: "source_inv pf R base rx w" and rec: "receiving pf R (source_config settings) rx w"
    and B: "47721858845 \<le> B" "B < 2 ^ 53" and clock: "session_clock pf B sch"
  shows "\<exists>rx' w'. source_receives pf clk sch rx w = Some (rx', w') \<and> source_inv pf R base rx' w' \<and> (rx' = None \<longleftrightarrow> rx = None)
    \<and> story w' = story w @ (if rx = None then [] else pictures pf settings sch)"
proof (cases rx)
  case None
  then show ?thesis using inv by (simp add: source_receives_def)
next
  case (Some r)
  let ?c = "source_config settings"
  obtain n where c: "valid_config ?c" and ready: "thread_ready pf (obs_ok (trace w)) R ?c n r w"
    using rec Some by (auto simp: receiving_def)
  have size: "r_pkt_buf_size r = 1500"
    using ready by (simp add: thread_ready_def same_core_def fresh_rx_def source_config_def)
  obtain t0 where clk: "steady_clock t0 B (map fst (thread_input pf (r_pkt_buf_size r) sch))" and sch: "schedule_ok pf sch"
    using clock by (auto simp: session_clock_def source_packets_def size)
  obtain exited r' w' where l: "rx_thread_entry pf (st2110_frame_cb clk) sch r w = Some (exited, r', w')"
      "life_inv pf R r' w'" "set (owned r') = set (owned r)"
      "\<And>p. p \<notin> set (owned r) \<Longrightarrow> contents w' p = contents w p" "obs_ok (trace w') w'"
      "story w' = story w @ concat (map shown (session_frames ?c (map snd (thread_input pf (r_pkt_buf_size r) sch))))"
    by (rule source_client.session_thread [OF ready c sch B clk, of clk], rule that)
  have base: "(\<lambda>p. if p \<in> set (owned r') then None else contents w' p) = base"
  proof
    fix p
    have "(if p \<in> set (owned r) then None else contents w p) = base p"
      using inv Some by (simp add: source_inv_def fun_eq_iff)
    then show "(if p \<in> set (owned r') then None else contents w' p) = base p"
      using l(3,4) by (cases "p \<in> set (owned r)") simp_all
  qed
  show ?thesis
    using l(1,2,5,6) base Some by (simp add: source_receives_def source_inv_def obs_ok_def pictures_def source_packets_def size)
qed

text \<open>What a session adds to the story, if its receiver came up.\<close>

definition session_story :: "platform \<Rightarrow> obs_data \<times> thread_schedule \<Rightarrow> bool \<Rightarrow> obs_story list" where
  "session_story pf s up = (if up then Receiving (source_config (fst s)) # pictures pf (fst s) (snd s) else [])"

lemma session_outcome:
  assumes create: "\<exists>rx1 w1. act = Some (rx1, w1) \<and> source_inv pf R base rx1 w1 \<and> receiving pf R (source_config settings) rx1 w1
      \<and> story w1 = story w @ story_after (source_config settings) rx1 \<and> (served \<longrightarrow> rx1 \<noteq> None)"
    and B: "47721858845 \<le> B" "B < 2 ^ 53" and clock: "session_clock pf B sch"
  shows "\<exists>up rx' w'. do { (rx, w) \<leftarrow> act; source_receives pf clk sch rx w } = Some (rx', w') \<and> source_inv pf R base rx' w'
    \<and> story w' = story w @ session_story pf (settings, sch) up \<and> (served \<longrightarrow> up)"
proof -
  obtain rx1 w1 where a: "act = Some (rx1, w1)" "source_inv pf R base rx1 w1" "receiving pf R (source_config settings) rx1 w1"
      "story w1 = story w @ story_after (source_config settings) rx1" "served \<longrightarrow> rx1 \<noteq> None"
    using create by blast
  obtain rx' w' where r: "source_receives pf clk sch rx1 w1 = Some (rx', w')" "source_inv pf R base rx' w'"
      "story w' = story w1 @ (if rx1 = None then [] else pictures pf settings sch)"
    using receives_outcome [OF a(2,3) B clock] by blast
  have "story w' = story w @ session_story pf (settings, sch) (rx1 \<noteq> None)"
    using a(4) r(3) by (cases rx1) (simp_all add: session_story_def story_after_def)
  then show ?thesis using a(1,5) r(1,2) by (intro exI [of _ "rx1 \<noteq> None"]) auto
qed

lemma updates_outcome:
  assumes "source_inv pf R base rx w" and B: "47721858845 \<le> B" "B < 2 ^ 53"
    and "\<forall>s \<in> set ss. session_clock pf B (snd s)"
  shows "\<exists>ups rx' w'. source_updates env pf clk ss rx w = Some (rx', w') \<and> source_inv pf R base rx' w' \<and> length ups = length ss
    \<and> story w' = story w @ concat (map2 (session_story pf) ss ups)"
  using assms(1,4)
proof (induction ss arbitrary: rx w)
  case Nil
  then show ?case by simp
next
  case (Cons s ss)
  obtain settings sch where s: "s = (settings, sch)" by (cases s)
  obtain up rx1 w1 where 1: "do { (rx, w) \<leftarrow> st2110_update env pf settings rx w; source_receives pf clk sch rx w } = Some (rx1, w1)"
      "source_inv pf R base rx1 w1" "story w1 = story w @ session_story pf (settings, sch) up"
    using session_outcome [OF create_receiver_outcome [OF Cons.prems(1)] B, of sch env settings clk] Cons.prems(2) s
    by (auto simp: st2110_update_def)
  obtain ups rx' w' where 2: "source_updates env pf clk ss rx1 w1 = Some (rx', w')" "source_inv pf R base rx' w'"
      "length ups = length ss" "story w' = story w1 @ concat (map2 (session_story pf) ss ups)"
    using Cons.IH [OF 1(2)] Cons.prems(2) by auto
  have "source_updates env pf clk (s # ss) rx w = Some (rx', w')"
    using 1(1) 2(1) s by (auto split: bind_splits)
  then show ?case
    using 2 1(3) s by (intro exI [of _ "up # ups"] exI [of _ rx'] exI [of _ w']) simp
qed

lemma created_inv:
  fixes w :: obs_world
  assumes "heap_wf w" and "holding w R"
  shows "source_inv pf R (contents w) None (w\<lparr>src_alive := True, src_rx_set := False, src_width := 0, src_height := 0,
    frames_delivered := 0, frames_skipped_incomplete := 0, last_log_frames := 0, last_log_time_ns := 0\<rparr>)"
  using assms by (simp add: source_inv_def heap_wf_def holding_def fun_eq_iff contents_def split: option.split)

lemma source_life_spec:
  fixes w :: obs_world
  assumes w: "heap_wf w" "holding w R" and B: "47721858845 \<le> B" "B < 2 ^ 53"
    and clocks: "\<forall>s \<in> set ((settings, sch) # ss). session_clock pf B (snd s)"
  shows "\<exists>ups w'. source_life env pf clk settings sch ss w = Some w'
    \<and> holding w' R \<and> contents w' = contents w \<and> \<not> src_alive w' \<and> length ups = Suc (length ss)
    \<and> story w' = story w @ concat (map2 (session_story pf) ((settings, sch) # ss) ups)
    \<and> (comes_up pf env (source_config settings) w \<and> get_string settings ''multicast_addr'' \<noteq> Some [] \<longrightarrow> hd ups)"
proof -
  let ?w = "w\<lparr>src_alive := True, src_rx_set := False, src_width := 0, src_height := 0,
    frames_delivered := 0, frames_skipped_incomplete := 0, last_log_frames := 0, last_log_time_ns := 0\<rparr>"
  let ?up = "comes_up pf env (source_config settings) w \<and> get_string settings ''multicast_addr'' \<noteq> Some []"
  have st: "story ?w = story w" "comes_up pf env (source_config settings) ?w = comes_up pf env (source_config settings) w"
    by (simp_all add: story_def comes_up_def enough_memory_def)
  obtain up rx1 w1 where 1: "do { (rx, w) \<leftarrow> st2110_create env pf settings w; source_receives pf clk sch rx w } = Some (rx1, w1)"
      "source_inv pf R (contents w) rx1 w1" "story w1 = story w @ session_story pf (settings, sch) up" "?up \<longrightarrow> up"
    using session_outcome [OF create_receiver_outcome [OF created_inv [OF w]] B, of pf sch env settings clk] clocks st
    by (auto simp: st2110_create_def)
  obtain ups rx2 w2 where 2: "source_updates env pf clk ss rx1 w1 = Some (rx2, w2)" "source_inv pf R (contents w) rx2 w2"
      "length ups = length ss" "story w2 = story w1 @ concat (map2 (session_story pf) ss ups)"
    using updates_outcome [OF 1(2) B, of ss env clk] clocks by auto
  obtain w3 where 3: "st2110_destroy_receiver pf rx2 w2 = Some (None, w3)" "source_inv pf R (contents w) None w3"
      "story w3 = story w2"
    using destroy_receiver_outcome [OF 2(2)] by blast
  have "source_life env pf clk settings sch ss w = Some (w3\<lparr>src_alive := False\<rparr>)"
    using 1(1) 2(1) 3(1) by (auto simp: source_life_def st2110_destroy_def split: bind_splits)
  moreover have "holding (w3\<lparr>src_alive := False\<rparr>) R" "contents (w3\<lparr>src_alive := False\<rparr>) = contents w"
    using 3(2) by (simp_all add: source_inv_def fun_eq_iff)
  moreover have "story (w3\<lparr>src_alive := False\<rparr>) = story w @ concat (map2 (session_story pf) ((settings, sch) # ss) (up # ups))"
    using 1(3) 2(4) 3(3) by simp
  ultimately show ?thesis using 1(4) 2(3) by (intro exI [of _ "up # ups"] exI [of _ "w3\<lparr>src_alive := False\<rparr>"]) simp
qed

end
