(* ===== verification/Obs_Props.thy ===== *)
theory Obs_Props
  imports Obs_Life Rx_Delivery
begin

text \<open>
  What the OBS source guarantees: its life from creation to destruction, one frame through
  its callback, and the settings inside the limits of its dialog.
\<close>

section \<open>The life of a source\<close>

text \<open>C5: a source of the plugin, on either platform, created with any settings, updated
  with any settings any number of times, receiving any datagrams in between, and destroyed, for any
  answers of the system and the allocator: no call misuses memory or a resource (the
  callback never runs on a source that is gone), and in the end every block and every
  resource is given back. What OBS sees, session by session, is nothing if the receiver
  did not come up, and else the report that it receives and then exactly the UYVY
  pictures of the frames of that session's stream, in order.\<close>

lemma source_life_balanced:
  fixes w :: obs_world
  assumes "heap_wf w" and "holding w R" and "47721858845 \<le> B" and "B < 2 ^ 53"
    and "\<forall>s \<in> set ((settings, sch) # ss). session_clock pf B (snd s)"
  shows "\<exists>ups w'. source_life env pf clk settings sch ss w = Some w'
    \<and> holding w' R \<and> (\<forall>p. contents w' p = contents w p) \<and> \<not> src_alive w' \<and> length ups = Suc (length ss)
    \<and> story w' = story w @ concat (map2 (\<lambda>s up.
        if up then Receiving (source_config (fst s))
          # map (\<lambda>v. Picture (s_width v) (s_height v) (s_linesize v) (s_bytes v))
              (session_frames (source_config (fst s)) (map snd (source_packets pf (snd s))))
        else []) ((settings, sch) # ss) ups)"
proof -
  have pics: "session_story pf s up = (if up then Receiving (source_config (fst s))
          # map (\<lambda>v. Picture (s_width v) (s_height v) (s_linesize v) (s_bytes v))
              (session_frames (source_config (fst s)) (map snd (source_packets pf (snd s))))
        else [])" for s up
    by (simp add: session_story_def pictures_def shown_def [abs_def] concat_map_singleton)
  obtain ups w' where "source_life env pf clk settings sch ss w = Some w'" "holding w' R" "contents w' = contents w"
      "\<not> src_alive w'" "length ups = Suc (length ss)"
      "story w' = story w @ concat (map2 (session_story pf) ((settings, sch) # ss) ups)"
    using source_life_spec [OF assms] by blast
  then show ?thesis unfolding pics by (intro exI [of _ ups] exI [of _ w']) simp
qed

definition demo_obs_world :: obs_world where
  "demo_obs_world = \<lparr>blocks = (\<lambda>_. None), next_blk = 0, oom = (\<lambda>_. False), junk = (\<lambda>_ _. 0), trace = [],
     src_alive = False, src_rx_set = False, src_width = 0, src_height = 0, frames_delivered = 0,
     frames_skipped_incomplete = 0, last_log_frames = 0, last_log_time_ns = 0, ns_reads = 0, obs_calls = []\<rparr>"

definition demo_obs_os :: os_env where
  "demo_obs_os = \<lparr>e_startup = (\<lambda>_. True), e_socket = (\<lambda>_. 5), e_rcvbuf = (\<lambda>_. None), e_bind = (\<lambda>_. True),
     e_join_group = (\<lambda>_. True), e_iocp = (\<lambda>_. Some 8), e_thread = (\<lambda>_. Some 9), e_errno = (\<lambda>_. 0),
     e_multicast_if = (\<lambda>_. True), e_send = (\<lambda>_. True), e_rand = (\<lambda>_. 0), e_monotonic = (\<lambda>_. (0, 0)),
     e_tick_count = (\<lambda>_. 0),
     e_inet_addr = (\<lambda>_. 1), e_sizeof_rx = 8, e_sizeof_iocp_buffer = 8\<rparr>"

definition demo_schedule :: thread_schedule where
  "demo_schedule = \<lparr>posix_turns = [], win_posts = (\<lambda>_. True), win_error = 0,
     win_turns = [\<lparr>wt_running = True, wt_ok = True, wt_running2 = True,
       wt_entries = [\<lparr>e_completion = Completed 3 [0x80, 96, 0, 1], e_now = 1000, e_running = True, e_post_ok = True\<rparr>]\<rparr>]\<rparr>"

lemma source_life_balanced_witness:
  "\<exists>w'. source_life demo_obs_os WIN32 (\<lambda>n. of_nat n) st2110_defaults demo_schedule [(st2110_defaults, demo_schedule)]
      demo_obs_world = Some w'
    \<and> holding w' {#} \<and> (\<forall>p. contents w' p = None) \<and> \<not> src_alive w'"
proof -
  have "heap_wf demo_obs_world" "holding demo_obs_world {#}" "\<And>p. contents demo_obs_world p = None"
    by (simp_all add: demo_obs_world_def heap_wf_def holding_def resources_of_def contents_def split: option.split)
  moreover have "session_clock WIN32 47721858845 demo_schedule"
    by (auto simp: session_clock_def source_packets_def demo_schedule_def thread_input_def primes_def schedule_ok_def
        kernel_ok_def RX_IOCP_NUM_BUFFERS_def RX_IOCP_BUFFER_SIZE_def intro: exI [of _ 1000])
  ultimately show ?thesis
    using source_life_balanced [of demo_obs_world "{#}" 47721858845 st2110_defaults demo_schedule
        "[(st2110_defaults, demo_schedule)]" WIN32 demo_obs_os "\<lambda>n. of_nat n"] by auto
qed

text \<open>C8: the plugin from the sender's pictures to OBS, on either platform. When the
  receiver of a source can come up and a stream arrives all of whose packets are in
  sequence (each frame cut into RFC 4175 packets in any way that covers its picture, its
  marker last), OBS is told that the source receives and is then given exactly the
  pictures sent, in order, as UYVY: converted when the input is 10-bit, as they are when
  it is 8-bit.\<close>

lemma source_shows_stream:
  fixes w :: obs_world and settings :: obs_data
  defines "c \<equiv> source_config settings"
  assumes "heap_wf w" and "holding w R" and "47721858845 \<le> B" and "B < 2 ^ 53" and clock: "session_clock pf B sch"
    and up: "comes_up pf env c w" "get_string settings ''multicast_addr'' \<noteq> Some []"
    and stream: "map snd (source_packets pf sch) = packets_of fs" "lossless (session_layout c) fs"
  shows "\<exists>w'. source_life env pf clk settings sch [] w = Some w'
    \<and> story w' = story w @ Receiving c
        # map (\<lambda>f. Picture (c_width c) (c_height c) (c_width c * 2) (client_picture c f)) fs"
proof -
  obtain ups w' where w': "source_life env pf clk settings sch [] w = Some w'" "length ups = 1" "hd ups"
      "story w' = story w @ concat (map2 (session_story pf) [(settings, sch)] ups)"
    using source_life_spec [OF assms(2-5), of settings sch "[]" pf env clk] clock up by (auto simp: c_def)
  obtain u where u: "ups = [u]" using w'(2) by (cases ups) auto
  have c: "valid_config c" "c_output_fmt c = ST2110RX_FMT_UYVY"
    using up(1) by (simp_all add: comes_up_def c_def) (simp add: source_config_def)
  have "map (\<lambda>v. Picture (s_width v) (s_height v) (s_linesize v) (s_bytes v)) (session_frames c (packets_of fs))
      = map2 (\<lambda>i f. Picture (c_width c) (c_height c) (c_width c * 2) (client_picture c f)) [0..<length fs] fs"
    unfolding session_frames_lossless [OF stream(2)] map_map
    by (rule map_sent_views) (simp add: out_view_client [OF c])
  then have "pictures pf settings sch = map (\<lambda>f. Picture (c_width c) (c_height c) (c_width c * 2) (client_picture c f)) fs"
    by (simp add: pictures_def shown_def [abs_def] concat_map_singleton c_def [symmetric] stream(1) map2_snd)
  then show ?thesis using w'(1,3,4) by (simp add: u session_story_def c_def)
qed

text \<open>Two 8-bit pictures of 2 by 1 pixels, one packet each.\<close>

definition demo_small :: obs_data where
  "demo_small = st2110_defaults\<lparr>get_int := (get_int st2110_defaults)(''width'' := 2, ''height'' := 1)\<rparr>"

definition demo_pixels :: "u16 \<Rightarrow> u32 \<Rightarrow> byte list \<Rightarrow> sent_frame" where
  "demo_pixels seq ts bs = \<lparr>sf_picture = bs, sf_ts = ts, sf_packets =
     [\<lparr>wp_rtp = \<lparr>w_marker = True, w_ptype = 96, w_seq = seq, w_ts = ts, w_ssrc = 7, w_csrcs = [], w_ext = None\<rparr>,
       wp_ext_seq = 0, wp_segs = [(\<lparr>line_no = 0, pixel_offset = 0, seg_length = 4\<rparr>, bs)]\<rparr>]\<rparr>"

abbreviation demo_pictures :: "sent_frame list" where
  "demo_pictures \<equiv> [demo_pixels 65535 0 [1, 2, 3, 4], demo_pixels 0 3000 [5, 6, 7, 8]]"

definition demo_arriving :: thread_schedule where
  "demo_arriving = \<lparr>posix_turns = map (\<lambda>p. \<lparr>t_running = True, t_answer = Recv_bytes p, t_running2 = True, t_now = 1000\<rparr>)
     (packets_of demo_pictures), win_posts = (\<lambda>_. True), win_error = 0, win_turns = []\<rparr>"

lemma demo_small_config:
  "c_width (source_config demo_small) = 2" "c_height (source_config demo_small) = 1"
  "c_input_fmt (source_config demo_small) = ST2110RX_FMT_UYVY" "c_output_fmt (source_config demo_small) = ST2110RX_FMT_UYVY"
  "get_string demo_small ''multicast_addr'' = Some ''239.10.21.20''"
  by (simp_all add: source_config_def demo_small_def st2110_defaults_def pixfmt_of_u32_def)

lemma demo_small_comes_up: "comes_up POSIX demo_obs_os (source_config demo_small) demo_obs_world"
  by (simp add: comes_up_def valid_config_def supported_def demo_small_config obliging_def enough_memory_def
      demo_obs_world_def demo_obs_os_def interface_ip_def INADDR_NONE_def RX_INVALID_SOCKET_def split: list.split option.split)
    (simp add: source_config_def demo_small_def st2110_defaults_def)

lemma demo_small_layout:
  "session_layout (source_config demo_small) = \<lparr>l_stride = 4, l_width = 2, l_height = 1, l_pgroup = 4, l_ppg = 2\<rparr>"
  by (simp add: session_layout_def fresh_rx_def fresh_assembler_def layout_of_def pgroup_defs pgroup_of_fmt_def
      demo_small_config)

lemma demo_pictures_lossless: "lossless (session_layout (source_config demo_small)) demo_pictures"
  by (simp add: lossless_def demo_small_layout wf_stream_def wf_sent_def apart_def whole_def sf_marked_def sf_seqs_def
      sf_writes_def demo_pixels_def packet_writes_def seg_dst_def writes_from_def covered_def
      layout_size_def wf_packet_def wf_rtp_def wf_payload_def wf_segment_def MAX_SEGMENTS_def)

lemma demo_arriving_packets: "source_packets POSIX demo_arriving = map (Pair 1000) (packets_of demo_pictures)"
proof -
  have "p \<noteq> [] \<and> length p \<le> 1500" if "p \<in> set (packets_of demo_pictures)" for p
    using that by (auto simp: packets_of_def demo_pixels_def put_packet_def length_put_rtp_header)
  then show ?thesis
    unfolding source_packets_def thread_input_def platform.case demo_arriving_def thread_schedule.select_convs
    by (rule loop_input_all)
qed

lemma source_shows_stream_witness:
  "\<exists>w'. source_life demo_obs_os POSIX (\<lambda>n. of_nat n) demo_small demo_arriving [] demo_obs_world = Some w'
    \<and> story w' = [Receiving (source_config demo_small), Picture 2 1 4 [1, 2, 3, 4], Picture 2 1 4 [5, 6, 7, 8]]"
proof -
  have world: "heap_wf demo_obs_world" "holding demo_obs_world {#}" "story demo_obs_world = []"
    by (simp_all add: demo_obs_world_def heap_wf_def holding_def resources_of_def story_def)
  have "map fst (source_packets POSIX demo_arriving) = [1000, 1000]" "map snd (source_packets POSIX demo_arriving) = packets_of demo_pictures"
    unfolding demo_arriving_packets by (simp_all add: comp_def) (simp add: packets_of_def demo_pixels_def)
  moreover from this(1) have "session_clock POSIX 47721858845 demo_arriving"
    unfolding session_clock_def by (auto simp: schedule_ok_def intro: exI [of _ 1000])
  ultimately show ?thesis
    using source_shows_stream [OF world(1,2) _ _ _ demo_small_comes_up _ _ demo_pictures_lossless] world(3)
    by (fastforce simp: demo_small_config client_picture_def demo_pixels_def)
qed

section \<open>One frame\<close>

text \<open>C26: a frame of the library through the plugin's callback. OBS is given one UYVY
  frame with its size, its pointer and line size, and its bytes, complete or not; the time
  is OBS's clock, not the frame's timestamp; the counters grow by one frame and, if it was
  incomplete, by one incomplete frame; at most one line is logged; memory is unchanged.\<close>

lemma frame_handed_to_obs:
  assumes "src_alive w" and "contents w (f_data f ! 0) = Some bs"
    and "length bs = unat (f_linesize f ! 0) * unat (f_height f)"
  shows "\<exists>w' fr lines. st2110_frame_cb clk stats f w = Some w'
    \<and> obs_calls w' = obs_calls w @ Output_video fr bs # lines \<and> length lines \<le> 1
    \<and> of_format fr = VIDEO_FORMAT_UYVY \<and> of_width fr = f_width f \<and> of_height fr = f_height f
    \<and> of_data fr ! 0 = f_data f ! 0 \<and> of_linesize fr ! 0 = f_linesize f ! 0 \<and> of_timestamp fr = clk (ns_reads w)
    \<and> frames_delivered w' = frames_delivered w + 1
    \<and> frames_skipped_incomplete w' = frames_skipped_incomplete w + (if f_incomplete f then 1 else 0)
    \<and> (\<forall>p. contents w' p = contents w p)"
  using assms
  by (auto simp: st2110_frame_cb_def Let_def os_gettime_ns_def obs_source_output_video_def zero_obs_frame_def
      rd_range_def log_window_def obs_call_def contents_def split: option.splits)

lemma frame_handed_to_obs_witness:
  "\<exists>w' fr lines. st2110_frame_cb (\<lambda>n. 7) rx_stats_init
      (zero_frame\<lparr>f_data := [Some 0, None, None, None], f_linesize := [4, 0, 0, 0], f_width := 2, f_height := 1, f_incomplete := True\<rparr>)
      (demo_obs_world\<lparr>src_alive := True, blocks := [0 \<mapsto> [1, 2, 3, 4]]\<rparr>) = Some w'
    \<and> obs_calls w' = Output_video fr [1, 2, 3, 4] # lines \<and> of_timestamp fr = 7 \<and> frames_skipped_incomplete w' = 1"
  using frame_handed_to_obs [of "demo_obs_world\<lparr>src_alive := True, blocks := [0 \<mapsto> [1, 2, 3, 4]]\<rparr>"
      "zero_frame\<lparr>f_data := [Some 0, None, None, None], f_linesize := [4, 0, 0, 0], f_width := 2, f_height := 1, f_incomplete := True\<rparr>"
      "[1, 2, 3, 4]" "\<lambda>n. 7" rx_stats_init]
  by (auto simp: demo_obs_world_def contents_def)

section \<open>Settings\<close>

text \<open>C27: of the settings inside the limits the properties dialog states, the
  library accepts exactly those with an even width: for these only memory can make
  \<open>st2110rx_create\<close> fail, with an odd width it returns \<open>NULL\<close> (the dialog asks for even widths
  by its step alone). No number is cut off on its way into the configuration, and the
  socket buffer is a positive \<open>int\<close> number of bytes.\<close>

lemma dialog_settings_valid:
  assumes "\<forall>p \<in> set st2110_get_properties. within_limits p s" and "heap_wf h"
  shows "(\<exists>r h'. st2110rx_create env (Some (source_config s)) h = Some (r, h')
      \<and> (r \<noteq> None \<longleftrightarrow> even (get_int s ''width'') \<and> enough_memory h))
    \<and> uint (c_width (source_config s)) = get_int s ''width'' \<and> uint (c_height (source_config s)) = get_int s ''height''
    \<and> uint (c_port (source_config s)) = get_int s ''port''
    \<and> requested_rcvbuf (source_config s) = get_int s ''socket_buffer_mb'' * 2 ^ 20 \<and> 0 < requested_rcvbuf (source_config s)"
proof -
  let ?c = "source_config s"
  obtain wd ht pt mb where r: "get_int s ''width'' = wd" "get_int s ''height'' = ht" "get_int s ''port'' = pt"
      "get_int s ''socket_buffer_mb'' = mb" by simp
  have range: "16 \<le> wd" "wd \<le> 8192" "16 \<le> ht" "ht \<le> 4320" "1 \<le> pt" "pt \<le> 65535" "4 \<le> mb" "mb \<le> 1024"
    using assms(1) by (simp_all add: st2110_get_properties_def r)
  have num: "uint (c_width ?c) = wd" "uint (c_height ?c) = ht" "uint (c_port ?c) = pt"
    using range by (simp_all add: source_config_def r uint_word_of_int)
  have even: "c_width ?c mod 2 = 0 \<longleftrightarrow> even wd" using num(1) by (auto simp: word_uint_eq_iff uint_mod)
  have "c_width ?c \<noteq> 0" "c_height ?c \<noteq> 0" using num range by (auto simp: word_uint_eq_iff)
  moreover have "c_width ?c \<le> 8192" "c_height ?c \<le> 4320" using num range by (simp_all add: word_le_def)
  moreover have "c_input_fmt ?c \<in> {ST2110RX_FMT_YCBCR422_10BIT, ST2110RX_FMT_UYVY}"
    using assms(1) by (auto simp: source_config_def st2110_get_properties_def pixfmt_of_u32_def)
  ultimately have "valid_config ?c \<longleftrightarrow> even wd"
    using assms(1) by (simp add: valid_config_def supported_def even) (simp add: source_config_def st2110_get_properties_def)
  then have "\<exists>r h'. st2110rx_create env (Some ?c) h = Some (r, h') \<and> (r \<noteq> None \<longleftrightarrow> even wd \<and> enough_memory h)"
    using create_fails [OF _ assms(2), of ?c env] create_succeeds [OF _ _ assms(2), of ?c env]
    by (cases "valid_config ?c \<and> enough_memory h") fastforce+
  moreover have buf: "sint (c_socket_buffer_size ?c) = mb * 2 ^ 20"
  proof -
    have "mb * 1048576 < 2 ^ 31" "0 \<le> mb * 1048576" using range by simp_all
    then have "signed_take_bit 31 (mb * 1048576) = mb * 1048576"
      by (intro signed_take_bit_int_eq_self) simp_all
    moreover have "c_socket_buffer_size ?c = word_of_int (mb * 1048576)"
      by (simp add: source_config_def r)
    ultimately show ?thesis by (simp only: signed_of_int len_num1 len_bit0) simp
  qed
  moreover have "c_socket_buffer_size ?c \<noteq> 0" using buf range(7) by auto
  ultimately show ?thesis using num range(7) by (simp add: requested_rcvbuf_def r)
qed

text \<open>A width of 1919 is within the limits, and refused; 1920 is accepted.\<close>

lemma dialog_settings_valid_witness:
  "(\<exists>h'. st2110rx_create demo_obs_os (Some (source_config (st2110_defaults\<lparr>get_int := (get_int st2110_defaults)(''width'' := 1919)\<rparr>)))
      demo_obs_world = Some (None, h'))
    \<and> (\<exists>r h'. st2110rx_create demo_obs_os (Some (source_config st2110_defaults)) demo_obs_world = Some (Some r, h'))"
proof -
  have w: "heap_wf demo_obs_world" "enough_memory demo_obs_world"
    by (simp_all add: demo_obs_world_def heap_wf_def enough_memory_def)
  have d: "get_int st2110_defaults ''width'' = 1920" by (simp add: st2110_defaults_def)
  let ?odd = "st2110_defaults\<lparr>get_int := (get_int st2110_defaults)(''width'' := 1919)\<rparr>"
  have lim: "\<forall>p \<in> set st2110_get_properties. within_limits p st2110_defaults"
      "\<forall>p \<in> set st2110_get_properties. within_limits p ?odd"
    by (simp_all add: st2110_get_properties_def st2110_defaults_def)
  obtain r h where "st2110rx_create demo_obs_os (Some (source_config ?odd)) demo_obs_world = Some (r, h)" "r = None"
    using dialog_settings_valid [OF lim(2) w(1), of demo_obs_os] by auto
  moreover obtain r' h' where "st2110rx_create demo_obs_os (Some (source_config st2110_defaults)) demo_obs_world = Some (r', h')"
      "r' \<noteq> None"
    using dialog_settings_valid [OF lim(1) w(1), of demo_obs_os] w(2) d by auto
  ultimately show ?thesis by auto
qed

end
