(* ===== verification/Spec2Isabelle.thy ===== *)
theory Spec2Isabelle
  imports Assembler_Props Stats_Props Receiver_Props Thread_Props Win_Props Tools_Props Tx_Props Obs_Props
begin

text \<open>
  A verification library of the ST 2110-20 receiver: the receiver library
  \<open>src/libst2110rx\<close>, its two command line tools, and the OBS Studio plugin
  \<open>src/obs-plugin\<close> that is built on it.

  \<^bold>\<open>The program.\<close> A client creates a receiver with a configuration
  (\<open>st2110rx_create\<close>), starts it, stops it and destroys it. Starting opens a multicast
  socket and a thread. The thread receives RTP datagrams; each one updates the statistics
  and goes to the frame assembler, which copies the line segments of an RFC 4175 packet
  into a picture and, at the marker or at a new timestamp, swaps its two buffers and hands
  the finished picture to a callback inside the core. That callback converts the 10-bit
  wire format to 8-bit UYVY when the configuration asks for it and calls the client's
  frame callback: the command line tool prints a line and may write the picture to a file, the
  plugin shows it in OBS. Another thread may ask for the statistics at any time. A second
  tool sends test pictures.

  \<^bold>\<open>The theories, and the code they model.\<close>

    \<^item> \<open>Rx_Prelude\<close>: fixed-width integers, big-endian reads and writes, checked reads and
      copies into a byte list; the locale \<open>wire_codec\<close> (writing and reading back a number
      of fixed size), interpreted for 16 and 32 bits.
    \<^item> \<open>Rx_Memory\<close>: the C heap, as blocks of bytes named by addresses, with \<open>malloc\<close>,
      \<open>calloc\<close>, \<open>free\<close> and stores; the locale \<open>byte_memory\<close>, interpreted on it.
    \<^item> \<open>Rx_Types\<close>: the data of \<open>include/st2110rx.h\<close>; the log levels are a \<open>linorder\<close>.
    \<^item> \<open>Rx_Atomic\<close>: the atomic accesses of \<open>src/rx_platform.h\<close>, on both platforms.
    \<^item> \<open>Rx_Os\<close>: the rest of \<open>src/rx_platform.h\<close>. Every call to the operating system is an event of a
      trace, and its answer comes from an environment (\<open>os_env\<close>), a parameter of
      every operation. \<open>monitor\<close> reads a trace as the multiset of the resources it leaves
      held, and \<open>holding w R\<close> says that exactly \<open>R\<close> is held and nothing was misused.
    \<^item> \<open>Rx_Socket\<close>: \<open>src/rx_socket.c\<close> (\<open>rx_udp_create\<close>, \<open>rx_udp_destroy\<close>).
    \<^item> \<open>Rx_Double\<close>, \<open>Rx_Stats\<close>, \<open>Rx_Averages\<close>, \<open>Rx_Seqlock\<close>: \<open>src/rx_stats.c\<close>. \<open>Rx_Double\<close> has the
      rounding of \<open>double\<close> (locales \<open>float_rounding\<close> and, with a bound on its error,
      \<open>accurate_rounding\<close>, interpreted on the 53-bit rounding), \<open>Rx_Stats\<close> the functions,
      \<open>Rx_Averages\<close> how near the two averages are to the exact ones, \<open>Rx_Seqlock\<close> the update and
      the snapshot as interleaved steps.
    \<^item> \<open>Rx_Convert\<close>: \<open>src/rx_convert.c\<close>.
    \<^item> \<open>Rx_Rtp\<close>: the parsers of \<open>src/rx_rfc4175.c\<close> (\<open>parse_rtp_header\<close> and the loop over the
      line headers), with the encoders of the wire formats they invert.
    \<^item> \<open>Rx_Assembler\<close>: the rest of \<open>src/rx_rfc4175.c\<close>. \<open>Rx_Assembler_Safety\<close> has its invariant
      and the locale \<open>frame_sink\<close> (what a frame callback must promise);
      \<open>Rx_Assembler_Spec\<close> the abstract specification (a picture under construction, the
      picture last shown, the packet before, the flags), its locale \<open>frame_log\<close> (a callback
      that keeps a log of what it saw) and the refinement; \<open>Rx_Assembler_Init\<close> creation and
      disposal; \<open>Rx_Assembler_Run\<close> streams of packets; \<open>Rx_Assembler_Frames\<close> frames on the wire;
      \<open>Rx_Stream\<close> whole streams of frames with losses.
    \<^item> \<open>Rx_Core\<close>: \<open>src/rx_core.c\<close>, with the platform as an argument where the source has
      \<open>#ifdef _WIN32\<close>. \<open>Rx_Core_Frames\<close> shows that \<open>rx_internal_frame_cb\<close> meets the assembler's
      contract whenever the client's callback meets it (the locale \<open>receiver_client\<close>, whose
      \<open>sublocale\<close> is \<open>frame_log\<close>); \<open>Rx_Core_Packets\<close> follows one packet and a stream of them;
      \<open>Rx_Core_Create\<close>, \<open>Rx_Core_Start\<close> and \<open>Rx_Core_Life\<close> creation, start, and stop and
      disposal; \<open>Rx_Core_Loop\<close> and \<open>Rx_Core_Iocp\<close> the receive loops of the two platforms;
      \<open>Rx_Session\<close> one session of any client, and \<open>Rx_Entry\<close> the entry point of the thread on
      either platform, with a client of the library as an interface (the locale
      \<open>session_client\<close>); \<open>Rx_Delivery\<close> what a session delivers of a stream without losses.
    \<^item> \<open>Rx_Threads\<close>: the POSIX receive thread and a client that stops and destroys the receiver,
      as interleaved steps; \<open>Rx_Threads_Win\<close>: the same on Windows, with the kernel, which owns
      the posted buffers, writes them and queues completions, as a third party. What nobody
      can count on (datagrams, and calls that fail on their own) are steps of their own
      relations, \<open>network_step\<close> and \<open>fault_step\<close>: they may happen in every theorem, and none
      that says that something gets done uses them.
    \<^item> \<open>Tool_Args\<close>: \<open>parse_u32\<close> of both tools, over a model of \<open>strtoul\<close>.
    \<^item> \<open>Rx_Cli\<close>: \<open>tools/st2110rx-cli.c\<close>, a client: its callback interprets \<open>frame_log\<close>,
      \<open>receiver_client\<close> and \<open>session_client\<close>.
    \<^item> \<open>Tx_Test\<close>: \<open>tools/st2110tx-test.c\<close>. \<open>Tx_Packets\<close> relates its packing and its headers to
      the receiver's parsers, \<open>Tx_Picture\<close> has the picture it draws, \<open>Tx_Traffic\<close> the datagrams
      its loops send, \<open>Tx_Wire\<close> what they mean on the wire, \<open>Tx_Main\<close> the whole program.
    \<^item> \<open>Obs_Source\<close>, \<open>Obs_Life\<close>: \<open>src/obs-plugin/src/obs-st2110-source.c\<close> and
      \<open>obs-st2110-plugin.c\<close>, the other client. What OBS gives (settings, its clock) is a
      parameter, what it is given is recorded; it reaches the source through the table
      \<open>obs_st2110_source_info\<close>. The interpretations of the same locales on the plugin's
      callback are in \<open>Obs_Life\<close>.
    \<^item> \<open>Assembler_Props\<close>, \<open>Stats_Props\<close>, \<open>Receiver_Props\<close>, \<open>Thread_Props\<close>, \<open>Win_Props\<close>,
      \<open>Tools_Props\<close>, \<open>Tx_Props\<close>, \<open>Obs_Props\<close>: the properties of the program, each that has hypotheses with a
      concrete instance where they hold (\<open>..._witness\<close>).

  \<^bold>\<open>How C is represented.\<close> Integers keep their width (\<open>32 word\<close> and so on), so that
  wrap-around is that of the code; \<open>size_t\<close> is a natural number (every product in the
  code is bounded by a product of two 32-bit numbers, below \<open>2^64\<close>). A pointer is the
  address of a block or \<open>NULL\<close>; a struct is a record. \<open>None\<close> as the result of an operation
  is undefined behaviour: an access outside a live block, a \<open>free\<close> of a block that is not
  live, an overflow of signed arithmetic, a join of a thread that does not exist or whose
  memory is gone before it was joined (\<open>thread_memory\<close>). Each safety
  theorem therefore says that a result exists. Which allocations fail, what fresh
  memory holds and what every system call answers are arbitrary, and no theorem limits
  them unless it says so.

  Loops follow the data: over packets and segments by recursion on lists, with measures
  where the recursion is not structural. The loops that end only on a request get a
  schedule: \<open>rx_receiver_loop\<close> and \<open>rx_receiver_loop_win32\<close> run on a list that says what
  each load of \<open>running\<close> and each receive returned, and report whether they returned or were
  still running at its end; every such list is allowed, so the theorems cover every
  finite prefix of an endless run. The clients get such a schedule for the platform they
  run on (\<open>thread_schedule\<close>); on Windows it is one the kernel can produce (\<open>schedule_ok\<close>: only
  buffers that were posted complete). The endless loop of the sending tool takes the number
  of frames it is observed for; a theorem of \<open>Tx_Props\<close> shows that with \<open>--count n\<close>, \<open>n\<close> frames
  are enough for it to end by itself. The retries of \<open>rx_stats_snapshot\<close> need
  no bound of the model's: the code has its own, 1000. That stopping ends is stated with
  explicit bounds on the number of steps: 8 on POSIX, 199 on Windows (130 of the
  thread, most of them two for each of the 64 completions of a batch, 64 of the kernel, 5 of
  the client).

  The statistics are defined as long as the clock does not jump back. Theorems about
  streams assume a clock (\<open>steady_clock\<close>) whose readings do not decrease and do not lie
  more than \<open>B\<close> microseconds apart; \<open>B\<close> may be anything from 47721858845 (the longest
  difference of two RTP timestamps, so that one bound serves both) to \<open>2^53\<close>, 285 years,
  below which a \<open>double\<close> holds every integer. (What the averages are worth for real gaps
  is \<open>averages_accurate\<close>, which takes the largest gap of the stream as it is.)

  \<^bold>\<open>What the theorems show.\<close>

    \<^item> The assembler (\<open>Assembler_Props\<close>) never leaves its buffers on any input, and refines its
      specification; the packets of a frame, in any order with the marker last,
      give exactly the picture sent; of any stream with losses it is said which frames are
      shown, with which flag, and that they are the sent picture where packets arrived and
      black elsewhere, the bursts among the faults below being cases of it;
      losses in send order are counted exactly; the parsers
      invert the wire formats; creation has no leak; a packet completes one frame at most,
      and changes nothing when it is cut short.
    \<^item> The receiver (\<open>Receiver_Props\<close>): any sequence of starts and stops, whatever fails,
      leaves memory and the system as they were; a stop makes its calls in one fixed order,
      with the memory of the thread there until it has been joined; the POSIX loop delivers
      the frames of the specification and counts what it should; the Windows loop does what
      sequential processing does.
    \<^item> Threads (\<open>Thread_Props\<close>): in any interleaving the receive thread does what the loop does
      on its schedule, so that the theorems about the loop are theorems about the thread; no
      memory is freed before it has ended; stopping ends where closing a socket wakes a
      blocked \<open>recvfrom\<close>, and can hang where it does not. \<open>Win_Props\<close> has the same for Windows,
      where a buffer has one owner among kernel, completion port and thread and keeps what
      was received until it is processed, and stopping always ends because of the completion
      it posts itself. The safety of \<open>Win_Props\<close> is that of the thread and the client, and of the
      kernel while the pool is there; what the kernel may do later is one of the faults.
    \<^item> Statistics and conversion (\<open>Stats_Props\<close>): a snapshot is never torn and always ends, the
      averages are the exact ones up to a few parts in \<open>2^53\<close>, and each byte of a converted picture is
      the right one.
    \<^item> The clients: the command line tool and the plugin, on both platforms, give everything
      back and show exactly the frames of the stream; both follow from the lemma of
      \<open>session_client\<close> over their callbacks' contracts. When a stream arrives without loss, the
      tool's output file is the sent pictures, converted, and OBS is given just these. Of
      the settings inside the limits of the plugin's dialog the library accepts those with
      an even width.
    \<^item> The sending tool (\<open>Tx_Props\<close>): what it puts on the wire, that it ends and cleans
      up, and that its packing is the inverse of the receiver's.
    \<^item> Faults: a late packet counted as 65536 losses, bursts of losses that leave a damaged
      frame unflagged or mix two pictures, a restart that keeps the history of
      the previous run, a pool of receive buffers that Windows may still use when it is freed, a receive thread that ends silently on Windows, numbers
      out of range accepted with a 32-bit \<open>unsigned long\<close>, the sending tool's headers
      that the receiver misreads and its stride that wraps around.

  \<^bold>\<open>Not modelled.\<close>

    \<^item> Concurrency beyond \<open>Rx_Seqlock\<close>, \<open>Rx_Threads\<close> and \<open>Rx_Threads_Win\<close>: the clients run the thread's
      work between start and stop as one segment, which those two theories justify; a restart
      while another thread stops the receiver is not modelled. Shared accesses are
      sequentially consistent: of the atomics the values are modelled, not the memory
      ordering. The flag \<open>running\<close>, 0 or 1 in the code, is a \<open>bool\<close>. The number of a closed
      socket is taken not to be reused before the thread has ended.
    \<^item> The lifetime of the strings of a configuration: \<open>st2110rx_create\<close> keeps the caller's
      pointers, which only \<open>st2110rx_start\<close> follows; here they are values.
    \<^item> Real time. A sleep of the sending tool is an event with its length; that of the
      receiving tool's waiting loop has no effect, and only the end of the waiting is
      modelled (\<open>wait_for_stop\<close>).
    \<^item> Text: usage messages, error messages of the tools and the format strings of log
      lines. Log messages are values of a datatype (\<open>log_msg\<close>), the lines the receiving tool
      prints are those of \<open>cli_line\<close>; the sending tool's are left out, and so is its
      \<open>srand\<close>: \<open>rand\<close> answers from the environment.
    \<^item> The unused structs \<open>rx_rtp_header_t\<close> and \<open>rx_rfc4175_line_header_t\<close>, the build files
      and the scripts.
\<close>



end
